(* ===== verification/SBB_Prelude.thy ===== *)
theory SBB_Prelude
  imports Main "HOL-Library.Word" "HOL-Library.Multiset"
begin

text \<open>
  Shared vocabulary of the development: the machine integers of the code, the faults a
  C++ program can run into (an access outside an object, a null or dangling pointer), the
  result type of every routine that can fault, the sequencing of such routines, and the
  loop over a list that stops at the first fault. The lemmas declared \<open>[simp]\<close> here carry
  the proofs of the component theories.
\<close>

unbundle bit_operations_syntax

section \<open>Machine integers and byte strings\<close>

type_synonym u8 = "8 word"
type_synonym u16 = "16 word"
type_synonym u32 = "32 word"
type_synonym u64 = "64 word"

text \<open>A \<open>std::string\<close> is a sequence of bytes.\<close>

type_synonym cpp_string = "u8 list"

section \<open>Faults\<close>

text \<open>
  What the language leaves undefined is a value of the model: \<open>OutOfBounds\<close> is an access
  outside the accessed array, \<open>NullDeref\<close> a dereference of the null pointer,
  \<open>BadPointer\<close> a dereference of a pointer that no allocation has returned, \<open>SignedOverflow\<close> a
  result that does not fit an \<open>int\<close>, \<open>BadAlloc\<close> an array that is asked for with a negative length,
  \<open>DataRace\<close> an access to data that another thread accesses at the same time, one of them to change it.
  Memory itself is taken to suffice.
\<close>

datatype fault = OutOfBounds | NullDeref | BadPointer | SignedOverflow | BadAlloc | DataRace

type_synonym 'a res = "fault + 'a"

definition and_then :: "'a res \<Rightarrow> ('a \<Rightarrow> 'b res) \<Rightarrow> 'b res" where
  "and_then m f = (case m of Inl e \<Rightarrow> Inl e | Inr a \<Rightarrow> f a)"

lemma and_then_Inl [simp]: "and_then (Inl e) f = Inl e"
  by (simp add: and_then_def)

lemma and_then_Inr [simp]: "and_then (Inr a) f = f a"
  by (simp add: and_then_def)

lemma and_then_eq_Inr: "and_then m f = Inr b \<longleftrightarrow> (\<exists>a. m = Inr a \<and> f a = Inr b)"
  by (cases m) auto

lemma and_then_eq_Inl:
  "and_then m f = Inl e \<longleftrightarrow> m = Inl e \<or> (\<exists>a. m = Inr a \<and> f a = Inl e)"
  by (cases m) auto

lemma and_then_cong [fundef_cong]:
  "m = m' \<Longrightarrow> (\<And>a. m' = Inr a \<Longrightarrow> f a = f' a) \<Longrightarrow> and_then m f = and_then m' f'"
  by (cases m') auto

lemma and_then_assoc: "and_then (and_then m f) g = and_then m (\<lambda>a. and_then (f a) g)"
  by (cases m) auto

section \<open>Loops over a list\<close>

text \<open>A range-based \<open>for\<close> whose body can fault, with the state the body changes.\<close>

fun for_each :: "('a \<Rightarrow> 's \<Rightarrow> 's res) \<Rightarrow> 'a list \<Rightarrow> 's \<Rightarrow> 's res" where
  "for_each f [] s = Inr s"
| "for_each f (x # xs) s = and_then (f x s) (for_each f xs)"

lemma for_each_append: "for_each f (xs @ ys) s = and_then (for_each f xs s) (for_each f ys)"
  by (induction xs arbitrary: s) (simp_all add: and_then_assoc [symmetric] and_then_def split: sum.splits)

lemma for_each_cong [fundef_cong]:
  assumes "xs = ys" and "s = t" and "\<And>x u. x \<in> set ys \<Longrightarrow> f x u = g x u"
  shows "for_each f xs s = for_each g ys t"
  unfolding assms(1,2) using assms(3)
proof (induction ys arbitrary: t)
  case (Cons y ys)
  then show ?case by (cases "g y t") auto
qed simp

lemma for_each_invariant:
  assumes "for_each f xs s = Inr t" and "P s"
    and "\<And>x u v. x \<in> set xs \<Longrightarrow> P u \<Longrightarrow> f x u = Inr v \<Longrightarrow> P v"
  shows "P t"
  using assms
proof (induction xs arbitrary: s)
  case (Cons x xs)
  then obtain u where u: "f x s = Inr u" "for_each f xs u = Inr t"
    by (auto simp: and_then_eq_Inr)
  moreover have "P u" using Cons.prems u(1) by (meson list.set_intros(1))
  ultimately show ?case using Cons.IH Cons.prems(3) by (meson list.set_intros(2))
qed simp

text \<open>If every step succeeds under an invariant it keeps, the loop succeeds and keeps it.\<close>

lemma for_each_total:
  assumes "P s" and "\<And>x u. x \<in> set xs \<Longrightarrow> P u \<Longrightarrow> \<exists>v. f x u = Inr v \<and> P v"
  shows "\<exists>t. for_each f xs s = Inr t \<and> P t"
  using assms
proof (induction xs arbitrary: s)
  case (Cons x xs)
  then obtain u where "f x s = Inr u" "P u" by (meson list.set_intros(1))
  then show ?case using Cons.IH [of u] Cons.prems(2) by auto
qed simp

section \<open>Lists\<close>

lemma take_drop_nth: "i < n \<Longrightarrow> k + n \<le> length xs \<Longrightarrow> take n (drop k xs) ! i = xs ! (k + i)"
  by simp

lemma list_update_append_mid:
  "k = length xs \<Longrightarrow> (xs @ x # ys)[k := y] = xs @ y # ys"
  by simp

lemma filter_concat: "filter P (concat xss) = concat (map (filter P) xss)"
  by (induction xss) auto

section \<open>Words\<close>

lemma unat_bound: "unat (w :: 'a::len word) < 2 ^ LENGTH('a)"
  by (rule unsigned_less)

lemma unat_u16_bound: "unat (w :: u16) < 65536"
  using unat_bound [of w] by simp

lemma unat_u32_bound: "unat (w :: u32) < 4294967296"
  using unat_bound [of w] by simp

lemma unat_u64_bound: "unat (w :: u64) < 18446744073709551616"
  using unat_bound [of w] by simp

lemma distinct_singleton:
  assumes "distinct xs" "set xs = {x}"
  shows "xs = [x]"
proof (cases xs)
  case (Cons y ys)
  with assms have y: "y = x" and ys: "\<And>z. z \<in> set ys \<Longrightarrow> z = x" "x \<notin> set ys" by auto
  have "ys = []"
  proof (cases ys)
    case (Cons z zs)
    with ys show ?thesis by auto
  qed simp
  with Cons y show ?thesis by simp
qed (use assms in simp)

end
