(* ===== verification/Byte_Memory.thy ===== *)
theory Byte_Memory
  imports SBB_Prelude
begin

text \<open>
  Reading machine integers out of a byte buffer. A buffer is a list of bytes; a pointer
  into it is an integer offset from its start, so that the pointer arithmetic of the code
  (which can leave the buffer on either side) is written as it is, and an access outside
  the buffer is the fault \<open>OutOfBounds\<close>. The integers on disk are little-endian and the
  code reads them with the host's loads (\<open>APFS_LITTLE_ENDIAN\<close> in \<open>include/endian.h\<close>
  defines \<open>le_uint16_t\<close>, \<open>le_uint32_t\<close>, \<open>le_uint64_t\<close> as the native types).
\<close>

section \<open>Little-endian words\<close>

fun le_word :: "u8 list \<Rightarrow> 'a::len word" where
  "le_word [] = 0"
| "le_word (b # bs) = ucast b OR push_bit 8 (le_word bs)"

fun le_bytes :: "nat \<Rightarrow> 'a::len word \<Rightarrow> u8 list" where
  "le_bytes 0 w = []"
| "le_bytes (Suc n) w = ucast w # le_bytes n (drop_bit 8 w)"

lemma length_le_bytes [simp]: "length (le_bytes n w) = n"
  by (induction n arbitrary: w) auto

lemma bit_le_word:
  "bit (le_word bs :: 'a::len word) n \<longleftrightarrow>
     n < LENGTH('a) \<and> n div 8 < length bs \<and> bit (bs ! (n div 8)) (n mod 8)"
proof (induction bs arbitrary: n)
  case (Cons b bs)
  show ?case
  proof (cases "n < 8")
    case True
    then show ?thesis by (auto simp: bit_or_iff bit_push_bit_iff bit_ucast_iff)
  next
    case False
    then obtain k where n: "n = 8 + k" by (metis le_Suc_ex not_less)
    have "\<not> bit b n" using bit_imp_le_length [of b n] False by auto
    moreover have "n div 8 = Suc (k div 8)" "n mod 8 = k mod 8" by (simp_all add: n)
    ultimately show ?thesis using Cons.IH [of k]
      by (simp add: n bit_or_iff bit_push_bit_iff bit_ucast_iff) linarith
  qed
qed simp

lemma nth_le_bytes: "i < n \<Longrightarrow> le_bytes n w ! i = ucast (drop_bit (8 * i) w)"
  by (induction n arbitrary: w i) (auto simp: nth_Cons drop_bit_drop_bit add.commute split: nat.split)

text \<open>Encoding and decoding are inverse as soon as the bytes cover the word.\<close>

lemma le_word_le_bytes:
  assumes "LENGTH('a::len) \<le> 8 * n"
  shows "le_word (le_bytes n (w :: 'a word)) = w"
proof (rule bit_word_eqI)
  fix i assume i: "i < LENGTH('a)"
  with assms have q: "i div 8 < n" by auto
  have "8 * (i div 8) + i mod 8 = i" by simp
  then show "bit (le_word (le_bytes n w) :: 'a word) i = bit w i"
    using i q by (simp add: bit_le_word nth_le_bytes bit_ucast_iff bit_drop_bit_eq)
qed

lemma le_bytes_le_word:
  assumes "8 * length bs \<le> LENGTH('a::len)"
  shows "le_bytes (length bs) (le_word bs :: 'a word) = bs"
proof (rule nth_equalityI)
  fix i assume "i < length (le_bytes (length bs) (le_word bs :: 'a word))"
  then have i: "i < length bs" by simp
  have "bit (ucast (drop_bit (8 * i) (le_word bs :: 'a word)) :: u8) j = bit (bs ! i) j"
    if "j < 8" for j
    using that i assms by (simp add: bit_ucast_iff bit_drop_bit_eq bit_le_word)
  then show "le_bytes (length bs) (le_word bs :: 'a word) ! i = bs ! i"
    using i by (simp add: nth_le_bytes) (rule bit_word_eqI, simp)
qed simp

section \<open>Loads\<close>

definition rd_bytes :: "u8 list \<Rightarrow> int \<Rightarrow> nat \<Rightarrow> u8 list res" where
  "rd_bytes mem p n =
     (if 0 \<le> p \<and> p + int n \<le> int (length mem) then Inr (take n (drop (nat p) mem))
      else Inl OutOfBounds)"

definition rd8 :: "u8 list \<Rightarrow> int \<Rightarrow> u8 res" where
  "rd8 mem p = and_then (rd_bytes mem p 1) (\<lambda>bs. Inr (le_word bs))"

definition rd16 :: "u8 list \<Rightarrow> int \<Rightarrow> u16 res" where
  "rd16 mem p = and_then (rd_bytes mem p 2) (\<lambda>bs. Inr (le_word bs))"

definition rd32 :: "u8 list \<Rightarrow> int \<Rightarrow> u32 res" where
  "rd32 mem p = and_then (rd_bytes mem p 4) (\<lambda>bs. Inr (le_word bs))"

definition rd64 :: "u8 list \<Rightarrow> int \<Rightarrow> u64 res" where
  "rd64 mem p = and_then (rd_bytes mem p 8) (\<lambda>bs. Inr (le_word bs))"

text \<open>A pointer is good for \<open>n\<close> bytes when these lie in the buffer.\<close>

definition in_buf :: "u8 list \<Rightarrow> int \<Rightarrow> nat \<Rightarrow> bool" where
  "in_buf mem p n \<longleftrightarrow> 0 \<le> p \<and> p + int n \<le> int (length mem)"

lemma rd_in_buf:
  "in_buf mem p 1 \<Longrightarrow> rd8 mem p = Inr (le_word (take 1 (drop (nat p) mem)))"
  "in_buf mem p 2 \<Longrightarrow> rd16 mem p = Inr (le_word (take 2 (drop (nat p) mem)))"
  "in_buf mem p 4 \<Longrightarrow> rd32 mem p = Inr (le_word (take 4 (drop (nat p) mem)))"
  "in_buf mem p 8 \<Longrightarrow> rd64 mem p = Inr (le_word (take 8 (drop (nat p) mem)))"
  by (simp_all add: in_buf_def rd8_def rd16_def rd32_def rd64_def rd_bytes_def)

lemma rd_not_in_buf:
  "\<not> in_buf mem p 1 \<Longrightarrow> rd8 mem p = Inl OutOfBounds"
  "\<not> in_buf mem p 2 \<Longrightarrow> rd16 mem p = Inl OutOfBounds"
  "\<not> in_buf mem p 4 \<Longrightarrow> rd32 mem p = Inl OutOfBounds"
  "\<not> in_buf mem p 8 \<Longrightarrow> rd64 mem p = Inl OutOfBounds"
  by (auto simp: in_buf_def rd8_def rd16_def rd32_def rd64_def rd_bytes_def)

lemma rd_ok:
  "(\<exists>w. rd8 mem p = Inr w) \<longleftrightarrow> in_buf mem p 1"
  "(\<exists>w. rd16 mem p = Inr w) \<longleftrightarrow> in_buf mem p 2"
  "(\<exists>w. rd32 mem p = Inr w) \<longleftrightarrow> in_buf mem p 4"
  "(\<exists>w. rd64 mem p = Inr w) \<longleftrightarrow> in_buf mem p 8"
  by (cases "in_buf mem p 1", simp_all add: rd_in_buf rd_not_in_buf)
    (cases "in_buf mem p 2", simp_all add: rd_in_buf rd_not_in_buf,
     cases "in_buf mem p 4", simp_all add: rd_in_buf rd_not_in_buf,
     cases "in_buf mem p 8", simp_all add: rd_in_buf rd_not_in_buf)

lemma in_buf_mono: "in_buf mem p n \<Longrightarrow> k + m \<le> n \<Longrightarrow> in_buf mem (p + int k) m"
  by (auto simp: in_buf_def)

text \<open>A load finds what was stored there.\<close>

lemma rd64_stored:
  "rd64 (pre @ le_bytes 8 w @ post) (int (length pre)) = Inr w"
  by (simp add: rd64_def rd_bytes_def le_word_le_bytes)

lemma rd32_stored:
  "rd32 (pre @ le_bytes 4 w @ post) (int (length pre)) = Inr w"
  by (simp add: rd32_def rd_bytes_def le_word_le_bytes)

lemma rd16_stored:
  "rd16 (pre @ le_bytes 2 w @ post) (int (length pre)) = Inr w"
  by (simp add: rd16_def rd_bytes_def le_word_le_bytes)

section \<open>C strings\<close>

text \<open>\<open>string((char*) p)\<close>: the bytes from \<open>p\<close> up to the first zero byte.\<close>

fun bytes_to_nul :: "u8 list \<Rightarrow> cpp_string res" where
  "bytes_to_nul [] = Inl OutOfBounds"
| "bytes_to_nul (b # bs) =
     (if b = 0 then Inr [] else and_then (bytes_to_nul bs) (\<lambda>s. Inr (b # s)))"

definition rd_cstring :: "u8 list \<Rightarrow> int \<Rightarrow> cpp_string res" where
  "rd_cstring mem p =
     (if 0 \<le> p then bytes_to_nul (drop (nat p) mem) else Inl OutOfBounds)"

lemma bytes_to_nul_stored: "0 \<notin> set s \<Longrightarrow> bytes_to_nul (s @ 0 # post) = Inr s"
  by (induction s) auto

lemma bytes_to_nul_Inr: "bytes_to_nul bs = Inr s \<longleftrightarrow> 0 \<notin> set s \<and> (\<exists>post. bs = s @ 0 # post)"
proof (induction bs arbitrary: s)
  case (Cons b bs)
  show ?case
  proof (cases "b = 0")
    case True
    then show ?thesis by (cases s) auto
  next
    case False
    then show ?thesis using Cons.IH by (cases s) (auto simp: and_then_eq_Inr)
  qed
qed simp

lemma bytes_to_nul_fault: "(\<exists>s. bytes_to_nul bs = Inr s) \<longleftrightarrow> 0 \<in> set bs"
  by (induction bs) (auto simp: and_then_eq_Inr)

end
