(* ===== verification/Checksum.thy ===== *)
theory Checksum
  imports Byte_Memory
begin

text \<open>
  The block checksum \<open>fletcher64\<close> of \<open>src/libsbb/utils.cpp\<close>: the loop over 32-bit words
  with its two folded 64-bit sums, and the two check words it returns. The lemmas show
  that the sums never exceed \<open>2 ^ 32\<close>, so that no addition wraps, that they are the plain
  and the weighted sum of the words modulo \<open>2 ^ 32 - 1\<close>, that the two check words complete
  the data to a sequence whose sums vanish, and which corruptions change the result.
\<close>

section \<open>The code\<close>

definition fletcher_step :: "u64 \<times> u64 \<Rightarrow> u32 \<Rightarrow> u64 \<times> u64" where
  "fletcher_step s w =
     (let m = 0xFFFFFFFF;
          sum1 = fst s + ucast w;
          sum1 = (sum1 AND m) + drop_bit 32 sum1;
          sum2 = snd s + sum1;
          sum2 = (sum2 AND m) + drop_bit 32 sum2
      in (sum1, sum2))"

text \<open>\<open>wordPtr\<close> is the offset of the next word, \<open>wordCount\<close> the number still to read.\<close>

fun fletcher_loop :: "u8 list \<Rightarrow> int \<Rightarrow> nat \<Rightarrow> u64 \<times> u64 \<Rightarrow> (u64 \<times> u64) res" where
  "fletcher_loop mem wordPtr 0 s = Inr s"
| "fletcher_loop mem wordPtr (Suc wordCount) s =
     and_then (rd32 mem wordPtr) (\<lambda>w.
       fletcher_loop mem (wordPtr + 4) wordCount (fletcher_step s w))"

definition fletcher_result :: "u64 \<times> u64 \<Rightarrow> u64" where
  "fletcher_result s =
     (let m = 0xFFFFFFFF;
          check1 = m - ((fst s + snd s) mod m);
          check2 = m - ((fst s + check1) mod m)
      in push_bit 32 check2 OR check1)"

definition fletcher64 :: "u8 list \<Rightarrow> int \<Rightarrow> u32 \<Rightarrow> u64 res" where
  "fletcher64 mem data byteCount =
     and_then (fletcher_loop mem data (unat byteCount div 4) (0, 0))
       (\<lambda>s. Inr (fletcher_result s))"

section \<open>Reference definition\<close>

text \<open>The modulus, the sum of the words, and the sum of all their prefix sums.\<close>

definition fl_mod :: nat where
  "fl_mod = 4294967295"

fun fl_sum1 :: "u32 list \<Rightarrow> nat" where
  "fl_sum1 [] = 0"
| "fl_sum1 (w # ws) = unat w + fl_sum1 ws"

fun fl_sum2 :: "u32 list \<Rightarrow> nat" where
  "fl_sum2 [] = 0"
| "fl_sum2 (w # ws) = Suc (length ws) * unat w + fl_sum2 ws"

definition fl_check1 :: "u32 list \<Rightarrow> nat" where
  "fl_check1 ws = fl_mod - (fl_sum1 ws + fl_sum2 ws) mod fl_mod"

definition fl_check2 :: "u32 list \<Rightarrow> nat" where
  "fl_check2 ws = fl_mod - (fl_sum1 ws + fl_check1 ws) mod fl_mod"

definition fl_reference :: "u32 list \<Rightarrow> nat" where
  "fl_reference ws = fl_check2 ws * 4294967296 + fl_check1 ws"

text \<open>The words the loop reads.\<close>

definition words_at :: "u8 list \<Rightarrow> int \<Rightarrow> nat \<Rightarrow> u32 list" where
  "words_at mem p n = map (\<lambda>i. le_word (take 4 (drop (nat p + 4 * i) mem))) [0..<n]"

lemma length_words_at [simp]: "length (words_at mem p n) = n"
  by (simp add: words_at_def)

lemma words_at_Suc:
  "0 \<le> p \<Longrightarrow> words_at mem p (Suc n) = le_word (take 4 (drop (nat p) mem)) # words_at mem (p + 4) n"
  unfolding words_at_def
  by (subst upt_conv_Cons) (auto simp: map_Suc_upt [symmetric] nat_add_distrib add.assoc simp del: upt_Suc)

lemma fletcher_loop_words:
  "in_buf mem p (4 * n) \<Longrightarrow>
     fletcher_loop mem p n s = Inr (foldl fletcher_step s (words_at mem p n))"
proof (induction n arbitrary: p s)
  case 0
  then show ?case by (simp add: words_at_def)
next
  case (Suc n)
  then have "in_buf mem p 4" "in_buf mem (p + 4) (4 * n)" "0 \<le> p"
    by (auto simp: in_buf_def)
  with Suc.IH show ?case by (simp add: rd_in_buf words_at_Suc)
qed

lemma fletcher_loop_fault:
  "\<not> in_buf mem p (4 * n) \<Longrightarrow> 0 < n \<Longrightarrow> fletcher_loop mem p n s = Inl OutOfBounds"
proof (induction n arbitrary: p s)
  case (Suc n)
  show ?case
  proof (cases "in_buf mem p 4")
    case True
    with Suc.prems have "\<not> in_buf mem (p + 4) (4 * n)" "0 < n"
      by (cases n; auto simp: in_buf_def)+
    with True Suc.IH show ?thesis by (simp add: rd_in_buf)
  next
    case False
    then show ?thesis by (simp add: rd_not_in_buf)
  qed
qed simp

section \<open>One step, in natural numbers\<close>

lemma unat_fold:
  fixes s :: u64
  shows "unat ((s AND 0xFFFFFFFF) + drop_bit 32 s) = unat s mod 4294967296 + unat s div 4294967296"
proof -
  have "s AND 0xFFFFFFFF = take_bit 32 s" by (simp add: take_bit_eq_mask mask_numeral)
  then have l: "unat (s AND 0xFFFFFFFF) = unat s mod 4294967296"
    by (simp add: unsigned_take_bit_eq take_bit_eq_mod unat_mod)
  have r: "unat (drop_bit 32 s) = unat s div 4294967296"
    by (simp add: unat_drop_bit_eq drop_bit_eq_div unat_div)
  have "unat s div 4294967296 < 4294967296"
    using unat_u64_bound [of s] by (simp add: less_mult_imp_div_less)
  then have "unat s mod 4294967296 + unat s div 4294967296 < 2 ^ LENGTH(64)"
    by simp
  then show ?thesis by (subst unat_word_ariths, simp add: l r)
qed

definition fl_fold :: "nat \<Rightarrow> nat" where
  "fl_fold n = n mod 4294967296 + n div 4294967296"

lemma fl_fold_mod: "fl_fold n mod fl_mod = n mod fl_mod"
proof -
  have "n = (n div 4294967296) * fl_mod + fl_fold n"
    unfolding fl_fold_def fl_mod_def
    using div_mult_mod_eq [of n 4294967296] by linarith
  then show ?thesis by (metis mod_mult_self3 add.commute)
qed

lemma fl_fold_le:
  assumes "n \<le> 8589934592"
  shows "fl_fold n \<le> 4294967296"
proof (cases "n = 8589934592")
  case True
  then show ?thesis by (simp add: fl_fold_def)
next
  case False
  with assms have "n < 2 * 4294967296" by simp
  then have "n div 4294967296 < 2" by (rule less_mult_imp_div_less)
  moreover have "n mod 4294967296 < 4294967296" by simp
  ultimately show ?thesis unfolding fl_fold_def by linarith
qed

text \<open>The sums stay at or below \<open>2 ^ 32\<close>: the additions of the loop never wrap.\<close>

definition fl_bounded :: "u64 \<times> u64 \<Rightarrow> bool" where
  "fl_bounded s \<longleftrightarrow> unat (fst s) \<le> 4294967296 \<and> unat (snd s) \<le> 4294967296"

lemma unat_fletcher_step:
  assumes "fl_bounded s"
  shows "unat (fst (fletcher_step s w)) = fl_fold (unat (fst s) + unat w)"
    and "unat (snd (fletcher_step s w)) =
           fl_fold (unat (snd s) + fl_fold (unat (fst s) + unat w))"
proof -
  have w: "unat (ucast w :: u64) = unat w"
    by (simp add: unsigned_ucast_eq take_bit_nat_eq_self_iff order.strict_trans [OF unat_u32_bound])
  have a: "unat (fst s + ucast w) = unat (fst s) + unat w"
    using assms unat_u32_bound [of w] by (subst unat_word_ariths, simp add: w fl_bounded_def)
  have 1: "unat (fst (fletcher_step s w)) = fl_fold (unat (fst s) + unat w)"
    by (simp add: fletcher_step_def Let_def unat_fold a fl_fold_def)
  show "unat (fst (fletcher_step s w)) = fl_fold (unat (fst s) + unat w)" by (rule 1)
  have "fl_fold (unat (fst s) + unat w) \<le> 4294967296"
    using assms unat_u32_bound [of w] by (intro fl_fold_le) (simp add: fl_bounded_def)
  then have b: "unat (snd s + fst (fletcher_step s w)) = unat (snd s) + fl_fold (unat (fst s) + unat w)"
    using assms by (subst unat_word_ariths, simp add: 1 fl_bounded_def)
  show "unat (snd (fletcher_step s w)) = fl_fold (unat (snd s) + fl_fold (unat (fst s) + unat w))"
    using b by (simp add: fletcher_step_def Let_def unat_fold fl_fold_def)
qed

lemma fl_bounded_step: "fl_bounded s \<Longrightarrow> fl_bounded (fletcher_step s w)"
proof -
  assume s: "fl_bounded s"
  have 1: "fl_fold (unat (fst s) + unat w) \<le> 4294967296"
    using s unat_u32_bound [of w] by (intro fl_fold_le) (simp add: fl_bounded_def)
  then have "fl_fold (unat (snd s) + fl_fold (unat (fst s) + unat w)) \<le> 4294967296"
    using s by (intro fl_fold_le) (simp add: fl_bounded_def)
  with 1 show ?thesis using s by (simp add: fl_bounded_def unat_fletcher_step)
qed

lemma fl_bounded_loop: "fl_bounded s \<Longrightarrow> fl_bounded (foldl fletcher_step s ws)"
  by (induction ws arbitrary: s) (simp_all add: fl_bounded_step)

text \<open>Modulo \<open>2 ^ 32 - 1\<close>, one step adds the word to the first sum and the new first
  sum to the second; the loop computes the two reference sums.\<close>

lemma fletcher_step_mod:
  assumes "fl_bounded s"
  shows "unat (fst (fletcher_step s w)) mod fl_mod = (unat (fst s) + unat w) mod fl_mod"
    and "unat (snd (fletcher_step s w)) mod fl_mod = (unat (snd s) + (unat (fst s) + unat w)) mod fl_mod"
proof -
  show "unat (fst (fletcher_step s w)) mod fl_mod = (unat (fst s) + unat w) mod fl_mod"
    using assms by (simp add: unat_fletcher_step fl_fold_mod)
  have "(unat (snd s) + fl_fold (unat (fst s) + unat w)) mod fl_mod =
      (unat (snd s) + (unat (fst s) + unat w)) mod fl_mod"
    by (rule mod_add_cong) (simp_all add: fl_fold_mod)
  then show "unat (snd (fletcher_step s w)) mod fl_mod = (unat (snd s) + (unat (fst s) + unat w)) mod fl_mod"
    using assms by (simp add: unat_fletcher_step fl_fold_mod)
qed

lemma fletcher_loop_sum1:
  "fl_bounded s \<Longrightarrow>
     unat (fst (foldl fletcher_step s ws)) mod fl_mod = (unat (fst s) + fl_sum1 ws) mod fl_mod"
proof (induction ws arbitrary: s)
  case (Cons w ws)
  let ?t = "fletcher_step s w"
  have "unat (fst (foldl fletcher_step s (w # ws))) mod fl_mod = (unat (fst ?t) + fl_sum1 ws) mod fl_mod"
    using Cons.IH [OF fl_bounded_step [OF Cons.prems]] by simp
  also have "\<dots> = (unat (fst s) + unat w + fl_sum1 ws) mod fl_mod"
    by (intro mod_add_cong fletcher_step_mod Cons.prems refl)
  finally show ?case by (simp add: add.assoc)
qed simp

lemma fletcher_loop_sum2:
  "fl_bounded s \<Longrightarrow>
     unat (snd (foldl fletcher_step s ws)) mod fl_mod =
       (unat (snd s) + length ws * unat (fst s) + fl_sum2 ws) mod fl_mod"
proof (induction ws arbitrary: s)
  case (Cons w ws)
  let ?t = "fletcher_step s w"
  have "unat (snd (foldl fletcher_step s (w # ws))) mod fl_mod =
      (unat (snd ?t) + length ws * unat (fst ?t) + fl_sum2 ws) mod fl_mod"
    using Cons.IH [OF fl_bounded_step [OF Cons.prems]] by simp
  also have "\<dots> = (unat (snd s) + (unat (fst s) + unat w) + length ws * (unat (fst s) + unat w) + fl_sum2 ws) mod fl_mod"
    by (intro mod_add_cong mod_mult_cong fletcher_step_mod Cons.prems refl)
  finally show ?case by (simp add: algebra_simps)
qed simp

section \<open>The check words\<close>

lemma fletcher_result_parts:
  fixes s :: "u64 \<times> u64"
  assumes "fl_bounded s"
  shows "unat (fletcher_result s) =
    (fl_mod - (unat (fst s) + (fl_mod - (unat (fst s) + unat (snd s)) mod fl_mod)) mod fl_mod) * 4294967296
      + (fl_mod - (unat (fst s) + unat (snd s)) mod fl_mod)"
proof -
  let ?m = "0xFFFFFFFF :: u64"
  define c1 where "c1 = ?m - ((fst s + snd s) mod ?m)"
  define c2 where "c2 = ?m - ((fst s + c1) mod ?m)"
  have sub: "unat (?m - x mod ?m) = fl_mod - unat x mod fl_mod" for x :: u64
  proof -
    have "x mod ?m \<le> ?m" by (simp add: word_le_nat_alt unat_mod)
    then show ?thesis by (simp add: unat_sub unat_mod fl_mod_def)
  qed
  have c1: "unat c1 = fl_mod - (unat (fst s) + unat (snd s)) mod fl_mod"
    unfolding c1_def sub using assms by (subst unat_word_ariths) (simp add: fl_bounded_def)
  then have c1_le: "unat c1 \<le> fl_mod" by simp
  then have c2: "unat c2 = fl_mod - (unat (fst s) + unat c1) mod fl_mod"
    unfolding c2_def sub using assms by (subst unat_word_ariths) (simp add: fl_bounded_def fl_mod_def)
  have sh: "unat (push_bit 32 c2) = unat c2 * 4294967296"
    unfolding push_bit_eq_mult using c2 by (subst unat_word_ariths) (simp add: fl_mod_def)
  have "push_bit 32 c2 AND c1 = 0"
  proof (rule bit_word_eqI)
    fix n assume "n < LENGTH(64)"
    have "\<not> bit c1 n" if "32 \<le> n"
    proof -
      have "unat (take_bit 32 c1) = unat c1"
        using c1_le by (simp add: unsigned_take_bit_eq take_bit_nat_eq_self_iff fl_mod_def)
      then have "take_bit 32 c1 = c1" by (simp only: word_unat_eq_iff)
      then show ?thesis using that by (metis bit_take_bit_iff not_less)
    qed
    then show "bit (push_bit 32 c2 AND c1) n = bit 0 n"
      by (auto simp: bit_and_iff bit_push_bit_iff)
  qed
  then have "push_bit 32 c2 OR c1 = push_bit 32 c2 + c1"
    by (rule disjunctive_add_eq_or [symmetric])
  moreover have "unat (push_bit 32 c2 + c1) = unat c2 * 4294967296 + unat c1"
    using c1_le c2 by (subst unat_word_ariths) (simp add: sh fl_mod_def)
  ultimately show ?thesis
    by (simp add: fletcher_result_def Let_def c1_def [symmetric] c2_def [symmetric] c1 c2)
qed

lemma fl_bounded_start: "fl_bounded (0, 0)"
  by (simp add: fl_bounded_def)

lemma mod_minus_cong: "(a :: nat) mod m = b mod m \<Longrightarrow> m - a mod m = m - b mod m"
  by simp

lemma fletcher_result_loop:
  "unat (fletcher_result (foldl fletcher_step (0, 0) ws)) = fl_reference ws"
proof -
  let ?s = "foldl fletcher_step (0, 0) ws"
  have 1: "unat (fst ?s) mod fl_mod = fl_sum1 ws mod fl_mod"
    using fletcher_loop_sum1 [OF fl_bounded_start] by simp
  have 2: "unat (snd ?s) mod fl_mod = fl_sum2 ws mod fl_mod"
    using fletcher_loop_sum2 [OF fl_bounded_start] by simp
  have c1: "fl_mod - (unat (fst ?s) + unat (snd ?s)) mod fl_mod = fl_check1 ws"
    unfolding fl_check1_def by (intro mod_minus_cong mod_add_cong 1 2)
  have c2: "fl_mod - (unat (fst ?s) + fl_check1 ws) mod fl_mod = fl_check2 ws"
    unfolding fl_check2_def by (intro mod_minus_cong mod_add_cong 1 refl)
  show ?thesis
    using fletcher_result_parts [OF fl_bounded_loop [OF fl_bounded_start], of ws]
    by (simp add: c1 c2 fl_reference_def)
qed

lemma fletcher64_reference:
  assumes "in_buf mem p (4 * (unat n div 4))"
  obtains r where "fletcher64 mem p n = Inr r"
    and "unat r = fl_reference (words_at mem p (unat n div 4))"
  using assms by (simp add: fletcher64_def fletcher_loop_words fletcher_result_loop)

lemma fletcher64_fault:
  "\<not> in_buf mem p (4 * (unat n div 4)) \<Longrightarrow> 4 \<le> unat n \<Longrightarrow> fletcher64 mem p n = Inl OutOfBounds"
  by (simp add: fletcher64_def fletcher_loop_fault div_greater_zero_iff)

section \<open>What the checksum detects\<close>

lemma fl_check_bounds:
  "0 < fl_check1 ws" "fl_check1 ws \<le> fl_mod" "0 < fl_check2 ws" "fl_check2 ws \<le> fl_mod"
  by (simp_all add: fl_check1_def fl_check2_def fl_mod_def)

lemma fl_sum1_append: "fl_sum1 (ws @ vs) = fl_sum1 ws + fl_sum1 vs"
  by (induction ws) auto

lemma fl_sum2_append: "fl_sum2 (ws @ vs) = fl_sum2 ws + length vs * fl_sum1 ws + fl_sum2 vs"
  by (induction ws) (auto simp: algebra_simps)

text \<open>A check word is the negative of a sum, modulo \<open>2 ^ 32 - 1\<close>.\<close>

lemma mod_complement: "0 < m \<Longrightarrow> ((x :: nat) + (m - x mod m)) mod m = 0"
  using mod_less_divisor [of m x]
  by (metis add.commute le_add_diff_inverse2 less_imp_le mod_add_right_eq mod_self)

lemma fl_mod_pos: "0 < fl_mod"
  by (simp add: fl_mod_def)

lemma fl_check_sums:
  "(fl_sum1 ws + fl_sum2 ws + fl_check1 ws) mod fl_mod = 0"
  "(fl_sum1 ws + fl_check1 ws + fl_check2 ws) mod fl_mod = 0"
  unfolding fl_check2_def by (simp only: mod_complement [OF fl_mod_pos] fl_check1_def)+

lemma complement_cong:
  assumes "0 < (m :: nat)"
  shows "m - x mod m = m - y mod m \<longleftrightarrow> x mod m = y mod m"
  using mod_less_divisor [OF assms, of x] mod_less_divisor [OF assms, of y] by linarith

lemma mod_add_cancel:
  assumes "0 < (m :: nat)"
  shows "(a + c) mod m = (b + c) mod m \<longleftrightarrow> a mod m = b mod m"
proof
  have absorb: "(x + c + (m - c mod m)) mod m = x mod m" for x
    using mod_complement [OF assms, of c] by (metis add.assoc add.right_neutral mod_add_right_eq)
  assume "(a + c) mod m = (b + c) mod m"
  then have "(a + c + (m - c mod m)) mod m = (b + c + (m - c mod m)) mod m"
    by (rule mod_add_cong) simp
  then show "a mod m = b mod m" by (simp only: absorb)
qed (rule mod_add_cong, simp_all)

lemma mult_add_unique:
  assumes "(b :: nat) < k" "b' < k"
  shows "a * k + b = a' * k + b' \<longleftrightarrow> a = a' \<and> b = b'"
proof
  assume eq: "a * k + b = a' * k + b'"
  from arg_cong [OF eq, of "\<lambda>x. x mod k"] assms have "b = b'" by simp
  with eq assms show "a = a' \<and> b = b'" by simp
qed simp

text \<open>The checksum determines both sums modulo \<open>2 ^ 32 - 1\<close>, and nothing more.\<close>

lemma fl_reference_eq_iff:
  "fl_reference ws = fl_reference vs \<longleftrightarrow>
     fl_sum1 ws mod fl_mod = fl_sum1 vs mod fl_mod \<and> fl_sum2 ws mod fl_mod = fl_sum2 vs mod fl_mod"
    (is "?l \<longleftrightarrow> ?r1 \<and> ?r2")
proof -
  have "?l \<longleftrightarrow> fl_check2 ws = fl_check2 vs \<and> fl_check1 ws = fl_check1 vs"
    using fl_check_bounds [of ws] fl_check_bounds [of vs]
    unfolding fl_reference_def by (intro mult_add_unique) (simp_all add: fl_mod_def)
  also have "\<dots> \<longleftrightarrow> ?r1 \<and> fl_check1 ws = fl_check1 vs"
    unfolding fl_check2_def complement_cong [OF fl_mod_pos]
    using mod_add_cancel [OF fl_mod_pos] by auto
  also have "\<dots> \<longleftrightarrow> ?r1 \<and> (fl_sum1 ws + fl_sum2 ws) mod fl_mod = (fl_sum1 vs + fl_sum2 vs) mod fl_mod"
    by (simp only: fl_check1_def complement_cong [OF fl_mod_pos])
  also have "\<dots> \<longleftrightarrow> ?r1 \<and> ?r2"
    using mod_add_cancel [OF fl_mod_pos, of "fl_sum2 ws" "fl_sum1 vs" "fl_sum2 vs"]
    by (metis add.commute mod_add_left_eq)
  finally show ?thesis .
qed

text \<open>Two words that agree modulo \<open>2 ^ 32 - 1\<close> are equal, or they are \<open>0\<close> and \<open>0xFFFFFFFF\<close>.\<close>

lemma unat_mod_fl_mod:
  fixes w v :: u32
  assumes "unat w mod fl_mod = unat v mod fl_mod"
  shows "w = v \<or> {w, v} = {0, 0xFFFFFFFF}"
proof -
  have m: "unat x mod fl_mod = (if unat x = 4294967295 then 0 else unat x)" for x :: u32
    using unat_u32_bound [of x] by (auto simp: fl_mod_def)
  have e: "x = 0 \<longleftrightarrow> unat x = 0" "x = 0xFFFFFFFF \<longleftrightarrow> unat x = 4294967295" "w = v \<longleftrightarrow> unat w = unat v" for x :: u32
    by (simp_all only: word_unat_eq_iff) simp_all
  show ?thesis
    using assms by (simp add: doubleton_eq_iff e m split: if_splits)
qed

lemma fl_sum1_update:
  "i < length ws \<Longrightarrow> fl_sum1 (ws[i := v]) + unat (ws ! i) = fl_sum1 ws + unat v"
  by (induction ws arbitrary: i) (auto split: nat.split)

lemma fl_sum2_update:
  "i < length ws \<Longrightarrow>
     fl_sum2 (ws[i := v]) + (length ws - i) * unat (ws ! i) = fl_sum2 ws + (length ws - i) * unat v"
  by (induction ws arbitrary: i) (auto split: nat.split)

text \<open>Replacing one word keeps the checksum exactly when the two words agree modulo \<open>2 ^ 32 - 1\<close>.\<close>

lemma fl_reference_update:
  assumes i: "i < length ws"
  shows "fl_reference (ws[i := v]) = fl_reference ws \<longleftrightarrow> ws ! i = v \<or> {ws ! i, v} = {0, 0xFFFFFFFF}"
    (is "?l \<longleftrightarrow> ?r")
proof
  let ?w = "ws ! i"
  assume ?l
  then have "fl_sum1 (ws[i := v]) mod fl_mod = fl_sum1 ws mod fl_mod"
    by (simp add: fl_reference_eq_iff)
  then have "(fl_sum1 (ws[i := v]) + unat ?w) mod fl_mod = (fl_sum1 ws + unat ?w) mod fl_mod"
    by (simp add: mod_add_cancel [OF fl_mod_pos])
  then have "(unat v + fl_sum1 ws) mod fl_mod = (unat ?w + fl_sum1 ws) mod fl_mod"
    using fl_sum1_update [OF i, of v] by (simp add: add.commute)
  then have "unat ?w mod fl_mod = unat v mod fl_mod"
    by (simp only: mod_add_cancel [OF fl_mod_pos])
  then show ?r by (rule unat_mod_fl_mod)
next
  let ?w = "ws ! i"
  assume ?r
  then consider "?w = v" | "?w = 0" "v = 0xFFFFFFFF" | "?w = 0xFFFFFFFF" "v = 0"
    by (metis doubleton_eq_iff)
  then have m: "unat v mod fl_mod = unat ?w mod fl_mod"
    by cases (simp_all add: fl_mod_def)
  have "(fl_sum1 (ws[i := v]) + unat ?w) mod fl_mod = (fl_sum1 ws + unat ?w) mod fl_mod"
    unfolding fl_sum1_update [OF i] by (intro mod_add_cong m refl)
  moreover have "(fl_sum2 (ws[i := v]) + (length ws - i) * unat ?w) mod fl_mod =
      (fl_sum2 ws + (length ws - i) * unat ?w) mod fl_mod"
    unfolding fl_sum2_update [OF i] by (intro mod_add_cong mod_mult_cong m refl)
  ultimately show ?l
    by (simp add: fl_reference_eq_iff mod_add_cancel [OF fl_mod_pos])
qed

lemma fletcher64_eq_iff:
  assumes "in_buf mem p (4 * (unat n div 4))" "in_buf mem' q (4 * (unat n' div 4))"
  shows "fletcher64 mem p n = fletcher64 mem' q n' \<longleftrightarrow>
    fl_reference (words_at mem p (unat n div 4)) = fl_reference (words_at mem' q (unat n' div 4))"
  using fletcher64_reference [OF assms(1)] fletcher64_reference [OF assms(2)]
  by (metis sum.inject(2) word_unat_eq_iff)

section \<open>Properties\<close>

text \<open>
  C9. On a buffer that holds the words to read, \<open>fletcher64\<close> returns the reference
  checksum: with \<open>S1\<close> the sum of the words and \<open>S2\<close> the sum of its prefix sums, the low
  word is \<open>-(S1 + S2)\<close> and the high word \<open>-(S1 + low)\<close> modulo \<open>2 ^ 32 - 1\<close>.
\<close>
theorem fletcher64_correct:
  assumes "in_buf mem data (4 * (unat byteCount div 4))"
  shows "\<exists>r. fletcher64 mem data byteCount = Inr r \<and>
    unat r = fl_reference (words_at mem data (unat byteCount div 4))"
  using fletcher64_reference [OF assms] by metis

theorem fletcher64_correct_witness:
  "\<exists>r. fletcher64 [0xFF, 1, 0, 0, 0, 2, 0, 0, 0] 1 8 = Inr r \<and> unat r = fl_reference [1, 2 * 256 div 256]"
proof -
  have b: "in_buf [0xFF, 1, 0, 0, 0, 2, 0, 0, 0] 1 (4 * (unat (8 :: u32) div 4))"
    by (simp add: in_buf_def)
  have "words_at [0xFF, 1, 0, 0, 0, 2, 0, 0, 0] 1 (unat (8 :: u32) div 4) = [1, 2 * 256 div 256]"
    by (simp add: words_at_def upt_rec)
  with fletcher64_correct [OF b] show ?thesis by simp
qed

text \<open>
  The two check words complete the data: over the words followed by the low and the
  high half of the checksum, both sums vanish modulo \<open>2 ^ 32 - 1\<close>. This is what makes
  the stored value a checksum of the block.
\<close>
lemma fletcher64_completes:
  assumes "in_buf mem data (4 * (unat byteCount div 4))"
    and "fletcher64 mem data byteCount = Inr r"
  shows "let ws = words_at mem data (unat byteCount div 4) @ [ucast r, ucast (drop_bit 32 r)]
         in fl_sum1 ws mod fl_mod = 0 \<and> fl_sum2 ws mod fl_mod = 0"
proof -
  let ?ws = "words_at mem data (unat byteCount div 4)"
  have r: "unat r = fl_check2 ?ws * 4294967296 + fl_check1 ?ws"
    using fletcher64_reference [OF assms(1)] assms(2) by (metis fl_reference_def sum.inject(2))
  have 1: "unat (ucast r :: u32) = fl_check1 ?ws"
    using r fl_check_bounds [of ?ws]
    by (simp add: unsigned_ucast_eq take_bit_eq_mod fl_mod_def)
  have 2: "unat (ucast (drop_bit 32 r) :: u32) = fl_check2 ?ws"
    using r fl_check_bounds [of ?ws]
    by (simp add: unsigned_ucast_eq unat_drop_bit_eq drop_bit_eq_div take_bit_eq_mod fl_mod_def unat_div)
  have s1: "fl_sum1 (?ws @ [ucast r, ucast (drop_bit 32 r)]) = fl_sum1 ?ws + fl_check1 ?ws + fl_check2 ?ws"
    by (simp add: fl_sum1_append 1 2)
  have s2: "fl_sum2 (?ws @ [ucast r, ucast (drop_bit 32 r)]) =
      (fl_sum1 ?ws + fl_sum2 ?ws + fl_check1 ?ws) + (fl_sum1 ?ws + fl_check1 ?ws + fl_check2 ?ws)"
    by (simp add: fl_sum2_append 1 2)
  have sum: "m dvd a \<Longrightarrow> m dvd b \<Longrightarrow> (a + b) mod m = 0" for a b m :: nat
    by (metis dvd_add mod_eq_0_iff_dvd)
  show ?thesis unfolding Let_def s1 s2
    using fl_check_sums [of ?ws] by (simp only: mod_eq_0_iff_dvd sum simp_thms)
qed

lemma fletcher64_completes_witness:
  "\<exists>r. fletcher64 [1, 0, 0, 0] 0 4 = Inr r \<and>
     (let ws = words_at [1, 0, 0, 0] 0 1 @ [ucast r, ucast (drop_bit 32 r)]
      in fl_sum1 ws mod fl_mod = 0 \<and> fl_sum2 ws mod fl_mod = 0)"
proof -
  have b: "in_buf [1, 0, 0, 0] 0 (4 * (unat (4 :: u32) div 4))"
    by (simp add: in_buf_def)
  obtain r where r: "fletcher64 [1, 0, 0, 0] 0 4 = Inr r"
    using fletcher64_reference [OF b] by metis
  with fletcher64_completes [OF b r] show ?thesis by auto
qed

text \<open>
  C24. Changing one word of the data changes the checksum, except for the one exchange it
  cannot see, that of \<open>0\<close> and \<open>0xFFFFFFFF\<close>.
\<close>
theorem fletcher64_detects:
  assumes "in_buf mem data (4 * (unat byteCount div 4))"
    and "in_buf mem' data (4 * (unat byteCount div 4))"
    and "i < unat byteCount div 4"
    and "words_at mem' data (unat byteCount div 4) = (words_at mem data (unat byteCount div 4))[i := v]"
  shows "fletcher64 mem' data byteCount = fletcher64 mem data byteCount \<longleftrightarrow>
    words_at mem data (unat byteCount div 4) ! i = v \<or>
    {words_at mem data (unat byteCount div 4) ! i, v} = {0, 0xFFFFFFFF}"
  unfolding fletcher64_eq_iff [OF assms(2,1)] assms(4)
  using assms(3) by (intro fl_reference_update) simp

theorem fletcher64_detects_witness:
  "fletcher64 [1, 0, 0, 0, 7, 0, 0, 0] 0 8 \<noteq> fletcher64 [1, 0, 0, 0, 9, 0, 0, 0] 0 8"
proof -
  have b: "in_buf [1, 0, 0, 0, 9, 0, 0, 0] 0 (4 * (unat (8 :: u32) div 4))"
    "in_buf [1, 0, 0, 0, 7, 0, 0, 0] 0 (4 * (unat (8 :: u32) div 4))"
    by (simp_all add: in_buf_def)
  have w: "words_at [1, 0, 0, 0, 9, 0, 0, 0] 0 (unat (8 :: u32) div 4) = [1, 9]"
    "words_at [1, 0, 0, 0, 7, 0, 0, 0] 0 (unat (8 :: u32) div 4) = [1, 7]"
    by (simp_all add: words_at_def upt_rec)
  have "words_at [1, 0, 0, 0, 7, 0, 0, 0] 0 (unat (8 :: u32) div 4) =
      (words_at [1, 0, 0, 0, 9, 0, 0, 0] 0 (unat (8 :: u32) div 4))[1 := 7]"
    by (simp only: w) simp
  from fletcher64_detects [OF b _ this, unfolded w] show ?thesis by (simp add: doubleton_eq_iff)
qed

text \<open>
  C30. No addition of the loop wraps: after any words, both sums are at most \<open>2 ^ 32\<close>, and
  the two additions of the next step are additions of natural numbers.
\<close>
theorem fletcher_loop_no_wrap:
  "let s = foldl fletcher_step (0, 0) ws
   in unat (fst s) \<le> 2 ^ 32 \<and> unat (snd s) \<le> 2 ^ 32 \<and>
      unat (fst s + ucast w) = unat (fst s) + unat w \<and>
      unat (snd s + fst (fletcher_step s w)) = unat (snd s) + unat (fst (fletcher_step s w))"
proof -
  let ?s = "foldl fletcher_step (0, 0) ws"
  have s: "fl_bounded ?s" by (rule fl_bounded_loop [OF fl_bounded_start])
  have t: "fl_bounded (fletcher_step ?s w)" by (rule fl_bounded_step [OF s])
  have w: "unat (ucast w :: u64) = unat w"
    by (simp add: unsigned_ucast_eq take_bit_nat_eq_self_iff order.strict_trans [OF unat_u32_bound])
  have "unat (fst ?s + ucast w) = unat (fst ?s) + unat w"
    using s unat_u32_bound [of w] by (subst unat_word_ariths, simp add: w fl_bounded_def)
  moreover have "unat (snd ?s + fst (fletcher_step ?s w)) = unat (snd ?s) + unat (fst (fletcher_step ?s w))"
    using s t by (subst unat_word_ariths, simp add: fl_bounded_def)
  ultimately show ?thesis using s by (simp add: Let_def fl_bounded_def)
qed

end
