(* ===== verification/APFS_Types.thy ===== *)
theory APFS_Types
  imports Byte_Memory
begin

text \<open>
  The types of \<open>include/apfs.h\<close> as layouts: a structure is the list of its fields, in the order
  of the header, with their types. The header is compiled under \<open>#pragma pack(1)\<close>, so a field
  starts where the field before it ends; the size of a structure and the offset of a field are
  computed from the layout by that rule. A flexible or zero-length array member takes no space.
  The rule a compiler would follow without the pragma is defined beside it. The theories
  \<open>APFS_Objects\<close> to \<open>APFS_Crypto\<close> follow the sections of the header and give every structure and
  constant of it, with the names they have there; \<open>APFS_Format\<close> states what the scanner uses of
  them. A \<open>constexpr int\<close> (none is negative) is a \<open>nat\<close>, as it serves for counts and shifts; the
  other constants have the width the header gives them, and an enumerator has the width of
  the field it is stored in or compared with.
\<close>

section \<open>C types and the packed layout rule\<close>

datatype ctype =
    U8 | U16 | U32 | U64 | I32
  | Array ctype nat
  | Struct "(string \<times> ctype) list"
  | Union "(string \<times> ctype) list"

fun sizeof :: "ctype \<Rightarrow> nat" and sum_sizes :: "(string \<times> ctype) list \<Rightarrow> nat"
  and max_sizes :: "(string \<times> ctype) list \<Rightarrow> nat" where
  "sizeof U8 = 1"
| "sizeof U16 = 2"
| "sizeof U32 = 4"
| "sizeof U64 = 8"
| "sizeof I32 = 4"
| "sizeof (Array t n) = n * sizeof t"
| "sizeof (Struct fs) = sum_sizes fs"
| "sizeof (Union fs) = max_sizes fs"
| "sum_sizes [] = 0"
| "sum_sizes ((f, t) # fs) = sizeof t + sum_sizes fs"
| "max_sizes [] = 0"
| "max_sizes ((f, t) # fs) = max (sizeof t) (max_sizes fs)"

fun struct_fields :: "ctype \<Rightarrow> (string \<times> ctype) list" where
  "struct_fields (Struct fs) = fs"
| "struct_fields _ = []"

fun field_offset :: "(string \<times> ctype) list \<Rightarrow> string \<Rightarrow> nat option" where
  "field_offset [] x = None"
| "field_offset ((f, t) # fs) x =
     (if f = x then Some 0 else map_option ((+) (sizeof t)) (field_offset fs x))"

text \<open>The offset of a field as pointer arithmetic; it is only used at fields that exist
  (\<open>field_at_values\<close> in \<open>APFS_Format\<close>).\<close>

definition field_at :: "ctype \<Rightarrow> string \<Rightarrow> int" where
  "field_at t f = int (the (field_offset (struct_fields t) f))"

section \<open>The rule without the pragma\<close>

text \<open>
  Every type has an alignment, a field starts at the next multiple of its alignment, and the size
  of a structure is rounded up to its own.
\<close>

fun align_of :: "ctype \<Rightarrow> nat" and max_align :: "(string \<times> ctype) list \<Rightarrow> nat" where
  "align_of U8 = 1"
| "align_of U16 = 2"
| "align_of U32 = 4"
| "align_of U64 = 8"
| "align_of I32 = 4"
| "align_of (Array t n) = align_of t"
| "align_of (Struct fs) = max_align fs"
| "align_of (Union fs) = max_align fs"
| "max_align [] = 1"
| "max_align ((f, t) # fs) = max (align_of t) (max_align fs)"

definition round_up :: "nat \<Rightarrow> nat \<Rightarrow> nat" where
  "round_up a n = (if n mod a = 0 then n else (n div a + 1) * a)"

fun natural_size :: "ctype \<Rightarrow> nat" and natural_end :: "nat \<Rightarrow> (string \<times> ctype) list \<Rightarrow> nat"
  and natural_max :: "(string \<times> ctype) list \<Rightarrow> nat" where
  "natural_size U8 = 1"
| "natural_size U16 = 2"
| "natural_size U32 = 4"
| "natural_size U64 = 8"
| "natural_size I32 = 4"
| "natural_size (Array t n) = n * natural_size t"
| "natural_size (Struct fs) = round_up (max_align fs) (natural_end 0 fs)"
| "natural_size (Union fs) = round_up (max_align fs) (natural_max fs)"
| "natural_end pos [] = pos"
| "natural_end pos ((f, t) # fs) = natural_end (round_up (align_of t) pos + natural_size t) fs"
| "natural_max [] = 0"
| "natural_max ((f, t) # fs) = max (natural_size t) (natural_max fs)"

fun natural_offsets :: "nat \<Rightarrow> (string \<times> ctype) list \<Rightarrow> nat list" where
  "natural_offsets pos [] = []"
| "natural_offsets pos ((f, t) # fs) =
     round_up (align_of t) pos # natural_offsets (round_up (align_of t) pos + natural_size t) fs"

fun packed_offsets :: "nat \<Rightarrow> (string \<times> ctype) list \<Rightarrow> nat list" where
  "packed_offsets pos [] = []"
| "packed_offsets pos ((f, t) # fs) = pos # packed_offsets (pos + sizeof t) fs"

text \<open>Rules that would turn small sizes into successors.\<close>

lemmas suc_rules = One_nat_def add_2_eq_Suc add_2_eq_Suc'

section \<open>Well-formed structures\<close>

text \<open>
  The fields have different names, and an array without a length stands only at the end.
\<close>

fun has_flexible :: "ctype \<Rightarrow> bool" and last_flexible :: "(string \<times> ctype) list \<Rightarrow> bool" where
  "has_flexible (Array t n) = (n = 0)"
| "has_flexible (Struct fs) = last_flexible fs"
| "has_flexible _ = False"
| "last_flexible [] = False"
| "last_flexible ((f, t) # fs) = (if fs = [] then has_flexible t else last_flexible fs)"

fun flexible_last :: "(string \<times> ctype) list \<Rightarrow> bool" where
  "flexible_last [] = True"
| "flexible_last ((f, t) # fs) = ((fs = [] \<or> \<not> has_flexible t) \<and> flexible_last fs)"

definition wf_struct :: "ctype \<Rightarrow> bool" where
  "wf_struct t \<longleftrightarrow> distinct (map fst (struct_fields t)) \<and> flexible_last (struct_fields t)"

section \<open>Integer types of the header\<close>

text \<open>
  \<open>APFS_LITTLE_ENDIAN\<close> is defined in \<open>include/endian.h\<close>: the little-endian types are the native
  ones. \<open>Byte_Order\<close> models both settings.
\<close>

definition le_uint16_t :: ctype where "le_uint16_t = U16"
definition le_uint32_t :: ctype where "le_uint32_t = U32"
definition le_uint64_t :: ctype where "le_uint64_t = U64"
definition le_int32_t :: ctype where "le_int32_t = I32"

definition apfs_uuid_t :: ctype where "apfs_uuid_t = Array U8 16"
definition paddr_t :: ctype where "paddr_t = U64"
definition oid_t :: ctype where "oid_t = U64"
definition xid_t :: ctype where "xid_t = U64"
definition le_paddr_t :: ctype where "le_paddr_t = le_uint64_t"
definition le_oid_t :: ctype where "le_oid_t = le_uint64_t"
definition le_xid_t :: ctype where "le_xid_t = le_uint64_t"

definition prange_t :: ctype where
  "prange_t = Struct
     [(''pr_start_addr'', le_paddr_t),
      (''pr_block_count'', le_uint64_t)]"

definition crypto_flags_t :: ctype where "crypto_flags_t = U32"
definition cp_key_class_t :: ctype where "cp_key_class_t = U32"
definition cp_key_os_version_t :: ctype where "cp_key_os_version_t = U32"
definition cp_key_revision_t :: ctype where "cp_key_revision_t = U16"
definition le_crypto_flags_t :: ctype where "le_crypto_flags_t = le_uint32_t"
definition le_cp_key_class_t :: ctype where "le_cp_key_class_t = le_uint32_t"
definition le_cp_key_os_version_t :: ctype where "le_cp_key_os_version_t = le_uint32_t"
definition le_cp_key_revision_t :: ctype where "le_cp_key_revision_t = le_uint16_t"

definition wrapped_crypto_state_t :: ctype where
  "wrapped_crypto_state_t = Struct
     [(''major_version'', le_uint16_t),
      (''minor_version'', le_uint16_t),
      (''cpflags'', le_crypto_flags_t),
      (''persistent_class'', le_cp_key_class_t),
      (''key_os_version'', le_cp_key_os_version_t),
      (''key_revision'', le_cp_key_revision_t),
      (''key_len'', le_uint16_t),
      (''persistent_key'', Array U8 0)]"

definition wrapped_meta_crypto_state_t :: ctype where
  "wrapped_meta_crypto_state_t = Struct
     [(''major_version'', le_uint16_t),
      (''minor_version'', le_uint16_t),
      (''cpflags'', le_crypto_flags_t),
      (''persistent_class'', le_cp_key_class_t),
      (''key_os_version'', le_cp_key_os_version_t),
      (''key_revision'', le_cp_key_revision_t),
      (''unused'', le_uint16_t)]"

section \<open>Summary\<close>

lemmas types_layouts =
  le_uint16_t_def le_uint32_t_def le_uint64_t_def le_int32_t_def apfs_uuid_t_def paddr_t_def
  oid_t_def xid_t_def le_paddr_t_def le_oid_t_def le_xid_t_def prange_t_def crypto_flags_t_def
  cp_key_class_t_def cp_key_os_version_t_def cp_key_revision_t_def le_crypto_flags_t_def
  le_cp_key_class_t_def le_cp_key_os_version_t_def le_cp_key_revision_t_def
  wrapped_crypto_state_t_def wrapped_meta_crypto_state_t_def

definition types_structs :: "(string \<times> ctype) list" where
  "types_structs =
    [(''prange_t'', prange_t),
     (''wrapped_crypto_state_t'', wrapped_crypto_state_t),
     (''wrapped_meta_crypto_state_t'', wrapped_meta_crypto_state_t)]"

lemmas types_names =
  le_uint16_t_def le_uint32_t_def le_uint64_t_def le_int32_t_def apfs_uuid_t_def paddr_t_def
  oid_t_def xid_t_def le_paddr_t_def le_oid_t_def le_xid_t_def crypto_flags_t_def
  cp_key_class_t_def cp_key_os_version_t_def cp_key_revision_t_def le_crypto_flags_t_def
  le_cp_key_class_t_def le_cp_key_os_version_t_def le_cp_key_revision_t_def

section \<open>Sizes\<close>

lemma prange_t_size [simp]:
  "sizeof prange_t = 16" "align_of prange_t = 8" "natural_size prange_t = 16"
  "natural_offsets 0 (struct_fields prange_t) = packed_offsets 0 (struct_fields prange_t)"
  by (simp_all add: prange_t_def types_names round_up_def del: suc_rules)

lemma wrapped_crypto_state_t_size [simp]:
  "sizeof wrapped_crypto_state_t = 20" "align_of wrapped_crypto_state_t = 4" "natural_size wrapped_crypto_state_t = 20"
  "natural_offsets 0 (struct_fields wrapped_crypto_state_t) = packed_offsets 0 (struct_fields wrapped_crypto_state_t)"
  by (simp_all add: wrapped_crypto_state_t_def types_names round_up_def del: suc_rules)

lemma wrapped_meta_crypto_state_t_size [simp]:
  "sizeof wrapped_meta_crypto_state_t = 20" "align_of wrapped_meta_crypto_state_t = 4" "natural_size wrapped_meta_crypto_state_t = 20"
  "natural_offsets 0 (struct_fields wrapped_meta_crypto_state_t) = packed_offsets 0 (struct_fields wrapped_meta_crypto_state_t)"
  by (simp_all add: wrapped_meta_crypto_state_t_def types_names round_up_def del: suc_rules)

end
