(* ===== verification/APFS_Objects.thy ===== *)
theory APFS_Objects
  imports APFS_Types
begin

text \<open>
  Objects and the container: object header and types, the container superblock and the
  checkpoint maps.
\<close>

section \<open>Object header and types\<close>

definition MAX_CKSUM_SIZE :: u64 where "MAX_CKSUM_SIZE = 8"

definition obj_phys_t :: ctype where
  "obj_phys_t = Struct
     [(''o_cksum'', U64),
      (''o_oid'', le_oid_t),
      (''o_xid'', le_xid_t),
      (''o_type'', le_uint32_t),
      (''o_subtype'', le_uint32_t)]"

definition OID_NX_SUPERBLOCK :: u64 where "OID_NX_SUPERBLOCK = 1"
definition OID_INVALID :: u64 where "OID_INVALID = 0"
definition OID_RESERVED_COUNT :: u64 where "OID_RESERVED_COUNT = 1024"
definition OBJECT_TYPE_MASK :: u32 where "OBJECT_TYPE_MASK = 0x0000FFFF"
definition OBJECT_TYPE_FLAGS_MASK :: u32 where "OBJECT_TYPE_FLAGS_MASK = 0xFFFF0000"
definition OBJECT_TYPE_FLAGS_DEFINED_MASK :: u32 where "OBJECT_TYPE_FLAGS_DEFINED_MASK = 0xF8000000"
definition OBJECT_TYPE_NX_SUPERBLOCK :: u32 where "OBJECT_TYPE_NX_SUPERBLOCK = 0x00000001"
definition OBJECT_TYPE_BTREE :: u32 where "OBJECT_TYPE_BTREE = 0x00000002"
definition OBJECT_TYPE_BTREE_NODE :: u32 where "OBJECT_TYPE_BTREE_NODE = 0x00000003"
definition OBJECT_TYPE_SPACEMAN :: u32 where "OBJECT_TYPE_SPACEMAN = 0x00000005"
definition OBJECT_TYPE_SPACEMAN_CAB :: u32 where "OBJECT_TYPE_SPACEMAN_CAB = 0x00000006"
definition OBJECT_TYPE_SPACEMAN_CIB :: u32 where "OBJECT_TYPE_SPACEMAN_CIB = 0x00000007"
definition OBJECT_TYPE_SPACEMAN_BITMAP :: u32 where "OBJECT_TYPE_SPACEMAN_BITMAP = 0x00000008"
definition OBJECT_TYPE_SPACEMAN_FREE_QUEUE :: u32 where
  "OBJECT_TYPE_SPACEMAN_FREE_QUEUE =
     0x00000009"
definition OBJECT_TYPE_EXTENT_LIST_TREE :: u32 where "OBJECT_TYPE_EXTENT_LIST_TREE = 0x0000000A"
definition OBJECT_TYPE_OMAP :: u32 where "OBJECT_TYPE_OMAP = 0x0000000B"
definition OBJECT_TYPE_CHECKPOINT_MAP :: u32 where "OBJECT_TYPE_CHECKPOINT_MAP = 0x0000000C"
definition OBJECT_TYPE_FS :: u32 where "OBJECT_TYPE_FS = 0x0000000D"
definition OBJECT_TYPE_FSTREE :: u32 where "OBJECT_TYPE_FSTREE = 0x0000000E"
definition OBJECT_TYPE_BLOCKREFTREE :: u32 where "OBJECT_TYPE_BLOCKREFTREE = 0x0000000F"
definition OBJECT_TYPE_SNAPMETATREE :: u32 where "OBJECT_TYPE_SNAPMETATREE = 0x00000010"
definition OBJECT_TYPE_NX_REAPER :: u32 where "OBJECT_TYPE_NX_REAPER = 0x00000011"
definition OBJECT_TYPE_NX_REAP_LIST :: u32 where "OBJECT_TYPE_NX_REAP_LIST = 0x00000012"
definition OBJECT_TYPE_OMAP_SNAPSHOT :: u32 where "OBJECT_TYPE_OMAP_SNAPSHOT = 0x00000013"
definition OBJECT_TYPE_EFI_JUMPSTART :: u32 where "OBJECT_TYPE_EFI_JUMPSTART = 0x00000014"
definition OBJECT_TYPE_FUSION_MIDDLE_TREE :: u32 where "OBJECT_TYPE_FUSION_MIDDLE_TREE = 0x00000015"
definition OBJECT_TYPE_NX_FUSION_WBC :: u32 where "OBJECT_TYPE_NX_FUSION_WBC = 0x00000016"
definition OBJECT_TYPE_NX_FUSION_WBC_LIST :: u32 where "OBJECT_TYPE_NX_FUSION_WBC_LIST = 0x00000017"
definition OBJECT_TYPE_ER_STATE :: u32 where "OBJECT_TYPE_ER_STATE = 0x00000018"
definition OBJECT_TYPE_GBITMAP :: u32 where "OBJECT_TYPE_GBITMAP = 0x00000019"
definition OBJECT_TYPE_GBITMAP_TREE :: u32 where "OBJECT_TYPE_GBITMAP_TREE = 0x0000001A"
definition OBJECT_TYPE_GBITMAP_BLOCK :: u32 where "OBJECT_TYPE_GBITMAP_BLOCK = 0x0000001B"
definition OBJECT_TYPE_ER_RECOVERY_BLOCK :: u32 where "OBJECT_TYPE_ER_RECOVERY_BLOCK = 0x0000001C"
definition OBJECT_TYPE_SNAP_META_EXT :: u32 where "OBJECT_TYPE_SNAP_META_EXT = 0x0000001D"
definition OBJECT_TYPE_INTEGRITY_META :: u32 where "OBJECT_TYPE_INTEGRITY_META = 0x0000001E"
definition OBJECT_TYPE_FEXT_TREE :: u32 where "OBJECT_TYPE_FEXT_TREE = 0x0000001F"
definition OBJECT_TYPE_RESERVED_20 :: u32 where "OBJECT_TYPE_RESERVED_20 = 0x00000020"
definition OBJECT_TYPE_INVALID :: u32 where "OBJECT_TYPE_INVALID = 0"
definition OBJECT_TYPE_TEST :: u32 where "OBJECT_TYPE_TEST = 0x000000FF"
definition OBJECT_TYPE_CONTAINER_KEYBAG :: u32 where "OBJECT_TYPE_CONTAINER_KEYBAG = 0x7379656B"
definition OBJECT_TYPE_VOLUME_KEYBAG :: u32 where "OBJECT_TYPE_VOLUME_KEYBAG = 0x73636572"
definition OBJECT_TYPE_MEDIA_KEYBAG :: u32 where "OBJECT_TYPE_MEDIA_KEYBAG = 0x79656B6D"
definition OBJ_STORAGETYPE_MASK :: u32 where "OBJ_STORAGETYPE_MASK = 0xC0000000"
definition OBJ_VIRTUAL :: u32 where "OBJ_VIRTUAL = 0x00000000"
definition OBJ_PHYSICAL :: u32 where "OBJ_PHYSICAL = 0x40000000"
definition OBJ_EPHEMERAL :: u32 where "OBJ_EPHEMERAL = 0x80000000"
definition OBJ_NOHEADER :: u32 where "OBJ_NOHEADER = 0x20000000"
definition OBJ_ENCRYPTED :: u32 where "OBJ_ENCRYPTED = 0x10000000"
definition OBJ_NONPERSISTENT :: u32 where "OBJ_NONPERSISTENT = 0x08000000"

section \<open>Container\<close>

definition NX_EFI_JUMPSTART_MAGIC :: u32 where "NX_EFI_JUMPSTART_MAGIC = 0x5244534A"
definition NX_EFI_JUMPSTART_VERSION :: u32 where "NX_EFI_JUMPSTART_VERSION = 1"

definition nx_efi_jumpstart_t :: ctype where
  "nx_efi_jumpstart_t = Struct
     [(''nej_o'', obj_phys_t),
      (''nej_magic'', le_uint32_t),
      (''nej_version'', le_uint32_t),
      (''nej_efi_file_len'', le_uint32_t),
      (''nej_num_extents'', le_uint32_t),
      (''nej_reserved'', Array U64 16),
      (''nej_rec_extents'', Array prange_t 0)]"

definition NX_MAGIC :: u32 where "NX_MAGIC = 0x4253584E"
definition NX_MAX_FILE_SYSTEMS :: nat where "NX_MAX_FILE_SYSTEMS = 100"
definition NX_EPH_INFO_COUNT :: nat where "NX_EPH_INFO_COUNT = 4"
definition NX_EPH_MIN_BLOCK_COUNT :: nat where "NX_EPH_MIN_BLOCK_COUNT = 8"
definition NX_MAX_FILE_SYSTEM_EPH_STRUCTS :: nat where "NX_MAX_FILE_SYSTEM_EPH_STRUCTS = 4"
definition NX_TX_MIN_CHECKPOINT_COUNT :: nat where "NX_TX_MIN_CHECKPOINT_COUNT = 4"
definition NX_EPH_INFO_VERSION_1 :: nat where "NX_EPH_INFO_VERSION_1 = 1"
definition NX_RESERVED_1 :: u64 where "NX_RESERVED_1 = 1"
definition NX_RESERVED_2 :: u64 where "NX_RESERVED_2 = 2"
definition NX_CRYPTO_SW :: u64 where "NX_CRYPTO_SW = 4"
definition NX_FEATURE_DEFRAG :: u64 where "NX_FEATURE_DEFRAG = 1"
definition NX_FEATURE_LCFD :: u64 where "NX_FEATURE_LCFD = 2"
definition NX_SUPPORTED_FEATURES_MASK :: u64 where
  "NX_SUPPORTED_FEATURES_MASK =
     NX_FEATURE_DEFRAG OR NX_FEATURE_LCFD"
definition NX_SUPPORTED_ROCOMPAT_MASK :: u64 where "NX_SUPPORTED_ROCOMPAT_MASK = 0"
definition NX_INCOMPAT_VERSION1 :: u64 where "NX_INCOMPAT_VERSION1 = 1"
definition NX_INCOMPAT_VERSION2 :: u64 where "NX_INCOMPAT_VERSION2 = 2"
definition NX_INCOMPAT_FUSION :: u64 where "NX_INCOMPAT_FUSION = 0x100"
definition NX_SUPPORTED_INCOMPAT_MASK :: u64 where
  "NX_SUPPORTED_INCOMPAT_MASK =
     NX_INCOMPAT_VERSION2 OR NX_INCOMPAT_FUSION"
definition NX_MINIMUM_BLOCK_SIZE :: nat where "NX_MINIMUM_BLOCK_SIZE = 4096"
definition NX_DEFAULT_BLOCK_SIZE :: nat where "NX_DEFAULT_BLOCK_SIZE = 4096"
definition NX_MAXIMUM_BLOCK_SIZE :: nat where "NX_MAXIMUM_BLOCK_SIZE = 65536"
definition NX_MINIMUM_CONTAINER_SIZE :: u64 where "NX_MINIMUM_CONTAINER_SIZE = 1048576"

definition NX_CNTR_OBJ_CKSUM_SET :: nat where "NX_CNTR_OBJ_CKSUM_SET = 0"
definition NX_CNTR_OBJ_CKSUM_FAIL :: nat where "NX_CNTR_OBJ_CKSUM_FAIL = 1"
definition NX_NUM_COUNTERS :: nat where "NX_NUM_COUNTERS = 32"

definition nx_superblock_t :: ctype where
  "nx_superblock_t = Struct
     [(''nx_o'', obj_phys_t),
      (''nx_magic'', le_uint32_t),
      (''nx_block_size'', le_uint32_t),
      (''nx_block_count'', le_uint64_t),
      (''nx_features'', le_uint64_t),
      (''nx_readonly_compatible_features'', le_uint64_t),
      (''nx_incompatible_features'', le_uint64_t),
      (''nx_uuid'', apfs_uuid_t),
      (''nx_next_oid'', le_oid_t),
      (''nx_next_xid'', le_xid_t),
      (''nx_xp_desc_blocks'', le_uint32_t),
      (''nx_xp_data_blocks'', le_uint32_t),
      (''nx_xp_desc_base'', le_paddr_t),
      (''nx_xp_data_base'', le_paddr_t),
      (''nx_xp_desc_next'', le_uint32_t),
      (''nx_xp_data_next'', le_uint32_t),
      (''nx_xp_desc_index'', le_uint32_t),
      (''nx_xp_desc_len'', le_uint32_t),
      (''nx_xp_data_index'', le_uint32_t),
      (''nx_xp_data_len'', le_uint32_t),
      (''nx_spaceman_oid'', le_oid_t),
      (''nx_omap_oid'', le_oid_t),
      (''nx_reaper_oid'', le_oid_t),
      (''nx_test_type'', le_uint32_t),
      (''nx_max_file_systems'', le_uint32_t),
      (''nx_fs_oid'', Array le_oid_t NX_MAX_FILE_SYSTEMS),
      (''nx_counters'', Array le_uint64_t NX_NUM_COUNTERS),
      (''nx_blocked_out_prange'', prange_t),
      (''nx_evict_mapping_tree_oid'', le_oid_t),
      (''nx_flags'', le_uint64_t),
      (''nx_efi_jumpstart'', le_paddr_t),
      (''nx_fusion_uuid'', apfs_uuid_t),
      (''nx_keylocker'', prange_t),
      (''nx_ephemeral_info'', Array le_uint64_t NX_EPH_INFO_COUNT),
      (''nx_test_oid'', le_oid_t),
      (''nx_fusion_mt_oid'', le_oid_t),
      (''nx_fusion_wbc_oid'', le_oid_t),
      (''nx_fusion_wbc'', prange_t),
      (''nx_newest_mounted_version'', le_uint64_t),
      (''nx_mkb_locker'', prange_t)]"

section \<open>Checkpoint maps\<close>

definition CHECKPOINT_MAP_LAST :: u32 where "CHECKPOINT_MAP_LAST = 0x00000001"

definition checkpoint_mapping_t :: ctype where
  "checkpoint_mapping_t = Struct
     [(''cpm_type'', le_uint32_t),
      (''cpm_subtype'', le_uint32_t),
      (''cpm_size'', le_uint32_t),
      (''cpm_pad'', le_uint32_t),
      (''cpm_fs_oid'', le_oid_t),
      (''cpm_oid'', le_oid_t),
      (''cpm_paddr'', le_oid_t)]"

definition checkpoint_map_phys_t :: ctype where
  "checkpoint_map_phys_t = Struct
     [(''cpm_o'', obj_phys_t),
      (''cpm_flags'', le_uint32_t),
      (''cpm_count'', le_uint32_t),
      (''cpm_map'', Array checkpoint_mapping_t 0)]"

definition evict_mapping_val_t :: ctype where
  "evict_mapping_val_t = Struct
     [(''dst_paddr'', le_paddr_t),
      (''len'', le_uint64_t)]"

section \<open>Summary\<close>

lemmas objects_layouts =
  obj_phys_t_def nx_efi_jumpstart_t_def nx_superblock_t_def checkpoint_mapping_t_def
  checkpoint_map_phys_t_def evict_mapping_val_t_def
  MAX_CKSUM_SIZE_def NX_EPH_INFO_COUNT_def NX_MAX_FILE_SYSTEMS_def NX_NUM_COUNTERS_def

definition objects_structs :: "(string \<times> ctype) list" where
  "objects_structs =
    [(''obj_phys_t'', obj_phys_t),
     (''nx_efi_jumpstart_t'', nx_efi_jumpstart_t),
     (''nx_superblock_t'', nx_superblock_t),
     (''checkpoint_mapping_t'', checkpoint_mapping_t),
     (''checkpoint_map_phys_t'', checkpoint_map_phys_t),
     (''evict_mapping_val_t'', evict_mapping_val_t)]"

lemmas objects_names =
  types_names MAX_CKSUM_SIZE_def NX_EPH_INFO_COUNT_def NX_MAX_FILE_SYSTEMS_def
  NX_NUM_COUNTERS_def

section \<open>Sizes\<close>

lemma obj_phys_t_size [simp]:
  "sizeof obj_phys_t = 32" "align_of obj_phys_t = 8" "natural_size obj_phys_t = 32"
  "natural_offsets 0 (struct_fields obj_phys_t) = packed_offsets 0 (struct_fields obj_phys_t)"
  by (simp_all add: obj_phys_t_def objects_names round_up_def del: suc_rules)

lemma nx_efi_jumpstart_t_size [simp]:
  "sizeof nx_efi_jumpstart_t = 176" "align_of nx_efi_jumpstart_t = 8" "natural_size nx_efi_jumpstart_t = 176"
  "natural_offsets 0 (struct_fields nx_efi_jumpstart_t) = packed_offsets 0 (struct_fields nx_efi_jumpstart_t)"
  by (simp_all add: nx_efi_jumpstart_t_def objects_names round_up_def del: suc_rules)

lemma nx_superblock_t_size [simp]:
  "sizeof nx_superblock_t = 1408" "align_of nx_superblock_t = 8" "natural_size nx_superblock_t = 1408"
  "natural_offsets 0 (struct_fields nx_superblock_t) = packed_offsets 0 (struct_fields nx_superblock_t)"
  by (simp_all add: nx_superblock_t_def objects_names round_up_def del: suc_rules)

lemma checkpoint_mapping_t_size [simp]:
  "sizeof checkpoint_mapping_t = 40" "align_of checkpoint_mapping_t = 8" "natural_size checkpoint_mapping_t = 40"
  "natural_offsets 0 (struct_fields checkpoint_mapping_t) = packed_offsets 0 (struct_fields checkpoint_mapping_t)"
  by (simp_all add: checkpoint_mapping_t_def objects_names round_up_def del: suc_rules)

lemma checkpoint_map_phys_t_size [simp]:
  "sizeof checkpoint_map_phys_t = 40" "align_of checkpoint_map_phys_t = 8" "natural_size checkpoint_map_phys_t = 40"
  "natural_offsets 0 (struct_fields checkpoint_map_phys_t) = packed_offsets 0 (struct_fields checkpoint_map_phys_t)"
  by (simp_all add: checkpoint_map_phys_t_def objects_names round_up_def del: suc_rules)

lemma evict_mapping_val_t_size [simp]:
  "sizeof evict_mapping_val_t = 16" "align_of evict_mapping_val_t = 8" "natural_size evict_mapping_val_t = 16"
  "natural_offsets 0 (struct_fields evict_mapping_val_t) = packed_offsets 0 (struct_fields evict_mapping_val_t)"
  by (simp_all add: evict_mapping_val_t_def objects_names round_up_def del: suc_rules)

end
