(* ===== verification/APFS_Volume.thy ===== *)
theory APFS_Volume
  imports APFS_Objects
begin

text \<open>
  Object maps and the volume superblock.
\<close>

section \<open>Object maps\<close>

definition OMAP_VAL_DELETED :: u32 where "OMAP_VAL_DELETED = 0x00000001"
definition OMAP_VAL_SAVED :: u32 where "OMAP_VAL_SAVED = 0x00000002"
definition OMAP_VAL_ENCRYPTED :: u32 where "OMAP_VAL_ENCRYPTED = 0x00000004"
definition OMAP_VAL_NOHEADER :: u32 where "OMAP_VAL_NOHEADER = 0x00000008"
definition OMAP_VAL_CRYPTO_GENERATION :: u32 where "OMAP_VAL_CRYPTO_GENERATION = 0x00000010"
definition OMAP_SNAPSHOT_DELETED :: u32 where "OMAP_SNAPSHOT_DELETED = 0x00000001"
definition OMAP_SNAPSHOT_REVERTED :: u32 where "OMAP_SNAPSHOT_REVERTED = 0x00000002"
definition OMAP_MANUALLY_MANAGED :: u32 where "OMAP_MANUALLY_MANAGED = 0x00000001"
definition OMAP_ENCRYPTING :: u32 where "OMAP_ENCRYPTING = 0x00000002"
definition OMAP_DECRYPTING :: u32 where "OMAP_DECRYPTING = 0x00000004"
definition OMAP_KEYROLLING :: u32 where "OMAP_KEYROLLING = 0x00000008"
definition OMAP_CRYPTO_GENERATION :: u32 where "OMAP_CRYPTO_GENERATION = 0x00000010"
definition OMAP_VALID_FLAGS :: u32 where "OMAP_VALID_FLAGS = 0x0000001F"
definition OMAP_MAX_SNAP_COUNT :: u32 where "OMAP_MAX_SNAP_COUNT = 0xFFFFFFFF"
definition OMAP_REAP_PHASE_MAP_TREE :: nat where "OMAP_REAP_PHASE_MAP_TREE = 1"
definition OMAP_REAP_PHASE_SNAPSHOT_TREE :: nat where "OMAP_REAP_PHASE_SNAPSHOT_TREE = 2"

definition omap_phys_t :: ctype where
  "omap_phys_t = Struct
     [(''om_o'', obj_phys_t),
      (''om_flags'', le_uint32_t),
      (''om_snap_count'', le_uint32_t),
      (''om_tree_type'', le_uint32_t),
      (''om_snapshot_tree_type'', le_uint32_t),
      (''om_tree_oid'', le_oid_t),
      (''om_snapshot_tree_oid'', le_oid_t),
      (''om_most_recent_snap'', le_xid_t),
      (''om_pending_revert_min'', le_xid_t),
      (''om_pending_revert_max'', le_xid_t)]"

definition omap_key_t :: ctype where
  "omap_key_t = Struct
     [(''ok_oid'', le_oid_t),
      (''ok_xid'', le_oid_t)]"

definition omap_val_t :: ctype where
  "omap_val_t = Struct
     [(''ov_flags'', le_uint32_t),
      (''ov_size'', le_uint32_t),
      (''ov_paddr'', le_paddr_t)]"

definition omap_snapshot_t :: ctype where
  "omap_snapshot_t = Struct
     [(''oms_flags'', le_uint32_t),
      (''oms_pad'', le_uint32_t),
      (''oms_oid'', le_oid_t)]"

section \<open>Volume\<close>

definition APFS_MAGIC :: u32 where "APFS_MAGIC = 0x42535041"
definition APFS_MAX_HIST :: nat where "APFS_MAX_HIST = 8"
definition APFS_VOLNAME_LEN :: nat where "APFS_VOLNAME_LEN = 256"
definition APFS_FS_UNENCRYPTED :: u64 where "APFS_FS_UNENCRYPTED = 0x01"
definition APFS_FS_RESERVED_2 :: u64 where "APFS_FS_RESERVED_2 = 0x02"
definition APFS_FS_RESERVED_4 :: u64 where "APFS_FS_RESERVED_4 = 0x04"
definition APFS_FS_ONEKEY :: u64 where "APFS_FS_ONEKEY = 0x08"
definition APFS_FS_SPILLEDOVER :: u64 where "APFS_FS_SPILLEDOVER = 0x10"
definition APFS_FS_RUN_SPILLOVER_CLEANER :: u64 where "APFS_FS_RUN_SPILLOVER_CLEANER = 0x20"
definition APFS_FS_ALWAYS_CHECK_EXTENTREF :: u64 where "APFS_FS_ALWAYS_CHECK_EXTENTREF = 0x40"
definition APFS_FS_RESERVED_80 :: u64 where "APFS_FS_RESERVED_80 = 0x80"
definition APFS_FS_RESERVED_100 :: u64 where "APFS_FS_RESERVED_100 = 0x100"
definition APFS_FS_FLAGS_VALID_MASK :: u64 where
  "APFS_FS_FLAGS_VALID_MASK =
     APFS_FS_UNENCRYPTED OR APFS_FS_RESERVED_2 OR APFS_FS_RESERVED_4 OR APFS_FS_ONEKEY OR
     APFS_FS_SPILLEDOVER OR APFS_FS_RUN_SPILLOVER_CLEANER OR APFS_FS_ALWAYS_CHECK_EXTENTREF OR
     APFS_FS_RESERVED_80 OR APFS_FS_RESERVED_100"
definition APFS_FS_CRYPTOFLAGS :: u64 where
  "APFS_FS_CRYPTOFLAGS =
     APFS_FS_UNENCRYPTED OR APFS_FS_ONEKEY"
definition APFS_VOLUME_ENUM_SHIFT :: nat where "APFS_VOLUME_ENUM_SHIFT = 6"
definition APFS_VOL_ROLE_NONE :: u16 where "APFS_VOL_ROLE_NONE = 0x0000"
definition APFS_VOL_ROLE_SYSTEM :: u16 where "APFS_VOL_ROLE_SYSTEM = 0x0001"
definition APFS_VOL_ROLE_USER :: u16 where "APFS_VOL_ROLE_USER = 0x0002"
definition APFS_VOL_ROLE_RECOVERY :: u16 where "APFS_VOL_ROLE_RECOVERY = 0x0004"
definition APFS_VOL_ROLE_VM :: u16 where "APFS_VOL_ROLE_VM = 0x0008"
definition APFS_VOL_ROLE_PREBOOT :: u16 where "APFS_VOL_ROLE_PREBOOT = 0x0010"
definition APFS_VOL_ROLE_INSTALLER :: u16 where "APFS_VOL_ROLE_INSTALLER = 0x0020"
definition APFS_VOL_ROLE_DATA :: u16 where "APFS_VOL_ROLE_DATA = push_bit APFS_VOLUME_ENUM_SHIFT 1"
definition APFS_VOL_ROLE_BASEBAND :: u16 where
  "APFS_VOL_ROLE_BASEBAND =
     push_bit APFS_VOLUME_ENUM_SHIFT 2"
definition APFS_VOL_ROLE_UPDATE :: u16 where
  "APFS_VOL_ROLE_UPDATE =
     push_bit APFS_VOLUME_ENUM_SHIFT 3"
definition APFS_VOL_ROLE_XART :: u16 where "APFS_VOL_ROLE_XART = push_bit APFS_VOLUME_ENUM_SHIFT 4"
definition APFS_VOL_ROLE_HARDWARE :: u16 where
  "APFS_VOL_ROLE_HARDWARE =
     push_bit APFS_VOLUME_ENUM_SHIFT 5"
definition APFS_VOL_ROLE_BACKUP :: u16 where
  "APFS_VOL_ROLE_BACKUP =
     push_bit APFS_VOLUME_ENUM_SHIFT 6"
definition APFS_VOL_ROLE_RESERVED_7 :: u16 where
  "APFS_VOL_ROLE_RESERVED_7 =
     push_bit APFS_VOLUME_ENUM_SHIFT 7"
definition APFS_VOL_ROLE_RESERVED_8 :: u16 where
  "APFS_VOL_ROLE_RESERVED_8 =
     push_bit APFS_VOLUME_ENUM_SHIFT 8"
definition APFS_VOL_ROLE_ENTERPRISE :: u16 where
  "APFS_VOL_ROLE_ENTERPRISE =
     push_bit APFS_VOLUME_ENUM_SHIFT 9"
definition APFS_VOL_ROLE_RESERVED_10 :: u16 where
  "APFS_VOL_ROLE_RESERVED_10 =
     push_bit APFS_VOLUME_ENUM_SHIFT 10"
definition APFS_VOL_ROLE_PRELOGIN :: u16 where
  "APFS_VOL_ROLE_PRELOGIN =
     push_bit APFS_VOLUME_ENUM_SHIFT 11"
definition APFS_VOL_ROLE_RESERVED_200 :: u16 where "APFS_VOL_ROLE_RESERVED_200 = 0x0200"
definition APFS_FEATURE_DEFRAG_PRERELEASE :: u64 where "APFS_FEATURE_DEFRAG_PRERELEASE = 1"
definition APFS_FEATURE_HARDLINK_MAP_RECORDS :: u64 where "APFS_FEATURE_HARDLINK_MAP_RECORDS = 2"
definition APFS_FEATURE_DEFRAG :: u64 where "APFS_FEATURE_DEFRAG = 4"
definition APFS_FEATURE_STRICTATIME :: u64 where "APFS_FEATURE_STRICTATIME = 8"
definition APFS_FEATURE_VOLGRP_SYSTEM_INO_SPACE :: u64 where
  "APFS_FEATURE_VOLGRP_SYSTEM_INO_SPACE =
     0x10"
definition APFS_SUPPORTED_FEATURES_MASK :: u64 where
  "APFS_SUPPORTED_FEATURES_MASK =
     APFS_FEATURE_DEFRAG OR APFS_FEATURE_DEFRAG_PRERELEASE OR APFS_FEATURE_HARDLINK_MAP_RECORDS
     OR APFS_FEATURE_STRICTATIME OR APFS_FEATURE_VOLGRP_SYSTEM_INO_SPACE"
definition APFS_SUPPORTED_ROCOMPAT_MASK :: u64 where "APFS_SUPPORTED_ROCOMPAT_MASK = 0"
definition APFS_INCOMPAT_CASE_INSENSITIVE :: u64 where "APFS_INCOMPAT_CASE_INSENSITIVE = 1"
definition APFS_INCOMPAT_DATALESS_SNAPS :: u64 where "APFS_INCOMPAT_DATALESS_SNAPS = 2"
definition APFS_INCOMPAT_ENC_ROLLED :: u64 where "APFS_INCOMPAT_ENC_ROLLED = 4"
definition APFS_INCOMPAT_NORMALIZATION_INSENSITIVE :: u64 where
  "APFS_INCOMPAT_NORMALIZATION_INSENSITIVE =
     8"
definition APFS_INCOMPAT_INCOMPLETE_RESTORE :: u64 where "APFS_INCOMPAT_INCOMPLETE_RESTORE = 0x10"
definition APFS_INCOMPAT_SEALED_VOLUME :: u64 where "APFS_INCOMPAT_SEALED_VOLUME = 0x20"
definition APFS_INCOMPAT_RESERVED_40 :: u64 where "APFS_INCOMPAT_RESERVED_40 = 0x40"
definition APFS_SUPPORTED_INCOMPAT_MASK :: u64 where
  "APFS_SUPPORTED_INCOMPAT_MASK =
     APFS_INCOMPAT_CASE_INSENSITIVE OR APFS_INCOMPAT_DATALESS_SNAPS OR APFS_INCOMPAT_ENC_ROLLED
     OR APFS_INCOMPAT_NORMALIZATION_INSENSITIVE OR APFS_INCOMPAT_INCOMPLETE_RESTORE OR
     APFS_INCOMPAT_SEALED_VOLUME OR APFS_INCOMPAT_RESERVED_40"
definition APFS_MODIFIED_NAMELEN :: nat where "APFS_MODIFIED_NAMELEN = 32"

definition apfs_modified_by_t :: ctype where
  "apfs_modified_by_t = Struct
     [(''id'', Array U8 APFS_MODIFIED_NAMELEN),
      (''timestamp'', le_uint64_t),
      (''last_xid'', le_xid_t)]"

definition apfs_superblock_t :: ctype where
  "apfs_superblock_t = Struct
     [(''apfs_o'', obj_phys_t),
      (''apfs_magic'', le_uint32_t),
      (''apfs_fs_index'', le_uint32_t),
      (''apfs_features'', le_uint64_t),
      (''apfs_readonly_compatible_features'', le_uint64_t),
      (''apfs_incompatible_features'', le_uint64_t),
      (''apfs_unmount_time'', le_uint64_t),
      (''apfs_fs_reserve_block_count'', le_uint64_t),
      (''apfs_fs_quota_block_count'', le_uint64_t),
      (''apfs_fs_alloc_count'', le_uint64_t),
      (''apfs_meta_crypto'', wrapped_meta_crypto_state_t),
      (''apfs_root_tree_type'', le_uint32_t),
      (''apfs_extentref_tree_type'', le_uint32_t),
      (''apfs_snap_meta_tree_type'', le_uint32_t),
      (''apfs_omap_oid'', le_oid_t),
      (''apfs_root_tree_oid'', le_oid_t),
      (''apfs_extentref_tree_oid'', le_oid_t),
      (''apfs_snap_meta_tree_oid'', le_oid_t),
      (''apfs_revert_to_xid'', le_xid_t),
      (''apfs_revert_to_sblock_oid'', le_oid_t),
      (''apfs_next_obj_id'', le_uint64_t),
      (''apfs_num_files'', le_uint64_t),
      (''apfs_num_directories'', le_uint64_t),
      (''apfs_num_symlinks'', le_uint64_t),
      (''apfs_num_other_fsobjects'', le_uint64_t),
      (''apfs_num_snapshots'', le_uint64_t),
      (''apfs_total_blocks_alloced'', le_uint64_t),
      (''apfs_total_blocks_freed'', le_uint64_t),
      (''apfs_vol_uuid'', apfs_uuid_t),
      (''apfs_last_mod_time'', le_uint64_t),
      (''apfs_fs_flags'', le_uint64_t),
      (''apfs_formatted_by'', apfs_modified_by_t),
      (''apfs_modified_by'', Array apfs_modified_by_t APFS_MAX_HIST),
      (''apfs_volname'', Array U8 APFS_VOLNAME_LEN),
      (''apfs_next_doc_id'', le_uint32_t),
      (''apfs_role'', le_uint16_t),
      (''reserved'', le_uint16_t),
      (''apfs_root_to_xid'', le_xid_t),
      (''apfs_er_state_oid'', le_oid_t),
      (''apfs_cloneinfo_id_epoch'', le_uint64_t),
      (''apfs_cloneinfo_xid'', le_uint64_t),
      (''apfs_snap_meta_ext_oid'', le_oid_t),
      (''apfs_volume_group_id'', apfs_uuid_t),
      (''apfs_integrity_meta_oid'', le_oid_t),
      (''apfs_fext_tree_oid'', le_oid_t),
      (''apfs_fext_tree_type'', le_uint32_t),
      (''reserved_type'', le_uint32_t),
      (''reserved_oid'', le_oid_t)]"

section \<open>Summary\<close>

lemmas volume_layouts =
  omap_phys_t_def omap_key_t_def omap_val_t_def omap_snapshot_t_def apfs_modified_by_t_def
  apfs_superblock_t_def
  APFS_MAX_HIST_def APFS_MODIFIED_NAMELEN_def APFS_VOLNAME_LEN_def

definition volume_structs :: "(string \<times> ctype) list" where
  "volume_structs =
    [(''omap_phys_t'', omap_phys_t),
     (''omap_key_t'', omap_key_t),
     (''omap_val_t'', omap_val_t),
     (''omap_snapshot_t'', omap_snapshot_t),
     (''apfs_modified_by_t'', apfs_modified_by_t),
     (''apfs_superblock_t'', apfs_superblock_t)]"

lemmas volume_names =
  objects_names APFS_MAX_HIST_def APFS_MODIFIED_NAMELEN_def APFS_VOLNAME_LEN_def

section \<open>Sizes\<close>

lemma omap_phys_t_size [simp]:
  "sizeof omap_phys_t = 88" "align_of omap_phys_t = 8" "natural_size omap_phys_t = 88"
  "natural_offsets 0 (struct_fields omap_phys_t) = packed_offsets 0 (struct_fields omap_phys_t)"
  by (simp_all add: omap_phys_t_def volume_names round_up_def del: suc_rules)

lemma omap_key_t_size [simp]:
  "sizeof omap_key_t = 16" "align_of omap_key_t = 8" "natural_size omap_key_t = 16"
  "natural_offsets 0 (struct_fields omap_key_t) = packed_offsets 0 (struct_fields omap_key_t)"
  by (simp_all add: omap_key_t_def volume_names round_up_def del: suc_rules)

lemma omap_val_t_size [simp]:
  "sizeof omap_val_t = 16" "align_of omap_val_t = 8" "natural_size omap_val_t = 16"
  "natural_offsets 0 (struct_fields omap_val_t) = packed_offsets 0 (struct_fields omap_val_t)"
  by (simp_all add: omap_val_t_def volume_names round_up_def del: suc_rules)

lemma omap_snapshot_t_size [simp]:
  "sizeof omap_snapshot_t = 16" "align_of omap_snapshot_t = 8" "natural_size omap_snapshot_t = 16"
  "natural_offsets 0 (struct_fields omap_snapshot_t) = packed_offsets 0 (struct_fields omap_snapshot_t)"
  by (simp_all add: omap_snapshot_t_def volume_names round_up_def del: suc_rules)

lemma apfs_modified_by_t_size [simp]:
  "sizeof apfs_modified_by_t = 48" "align_of apfs_modified_by_t = 8" "natural_size apfs_modified_by_t = 48"
  "natural_offsets 0 (struct_fields apfs_modified_by_t) = packed_offsets 0 (struct_fields apfs_modified_by_t)"
  by (simp_all add: apfs_modified_by_t_def volume_names round_up_def del: suc_rules)

lemma apfs_superblock_t_size [simp]:
  "sizeof apfs_superblock_t = 1056" "align_of apfs_superblock_t = 8" "natural_size apfs_superblock_t = 1056"
  "natural_offsets 0 (struct_fields apfs_superblock_t) = packed_offsets 0 (struct_fields apfs_superblock_t)"
  by (simp_all add: apfs_superblock_t_def volume_names round_up_def del: suc_rules)

end
