(* ===== verification/APFS_Records.thy ===== *)
theory APFS_Records
  imports APFS_Volume
begin

text \<open>
  The records of the file-system tree: keys and values of inodes, directory entries, extents,
  attributes, siblings and snapshots.
\<close>

section \<open>Keys\<close>

definition j_key_t :: ctype where
  "j_key_t = Struct
     [(''obj_id_and_type'', le_uint64_t)]"

definition OBJ_ID_MASK :: u64 where "OBJ_ID_MASK = 0x0FFFFFFFFFFFFFFF"
definition OBJ_TYPE_MASK :: u64 where "OBJ_TYPE_MASK = 0xF000000000000000"
definition OBJ_TYPE_SHIFT :: nat where "OBJ_TYPE_SHIFT = 60"

section \<open>Inodes\<close>

definition j_inode_key_t :: ctype where
  "j_inode_key_t = Struct
     [(''hdr'', j_key_t)]"

definition j_inode_val_t :: ctype where
  "j_inode_val_t = Struct
     [(''parent_id'', le_uint64_t),
      (''private_id'', le_uint64_t),
      (''create_time'', le_uint64_t),
      (''mod_time'', le_uint64_t),
      (''change_time'', le_uint64_t),
      (''access_time'', le_uint64_t),
      (''internal_flags'', le_uint64_t),
      (''nchildren_or_nlink'', Union [(''nchildren'', le_int32_t), (''nlink'', le_int32_t)]),
      (''default_protection_class'', le_cp_key_class_t),
      (''write_generation_counter'', le_uint32_t),
      (''bsd_flags'', le_uint32_t),
      (''owner'', le_uint32_t),
      (''group'', le_uint32_t),
      (''mode'', le_uint16_t),
      (''pad1'', le_uint16_t),
      (''pad2'', le_uint64_t),
      (''xfields'', Array U8 0)]"

section \<open>Directory entries\<close>

definition J_DREC_LEN_MASK :: u32 where "J_DREC_LEN_MASK = 0x000003FF"
definition J_DREC_HASH_MASK :: u32 where "J_DREC_HASH_MASK = 0xFFFFFC00"
definition J_DREC_HASH_SHIFT :: nat where "J_DREC_HASH_SHIFT = 10"

definition j_drec_key_t :: ctype where
  "j_drec_key_t = Struct
     [(''hdr'', j_key_t),
      (''name_len'', le_uint16_t),
      (''name'', Array U8 0)]"

definition j_drec_hashed_key_t :: ctype where
  "j_drec_hashed_key_t = Struct
     [(''hdr'', j_key_t),
      (''name_len_and_hash'', le_uint32_t),
      (''name'', Array U8 0)]"

definition j_drec_val_t :: ctype where
  "j_drec_val_t = Struct
     [(''file_id'', le_uint64_t),
      (''date_added'', le_uint64_t),
      (''flags'', le_uint16_t),
      (''xfields'', Array U8 0)]"

definition j_dir_stats_key_t :: ctype where
  "j_dir_stats_key_t = Struct
     [(''hdr'', j_key_t)]"

definition j_dir_stats_val_t :: ctype where
  "j_dir_stats_val_t = Struct
     [(''num_children'', le_uint64_t),
      (''total_size'', le_uint64_t),
      (''chained_key'', le_uint64_t),
      (''gen_count'', le_uint64_t)]"

definition j_xattr_key_t :: ctype where
  "j_xattr_key_t = Struct
     [(''hdr'', j_key_t),
      (''name_len'', le_uint16_t),
      (''name'', Array U8 0)]"

definition j_xattr_val_t :: ctype where
  "j_xattr_val_t = Struct
     [(''flags'', le_uint16_t),
      (''xdata_len'', le_uint16_t),
      (''xdata'', Array U8 0)]"

section \<open>Types and flags of records\<close>

definition APFS_TYPE_ANY :: u64 where "APFS_TYPE_ANY = 0"
definition APFS_TYPE_SNAP_METADATA :: u64 where "APFS_TYPE_SNAP_METADATA = 1"
definition APFS_TYPE_EXTENT :: u64 where "APFS_TYPE_EXTENT = 2"
definition APFS_TYPE_INODE :: u64 where "APFS_TYPE_INODE = 3"
definition APFS_TYPE_XATTR :: u64 where "APFS_TYPE_XATTR = 4"
definition APFS_TYPE_SIBLING_LINK :: u64 where "APFS_TYPE_SIBLING_LINK = 5"
definition APFS_TYPE_DSTREAM_ID :: u64 where "APFS_TYPE_DSTREAM_ID = 6"
definition APFS_TYPE_CRYPTO_STATE :: u64 where "APFS_TYPE_CRYPTO_STATE = 7"
definition APFS_TYPE_FILE_EXTENT :: u64 where "APFS_TYPE_FILE_EXTENT = 8"
definition APFS_TYPE_DIR_REC :: u64 where "APFS_TYPE_DIR_REC = 9"
definition APFS_TYPE_DIR_STATS :: u64 where "APFS_TYPE_DIR_STATS = 10"
definition APFS_TYPE_SNAP_NAME :: u64 where "APFS_TYPE_SNAP_NAME = 11"
definition APFS_TYPE_SIBLING_MAP :: u64 where "APFS_TYPE_SIBLING_MAP = 12"
definition APFS_TYPE_FILE_INFO :: u64 where "APFS_TYPE_FILE_INFO = 13"
definition APFS_TYPE_MAX_VALID :: u64 where "APFS_TYPE_MAX_VALID = 13"
definition APFS_TYPE_MAX :: u64 where "APFS_TYPE_MAX = 15"
definition APFS_TYPE_INVALID :: u64 where "APFS_TYPE_INVALID = 15"

definition APFS_KIND_ANY :: u64 where "APFS_KIND_ANY = 0"
definition APFS_KIND_NEW :: u64 where "APFS_KIND_NEW = 1"
definition APFS_KIND_UPDATE :: u64 where "APFS_KIND_UPDATE = 2"
definition APFS_KIND_DEAD :: u64 where "APFS_KIND_DEAD = 3"
definition APFS_KIND_UPDATE_REFCNT :: u64 where "APFS_KIND_UPDATE_REFCNT = 4"
definition APFS_KIND_INVALID :: u64 where "APFS_KIND_INVALID = 255"

definition INODE_IS_APFS_PRIVATE :: u64 where "INODE_IS_APFS_PRIVATE = 0x00000001"
definition INODE_MAINTAIN_DIR_STATS :: u64 where "INODE_MAINTAIN_DIR_STATS = 0x00000002"
definition INODE_DIR_STATS_ORIGIN :: u64 where "INODE_DIR_STATS_ORIGIN = 0x00000004"
definition INODE_PROT_CLASS_EXPLICIT :: u64 where "INODE_PROT_CLASS_EXPLICIT = 0x00000008"
definition INODE_WAS_CLONED :: u64 where "INODE_WAS_CLONED = 0x00000010"
definition INODE_FLAGS_UNUSED :: u64 where "INODE_FLAGS_UNUSED = 0x00000020"
definition INODE_HAS_SECURITY_EA :: u64 where "INODE_HAS_SECURITY_EA = 0x00000040"
definition INODE_BEING_TRUNCATED :: u64 where "INODE_BEING_TRUNCATED = 0x00000080"
definition INODE_HAS_FINDER_INFO :: u64 where "INODE_HAS_FINDER_INFO = 0x00000100"
definition INODE_IS_SPARSE :: u64 where "INODE_IS_SPARSE = 0x00000200"
definition INODE_WAS_EVER_CLONED :: u64 where "INODE_WAS_EVER_CLONED = 0x00000400"
definition INODE_ACTIVE_FILE_TRIMMED :: u64 where "INODE_ACTIVE_FILE_TRIMMED = 0x00000800"
definition INODE_PINNED_TO_MAIN :: u64 where "INODE_PINNED_TO_MAIN = 0x00001000"
definition INODE_PINNED_TO_TIER2 :: u64 where "INODE_PINNED_TO_TIER2 = 0x00002000"
definition INODE_HAS_RSRC_FORK :: u64 where "INODE_HAS_RSRC_FORK = 0x00004000"
definition INODE_NO_RSRC_FORK :: u64 where "INODE_NO_RSRC_FORK = 0x00008000"
definition INODE_ALLOCATION_SPILLEDOVER :: u64 where "INODE_ALLOCATION_SPILLEDOVER = 0x00010000"
definition INODE_FAST_PROMOTE :: u64 where "INODE_FAST_PROMOTE = 0x00020000"
definition INODE_HAS_UNCOMPRESSED_SIZE :: u64 where "INODE_HAS_UNCOMPRESSED_SIZE = 0x00040000"
definition INODE_IS_PURGEABLE :: u64 where "INODE_IS_PURGEABLE = 0x00080000"
definition INODE_WANTS_TO_BE_PURGEABLE :: u64 where "INODE_WANTS_TO_BE_PURGEABLE = 0x00100000"
definition INODE_IS_SYNC_ROOT :: u64 where "INODE_IS_SYNC_ROOT = 0x00200000"
definition INODE_SNAPSHOT_COW_EXEMPTION :: u64 where "INODE_SNAPSHOT_COW_EXEMPTION = 0x00400000"
definition INODE_INHERITED_INTERNAL_FLAGS :: u64 where "INODE_INHERITED_INTERNAL_FLAGS = INODE_MAINTAIN_DIR_STATS OR INODE_SNAPSHOT_COW_EXEMPTION"
definition INODE_CLONED_INTERNAL_FLAGS :: u64 where "INODE_CLONED_INTERNAL_FLAGS = INODE_HAS_RSRC_FORK OR INODE_NO_RSRC_FORK OR INODE_HAS_FINDER_INFO OR INODE_SNAPSHOT_COW_EXEMPTION"

definition APFS_UF_NODUMP :: u32 where "APFS_UF_NODUMP = 0x1"
definition APFS_UF_IMMUTABLE :: u32 where "APFS_UF_IMMUTABLE = 0x2"
definition APFS_UF_APPEND :: u32 where "APFS_UF_APPEND = 0x4"
definition APFS_UF_OPAQUE :: u32 where "APFS_UF_OPAQUE = 0x8"
definition APFS_UF_NOUNLINK :: u32 where "APFS_UF_NOUNLINK = 0x10"
definition APFS_UF_COMPRESSED :: u32 where "APFS_UF_COMPRESSED = 0x20"
definition APFS_UF_TRACKED :: u32 where "APFS_UF_TRACKED = 0x40"
definition APFS_UF_DATAVAULT :: u32 where "APFS_UF_DATAVAULT = 0x80"
definition APFS_UF_HIDDEN :: u32 where "APFS_UF_HIDDEN = 0x8000"
definition APFS_SF_ARCHIVED :: u32 where "APFS_SF_ARCHIVED = 0x10000"
definition APFS_SF_IMMUTABLE :: u32 where "APFS_SF_IMMUTABLE = 0x20000"
definition APFS_SF_APPEND :: u32 where "APFS_SF_APPEND = 0x40000"
definition APFS_SF_RESTRICTED :: u32 where "APFS_SF_RESTRICTED = 0x80000"
definition APFS_SF_NOUNLINK :: u32 where "APFS_SF_NOUNLINK = 0x100000"
definition APFS_SF_SNAPSHOT :: u32 where "APFS_SF_SNAPSHOT = 0x200000"
definition APFS_SF_FIRMLINK :: u32 where "APFS_SF_FIRMLINK = 0x800000"
definition APFS_SF_DATALESS :: u32 where "APFS_SF_DATALESS = 0x40000000"

definition APFS_VALID_INTERNAL_INODE_FLAGS :: u64 where
  "APFS_VALID_INTERNAL_INODE_FLAGS =
     INODE_IS_APFS_PRIVATE OR INODE_MAINTAIN_DIR_STATS OR INODE_DIR_STATS_ORIGIN OR
     INODE_PROT_CLASS_EXPLICIT OR INODE_WAS_CLONED OR INODE_HAS_SECURITY_EA OR
     INODE_BEING_TRUNCATED OR INODE_HAS_FINDER_INFO OR INODE_IS_SPARSE OR INODE_WAS_EVER_CLONED
     OR INODE_ACTIVE_FILE_TRIMMED OR INODE_PINNED_TO_MAIN OR INODE_PINNED_TO_TIER2 OR
     INODE_HAS_RSRC_FORK OR INODE_NO_RSRC_FORK OR INODE_ALLOCATION_SPILLEDOVER OR
     INODE_FAST_PROMOTE OR INODE_HAS_UNCOMPRESSED_SIZE OR INODE_IS_PURGEABLE OR
     INODE_WANTS_TO_BE_PURGEABLE OR INODE_IS_SYNC_ROOT OR INODE_SNAPSHOT_COW_EXEMPTION"

definition XATTR_DATA_STREAM :: u16 where "XATTR_DATA_STREAM = 0x0001"
definition XATTR_DATA_EMBEDDED :: u16 where "XATTR_DATA_EMBEDDED = 0x0002"
definition XATTR_FILE_SYSTEM_OWNED :: u16 where "XATTR_FILE_SYSTEM_OWNED = 0x0004"
definition XATTR_RESERVED_8 :: u16 where "XATTR_RESERVED_8 = 0x0008"

definition DREC_TYPE_MASK :: u32 where "DREC_TYPE_MASK = 0x000F"
definition RESERVED_10 :: u32 where "RESERVED_10 = 0x0010"

definition INVALID_INO_NUM :: u64 where "INVALID_INO_NUM = 0"
definition ROOT_DIR_PARENT :: u64 where "ROOT_DIR_PARENT = 1"
definition ROOT_DIR_INO_NUM :: u64 where "ROOT_DIR_INO_NUM = 2"
definition PRIV_DIR_INO_NUM :: u64 where "PRIV_DIR_INO_NUM = 3"
definition SNAP_DIR_INO_NUM :: u64 where "SNAP_DIR_INO_NUM = 6"
definition PURGEABLE_DIR_INO_NUM :: u64 where "PURGEABLE_DIR_INO_NUM = 7"
definition MIN_USER_INO_NUM :: u64 where "MIN_USER_INO_NUM = 16"
definition UNIFIED_ID_SPACE_MARK :: u64 where "UNIFIED_ID_SPACE_MARK = 0x0800000000000000"
definition XATTR_MAX_EMBEDDED_SIZE :: u16 where "XATTR_MAX_EMBEDDED_SIZE = 3804"
definition SYMLINK_EA_NAME :: string where "SYMLINK_EA_NAME = ''com.apple.fs.symlink''"
definition FIRMLINK_EA_NAME :: string where "FIRMLINK_EA_NAME = ''com.apple.fs.firmlink''"
definition APFS_COW_EXEMPT_COUNT_NAME :: string where
  "APFS_COW_EXEMPT_COUNT_NAME =
     ''com.apple.fs.cow-exempt-file-count''"
definition OWNING_OBJ_ID_INVALID :: u64 where "OWNING_OBJ_ID_INVALID = NOT 0"
definition OWNING_OBJ_ID_UNKNOWN :: u64 where "OWNING_OBJ_ID_UNKNOWN = NOT 1"
definition JOBJ_MAX_KEY_SIZE :: u16 where "JOBJ_MAX_KEY_SIZE = 832"
definition JOBJ_MAX_VALUE_SIZE :: u16 where "JOBJ_MAX_VALUE_SIZE = 3808"
definition MIN_DOC_ID :: u32 where "MIN_DOC_ID = 3"
definition FEXT_CRYPTO_ID_IS_TWEAK :: u32 where "FEXT_CRYPTO_ID_IS_TWEAK = 0x01"
definition MODE_S_IFMT :: u16 where "MODE_S_IFMT = 0xf000"
definition MODE_S_IFIFO :: u16 where "MODE_S_IFIFO = 0x1000"
definition MODE_S_IFCHR :: u16 where "MODE_S_IFCHR = 0x2000"
definition MODE_S_IFDIR :: u16 where "MODE_S_IFDIR = 0x4000"
definition MODE_S_IFBLK :: u16 where "MODE_S_IFBLK = 0x6000"
definition MODE_S_IFREG :: u16 where "MODE_S_IFREG = 0x8000"
definition MODE_S_IFLNK :: u16 where "MODE_S_IFLNK = 0xa000"
definition MODE_S_IFSOCK :: u16 where "MODE_S_IFSOCK = 0xc000"
definition MODE_S_IFWHT :: u16 where "MODE_S_IFWHT = 0xe000"
definition DT_UNKNOWN :: u16 where "DT_UNKNOWN = 0"
definition DT_FIFO :: u16 where "DT_FIFO = 1"
definition DT_CHR :: u16 where "DT_CHR = 2"
definition DT_DIR :: u16 where "DT_DIR = 4"
definition DT_BLK :: u16 where "DT_BLK = 6"
definition DT_REG :: u16 where "DT_REG = 8"
definition DT_LNK :: u16 where "DT_LNK = 10"

section \<open>Extents and data streams\<close>

definition DT_SOCK :: u16 where "DT_SOCK = 12"
definition DT_WHT :: u16 where "DT_WHT = 14"

definition j_phys_ext_key_t :: ctype where
  "j_phys_ext_key_t = Struct
     [(''hdr'', j_key_t)]"

definition j_phys_ext_val_t :: ctype where
  "j_phys_ext_val_t = Struct
     [(''len_and_kind'', le_uint64_t),
      (''owning_obj_id'', le_uint64_t),
      (''refcnt'', le_uint32_t)]"

definition PEXT_LEN_MASK :: u64 where "PEXT_LEN_MASK = 0x0FFFFFFFFFFFFFFF"
definition PEXT_KIND_MASK :: u64 where "PEXT_KIND_MASK = 0xF000000000000000"
definition PEXT_KIND_SHIFT :: nat where "PEXT_KIND_SHIFT = 60"

definition j_file_extent_key_t :: ctype where
  "j_file_extent_key_t = Struct
     [(''hdr'', j_key_t),
      (''logical_addr'', le_uint64_t)]"

definition j_file_extent_val_t :: ctype where
  "j_file_extent_val_t = Struct
     [(''len_and_flags'', le_uint64_t),
      (''phys_block_num'', le_uint64_t),
      (''crypto_id'', le_uint64_t)]"

definition J_FILE_EXTENT_LEN_MASK :: u64 where "J_FILE_EXTENT_LEN_MASK = 0x00FFFFFFFFFFFFFF"
definition J_FILE_EXTENT_FLAG_MASK :: u64 where "J_FILE_EXTENT_FLAG_MASK = 0xFF00000000000000"
definition J_FILE_EXTENT_FLAG_SHIFT :: nat where "J_FILE_EXTENT_FLAG_SHIFT = 56"

definition j_dstream_id_key_t :: ctype where
  "j_dstream_id_key_t = Struct
     [(''hdr'', j_key_t)]"

definition j_dstream_id_val_t :: ctype where
  "j_dstream_id_val_t = Struct
     [(''refcnt'', le_uint32_t)]"

definition j_dstream_t :: ctype where
  "j_dstream_t = Struct
     [(''size'', le_uint64_t),
      (''alloced_size'', le_uint64_t),
      (''default_crypto_id'', le_uint64_t),
      (''total_bytes_written'', le_uint64_t),
      (''total_bytes_read'', le_uint64_t)]"

definition j_xattr_dstream_t :: ctype where
  "j_xattr_dstream_t = Struct
     [(''xattr_obj_id'', le_uint64_t),
      (''dstream'', j_dstream_t)]"

section \<open>Extended fields\<close>

definition xf_blob_t :: ctype where
  "xf_blob_t = Struct
     [(''xf_num_exts'', le_uint16_t),
      (''xf_used_data'', le_uint16_t),
      (''xf_data'', Array U8 0)]"

definition x_field_t :: ctype where
  "x_field_t = Struct
     [(''x_type'', U8),
      (''x_flags'', U8),
      (''x_size'', le_uint16_t)]"

definition DREC_EXT_TYPE_SIBLING_ID :: u8 where "DREC_EXT_TYPE_SIBLING_ID = 1"
definition INO_EXT_TYPE_SNAP_XID :: u8 where "INO_EXT_TYPE_SNAP_XID = 1"
definition INO_EXT_TYPE_DELTRA_TREE_OID :: u8 where "INO_EXT_TYPE_DELTRA_TREE_OID = 2"
definition INO_EXT_TYPE_DOCUMENT_ID :: u8 where "INO_EXT_TYPE_DOCUMENT_ID = 3"
definition INO_EXT_TYPE_NAME :: u8 where "INO_EXT_TYPE_NAME = 4"
definition INO_EXT_TYPE_PREV_FSIZE :: u8 where "INO_EXT_TYPE_PREV_FSIZE = 5"
definition INO_EXT_TYPE_RESERVED_6 :: u8 where "INO_EXT_TYPE_RESERVED_6 = 6"
definition INO_EXT_TYPE_FINDER_INFO :: u8 where "INO_EXT_TYPE_FINDER_INFO = 7"
definition INO_EXT_TYPE_DSTREAM :: u8 where "INO_EXT_TYPE_DSTREAM = 8"
definition INO_EXT_TYPE_RESERVED_9 :: u8 where "INO_EXT_TYPE_RESERVED_9 = 9"
definition INO_EXT_TYPE_DIR_STATS_KEY :: u8 where "INO_EXT_TYPE_DIR_STATS_KEY = 10"
definition INO_EXT_TYPE_FS_UUID :: u8 where "INO_EXT_TYPE_FS_UUID = 11"
definition INO_EXT_TYPE_RESERVED_12 :: u8 where "INO_EXT_TYPE_RESERVED_12 = 12"
definition INO_EXT_TYPE_SPARSE_BYTES :: u8 where "INO_EXT_TYPE_SPARSE_BYTES = 13"
definition INO_EXT_TYPE_RDEV :: u8 where "INO_EXT_TYPE_RDEV = 14"
definition INO_EXT_TYPE_PURGEABLE_FLAGS :: u8 where "INO_EXT_TYPE_PURGEABLE_FLAGS = 15"
definition INO_EXT_TYPE_ORIG_SYNC_ROOT_ID :: u8 where "INO_EXT_TYPE_ORIG_SYNC_ROOT_ID = 16"

definition XF_DATA_DEPENDENT :: u8 where "XF_DATA_DEPENDENT = 0x01"
definition XF_DO_NOT_COPY :: u8 where "XF_DO_NOT_COPY = 0x02"
definition XF_RESERVED_4 :: u8 where "XF_RESERVED_4 = 0x04"
definition XF_CHILDREN_INHERIT :: u8 where "XF_CHILDREN_INHERIT = 0x08"
definition XF_USER_FIELD :: u8 where "XF_USER_FIELD = 0x10"
definition XF_SYSTEM_FIELD :: u8 where "XF_SYSTEM_FIELD = 0x20"
definition XF_RESERVED_40 :: u8 where "XF_RESERVED_40 = 0x40"

section \<open>Siblings and snapshots\<close>

definition XF_RESERVED_80 :: u8 where "XF_RESERVED_80 = 0x80"

definition j_sibling_key_t :: ctype where
  "j_sibling_key_t = Struct
     [(''hdr'', j_key_t),
      (''sibling_id'', le_uint64_t)]"

definition j_sibling_val_t :: ctype where
  "j_sibling_val_t = Struct
     [(''parent_id'', le_uint64_t),
      (''name_len'', le_uint16_t),
      (''name'', Array U8 0)]"

definition j_sibling_map_key_t :: ctype where
  "j_sibling_map_key_t = Struct
     [(''hdr'', j_key_t)]"

definition j_sibling_map_val_t :: ctype where
  "j_sibling_map_val_t = Struct
     [(''file_id'', le_uint64_t)]"

definition j_snap_metadata_key_t :: ctype where
  "j_snap_metadata_key_t = Struct
     [(''hdr'', j_key_t)]"

definition j_snap_metadata_val_t :: ctype where
  "j_snap_metadata_val_t = Struct
     [(''extentref_tree_oid'', le_oid_t),
      (''sblock_oid'', le_oid_t),
      (''create_time'', le_uint64_t),
      (''change_time'', le_uint64_t),
      (''inum'', le_uint64_t),
      (''extentref_tree_type'', le_uint32_t),
      (''flags'', le_uint32_t),
      (''name_len'', le_uint16_t),
      (''name'', Array U8 0)]"

definition j_snap_name_key_t :: ctype where
  "j_snap_name_key_t = Struct
     [(''hdr'', j_key_t),
      (''name_len'', le_uint16_t),
      (''name'', Array U8 0)]"

definition j_snap_name_val_t :: ctype where
  "j_snap_name_val_t = Struct
     [(''snap_xid'', le_xid_t)]"

definition SNAP_META_PENDING_DATALESS :: u32 where "SNAP_META_PENDING_DATALESS = 0x00000001"
definition SNAP_META_MERGE_IN_PROGRESS :: u32 where "SNAP_META_MERGE_IN_PROGRESS = 0x00000002"

definition snap_meta_ext_t :: ctype where
  "snap_meta_ext_t = Struct
     [(''sme_version'', le_uint32_t),
      (''sme_flags'', le_uint32_t),
      (''sme_snap_xid'', le_xid_t),
      (''sme_uuid'', apfs_uuid_t),
      (''sme_token'', le_uint64_t)]"

definition snap_meta_ext_obj_phys_t :: ctype where
  "snap_meta_ext_obj_phys_t = Struct
     [(''smeop_o'', obj_phys_t),
      (''smeop_sme'', snap_meta_ext_t)]"

section \<open>Summary\<close>

lemmas records_layouts =
  j_key_t_def j_inode_key_t_def j_inode_val_t_def j_drec_key_t_def j_drec_hashed_key_t_def
  j_drec_val_t_def j_dir_stats_key_t_def j_dir_stats_val_t_def j_xattr_key_t_def
  j_xattr_val_t_def j_phys_ext_key_t_def j_phys_ext_val_t_def j_file_extent_key_t_def
  j_file_extent_val_t_def j_dstream_id_key_t_def j_dstream_id_val_t_def j_dstream_t_def
  j_xattr_dstream_t_def xf_blob_t_def x_field_t_def j_sibling_key_t_def j_sibling_val_t_def
  j_sibling_map_key_t_def j_sibling_map_val_t_def j_snap_metadata_key_t_def
  j_snap_metadata_val_t_def j_snap_name_key_t_def j_snap_name_val_t_def snap_meta_ext_t_def
  snap_meta_ext_obj_phys_t_def

definition records_structs :: "(string \<times> ctype) list" where
  "records_structs =
    [(''j_key_t'', j_key_t),
     (''j_inode_key_t'', j_inode_key_t),
     (''j_inode_val_t'', j_inode_val_t),
     (''j_drec_key_t'', j_drec_key_t),
     (''j_drec_hashed_key_t'', j_drec_hashed_key_t),
     (''j_drec_val_t'', j_drec_val_t),
     (''j_dir_stats_key_t'', j_dir_stats_key_t),
     (''j_dir_stats_val_t'', j_dir_stats_val_t),
     (''j_xattr_key_t'', j_xattr_key_t),
     (''j_xattr_val_t'', j_xattr_val_t),
     (''j_phys_ext_key_t'', j_phys_ext_key_t),
     (''j_phys_ext_val_t'', j_phys_ext_val_t),
     (''j_file_extent_key_t'', j_file_extent_key_t),
     (''j_file_extent_val_t'', j_file_extent_val_t),
     (''j_dstream_id_key_t'', j_dstream_id_key_t),
     (''j_dstream_id_val_t'', j_dstream_id_val_t),
     (''j_dstream_t'', j_dstream_t),
     (''j_xattr_dstream_t'', j_xattr_dstream_t),
     (''xf_blob_t'', xf_blob_t),
     (''x_field_t'', x_field_t),
     (''j_sibling_key_t'', j_sibling_key_t),
     (''j_sibling_val_t'', j_sibling_val_t),
     (''j_sibling_map_key_t'', j_sibling_map_key_t),
     (''j_sibling_map_val_t'', j_sibling_map_val_t),
     (''j_snap_metadata_key_t'', j_snap_metadata_key_t),
     (''j_snap_metadata_val_t'', j_snap_metadata_val_t),
     (''j_snap_name_key_t'', j_snap_name_key_t),
     (''j_snap_name_val_t'', j_snap_name_val_t),
     (''snap_meta_ext_t'', snap_meta_ext_t),
     (''snap_meta_ext_obj_phys_t'', snap_meta_ext_obj_phys_t)]"

lemmas records_names =
  volume_names

section \<open>Sizes\<close>

lemma j_key_t_size [simp]:
  "sizeof j_key_t = 8" "align_of j_key_t = 8" "natural_size j_key_t = 8"
  "natural_offsets 0 (struct_fields j_key_t) = packed_offsets 0 (struct_fields j_key_t)"
  by (simp_all add: j_key_t_def records_names round_up_def del: suc_rules)

lemma j_inode_key_t_size [simp]:
  "sizeof j_inode_key_t = 8" "align_of j_inode_key_t = 8" "natural_size j_inode_key_t = 8"
  "natural_offsets 0 (struct_fields j_inode_key_t) = packed_offsets 0 (struct_fields j_inode_key_t)"
  by (simp_all add: j_inode_key_t_def records_names round_up_def del: suc_rules)

lemma j_inode_val_t_size [simp]:
  "sizeof j_inode_val_t = 92" "align_of j_inode_val_t = 8" "natural_size j_inode_val_t = 96"
  "natural_offsets 0 (struct_fields j_inode_val_t) \<noteq> packed_offsets 0 (struct_fields j_inode_val_t)"
  by (simp_all add: j_inode_val_t_def records_names round_up_def del: suc_rules)

lemma j_drec_key_t_size [simp]:
  "sizeof j_drec_key_t = 10" "align_of j_drec_key_t = 8" "natural_size j_drec_key_t = 16"
  "natural_offsets 0 (struct_fields j_drec_key_t) = packed_offsets 0 (struct_fields j_drec_key_t)"
  by (simp_all add: j_drec_key_t_def records_names round_up_def del: suc_rules)

lemma j_drec_hashed_key_t_size [simp]:
  "sizeof j_drec_hashed_key_t = 12" "align_of j_drec_hashed_key_t = 8" "natural_size j_drec_hashed_key_t = 16"
  "natural_offsets 0 (struct_fields j_drec_hashed_key_t) = packed_offsets 0 (struct_fields j_drec_hashed_key_t)"
  by (simp_all add: j_drec_hashed_key_t_def records_names round_up_def del: suc_rules)

lemma j_drec_val_t_size [simp]:
  "sizeof j_drec_val_t = 18" "align_of j_drec_val_t = 8" "natural_size j_drec_val_t = 24"
  "natural_offsets 0 (struct_fields j_drec_val_t) = packed_offsets 0 (struct_fields j_drec_val_t)"
  by (simp_all add: j_drec_val_t_def records_names round_up_def del: suc_rules)

lemma j_dir_stats_key_t_size [simp]:
  "sizeof j_dir_stats_key_t = 8" "align_of j_dir_stats_key_t = 8" "natural_size j_dir_stats_key_t = 8"
  "natural_offsets 0 (struct_fields j_dir_stats_key_t) = packed_offsets 0 (struct_fields j_dir_stats_key_t)"
  by (simp_all add: j_dir_stats_key_t_def records_names round_up_def del: suc_rules)

lemma j_dir_stats_val_t_size [simp]:
  "sizeof j_dir_stats_val_t = 32" "align_of j_dir_stats_val_t = 8" "natural_size j_dir_stats_val_t = 32"
  "natural_offsets 0 (struct_fields j_dir_stats_val_t) = packed_offsets 0 (struct_fields j_dir_stats_val_t)"
  by (simp_all add: j_dir_stats_val_t_def records_names round_up_def del: suc_rules)

lemma j_xattr_key_t_size [simp]:
  "sizeof j_xattr_key_t = 10" "align_of j_xattr_key_t = 8" "natural_size j_xattr_key_t = 16"
  "natural_offsets 0 (struct_fields j_xattr_key_t) = packed_offsets 0 (struct_fields j_xattr_key_t)"
  by (simp_all add: j_xattr_key_t_def records_names round_up_def del: suc_rules)

lemma j_xattr_val_t_size [simp]:
  "sizeof j_xattr_val_t = 4" "align_of j_xattr_val_t = 2" "natural_size j_xattr_val_t = 4"
  "natural_offsets 0 (struct_fields j_xattr_val_t) = packed_offsets 0 (struct_fields j_xattr_val_t)"
  by (simp_all add: j_xattr_val_t_def records_names round_up_def del: suc_rules)

lemma j_phys_ext_key_t_size [simp]:
  "sizeof j_phys_ext_key_t = 8" "align_of j_phys_ext_key_t = 8" "natural_size j_phys_ext_key_t = 8"
  "natural_offsets 0 (struct_fields j_phys_ext_key_t) = packed_offsets 0 (struct_fields j_phys_ext_key_t)"
  by (simp_all add: j_phys_ext_key_t_def records_names round_up_def del: suc_rules)

lemma j_phys_ext_val_t_size [simp]:
  "sizeof j_phys_ext_val_t = 20" "align_of j_phys_ext_val_t = 8" "natural_size j_phys_ext_val_t = 24"
  "natural_offsets 0 (struct_fields j_phys_ext_val_t) = packed_offsets 0 (struct_fields j_phys_ext_val_t)"
  by (simp_all add: j_phys_ext_val_t_def records_names round_up_def del: suc_rules)

lemma j_file_extent_key_t_size [simp]:
  "sizeof j_file_extent_key_t = 16" "align_of j_file_extent_key_t = 8" "natural_size j_file_extent_key_t = 16"
  "natural_offsets 0 (struct_fields j_file_extent_key_t) = packed_offsets 0 (struct_fields j_file_extent_key_t)"
  by (simp_all add: j_file_extent_key_t_def records_names round_up_def del: suc_rules)

lemma j_file_extent_val_t_size [simp]:
  "sizeof j_file_extent_val_t = 24" "align_of j_file_extent_val_t = 8" "natural_size j_file_extent_val_t = 24"
  "natural_offsets 0 (struct_fields j_file_extent_val_t) = packed_offsets 0 (struct_fields j_file_extent_val_t)"
  by (simp_all add: j_file_extent_val_t_def records_names round_up_def del: suc_rules)

lemma j_dstream_id_key_t_size [simp]:
  "sizeof j_dstream_id_key_t = 8" "align_of j_dstream_id_key_t = 8" "natural_size j_dstream_id_key_t = 8"
  "natural_offsets 0 (struct_fields j_dstream_id_key_t) = packed_offsets 0 (struct_fields j_dstream_id_key_t)"
  by (simp_all add: j_dstream_id_key_t_def records_names round_up_def del: suc_rules)

lemma j_dstream_id_val_t_size [simp]:
  "sizeof j_dstream_id_val_t = 4" "align_of j_dstream_id_val_t = 4" "natural_size j_dstream_id_val_t = 4"
  "natural_offsets 0 (struct_fields j_dstream_id_val_t) = packed_offsets 0 (struct_fields j_dstream_id_val_t)"
  by (simp_all add: j_dstream_id_val_t_def records_names round_up_def del: suc_rules)

lemma j_dstream_t_size [simp]:
  "sizeof j_dstream_t = 40" "align_of j_dstream_t = 8" "natural_size j_dstream_t = 40"
  "natural_offsets 0 (struct_fields j_dstream_t) = packed_offsets 0 (struct_fields j_dstream_t)"
  by (simp_all add: j_dstream_t_def records_names round_up_def del: suc_rules)

lemma j_xattr_dstream_t_size [simp]:
  "sizeof j_xattr_dstream_t = 48" "align_of j_xattr_dstream_t = 8" "natural_size j_xattr_dstream_t = 48"
  "natural_offsets 0 (struct_fields j_xattr_dstream_t) = packed_offsets 0 (struct_fields j_xattr_dstream_t)"
  by (simp_all add: j_xattr_dstream_t_def records_names round_up_def del: suc_rules)

lemma xf_blob_t_size [simp]:
  "sizeof xf_blob_t = 4" "align_of xf_blob_t = 2" "natural_size xf_blob_t = 4"
  "natural_offsets 0 (struct_fields xf_blob_t) = packed_offsets 0 (struct_fields xf_blob_t)"
  by (simp_all add: xf_blob_t_def records_names round_up_def del: suc_rules)

lemma x_field_t_size [simp]:
  "sizeof x_field_t = 4" "align_of x_field_t = 2" "natural_size x_field_t = 4"
  "natural_offsets 0 (struct_fields x_field_t) = packed_offsets 0 (struct_fields x_field_t)"
  by (simp_all add: x_field_t_def records_names round_up_def del: suc_rules)

lemma j_sibling_key_t_size [simp]:
  "sizeof j_sibling_key_t = 16" "align_of j_sibling_key_t = 8" "natural_size j_sibling_key_t = 16"
  "natural_offsets 0 (struct_fields j_sibling_key_t) = packed_offsets 0 (struct_fields j_sibling_key_t)"
  by (simp_all add: j_sibling_key_t_def records_names round_up_def del: suc_rules)

lemma j_sibling_val_t_size [simp]:
  "sizeof j_sibling_val_t = 10" "align_of j_sibling_val_t = 8" "natural_size j_sibling_val_t = 16"
  "natural_offsets 0 (struct_fields j_sibling_val_t) = packed_offsets 0 (struct_fields j_sibling_val_t)"
  by (simp_all add: j_sibling_val_t_def records_names round_up_def del: suc_rules)

lemma j_sibling_map_key_t_size [simp]:
  "sizeof j_sibling_map_key_t = 8" "align_of j_sibling_map_key_t = 8" "natural_size j_sibling_map_key_t = 8"
  "natural_offsets 0 (struct_fields j_sibling_map_key_t) = packed_offsets 0 (struct_fields j_sibling_map_key_t)"
  by (simp_all add: j_sibling_map_key_t_def records_names round_up_def del: suc_rules)

lemma j_sibling_map_val_t_size [simp]:
  "sizeof j_sibling_map_val_t = 8" "align_of j_sibling_map_val_t = 8" "natural_size j_sibling_map_val_t = 8"
  "natural_offsets 0 (struct_fields j_sibling_map_val_t) = packed_offsets 0 (struct_fields j_sibling_map_val_t)"
  by (simp_all add: j_sibling_map_val_t_def records_names round_up_def del: suc_rules)

lemma j_snap_metadata_key_t_size [simp]:
  "sizeof j_snap_metadata_key_t = 8" "align_of j_snap_metadata_key_t = 8" "natural_size j_snap_metadata_key_t = 8"
  "natural_offsets 0 (struct_fields j_snap_metadata_key_t) = packed_offsets 0 (struct_fields j_snap_metadata_key_t)"
  by (simp_all add: j_snap_metadata_key_t_def records_names round_up_def del: suc_rules)

lemma j_snap_metadata_val_t_size [simp]:
  "sizeof j_snap_metadata_val_t = 50" "align_of j_snap_metadata_val_t = 8" "natural_size j_snap_metadata_val_t = 56"
  "natural_offsets 0 (struct_fields j_snap_metadata_val_t) = packed_offsets 0 (struct_fields j_snap_metadata_val_t)"
  by (simp_all add: j_snap_metadata_val_t_def records_names round_up_def del: suc_rules)

lemma j_snap_name_key_t_size [simp]:
  "sizeof j_snap_name_key_t = 10" "align_of j_snap_name_key_t = 8" "natural_size j_snap_name_key_t = 16"
  "natural_offsets 0 (struct_fields j_snap_name_key_t) = packed_offsets 0 (struct_fields j_snap_name_key_t)"
  by (simp_all add: j_snap_name_key_t_def records_names round_up_def del: suc_rules)

lemma j_snap_name_val_t_size [simp]:
  "sizeof j_snap_name_val_t = 8" "align_of j_snap_name_val_t = 8" "natural_size j_snap_name_val_t = 8"
  "natural_offsets 0 (struct_fields j_snap_name_val_t) = packed_offsets 0 (struct_fields j_snap_name_val_t)"
  by (simp_all add: j_snap_name_val_t_def records_names round_up_def del: suc_rules)

lemma snap_meta_ext_t_size [simp]:
  "sizeof snap_meta_ext_t = 40" "align_of snap_meta_ext_t = 8" "natural_size snap_meta_ext_t = 40"
  "natural_offsets 0 (struct_fields snap_meta_ext_t) = packed_offsets 0 (struct_fields snap_meta_ext_t)"
  by (simp_all add: snap_meta_ext_t_def records_names round_up_def del: suc_rules)

lemma snap_meta_ext_obj_phys_t_size [simp]:
  "sizeof snap_meta_ext_obj_phys_t = 72" "align_of snap_meta_ext_obj_phys_t = 8" "natural_size snap_meta_ext_obj_phys_t = 72"
  "natural_offsets 0 (struct_fields snap_meta_ext_obj_phys_t) = packed_offsets 0 (struct_fields snap_meta_ext_obj_phys_t)"
  by (simp_all add: snap_meta_ext_obj_phys_t_def records_names round_up_def del: suc_rules)

end
