(* ===== verification/APFS_Trees.thy ===== *)
theory APFS_Trees
  imports APFS_Records
begin

text \<open>
  B-tree nodes, integrity data and the extents of sealed volumes.
\<close>

section \<open>B-tree nodes\<close>

definition nloc_t :: ctype where
  "nloc_t = Struct
     [(''off'', le_uint16_t),
      (''len'', le_uint16_t)]"

definition btree_node_phys_t :: ctype where
  "btree_node_phys_t = Struct
     [(''btn_o'', obj_phys_t),
      (''btn_flags'', le_uint16_t),
      (''btn_level'', le_uint16_t),
      (''btn_nkeys'', le_uint32_t),
      (''btn_table_space'', nloc_t),
      (''btn_free_space'', nloc_t),
      (''btn_key_free_list'', nloc_t),
      (''btn_val_free_list'', nloc_t),
      (''btn_data'', Array U8 0)]"

definition btree_info_fixed_t :: ctype where
  "btree_info_fixed_t = Struct
     [(''bt_flags'', le_uint32_t),
      (''bt_node_size'', le_uint32_t),
      (''bt_key_size'', le_uint32_t),
      (''bt_val_size'', le_uint32_t)]"

definition btree_info_t :: ctype where
  "btree_info_t = Struct
     [(''bt_fixed'', btree_info_fixed_t),
      (''bt_longest_key'', le_uint32_t),
      (''bt_longest_val'', le_uint32_t),
      (''bt_key_count'', le_uint64_t),
      (''bt_node_count'', le_uint64_t)]"

definition BTREE_NODE_HASH_SIZE_MAX :: u16 where "BTREE_NODE_HASH_SIZE_MAX = 64"

definition btn_index_node_val_t :: ctype where
  "btn_index_node_val_t = Struct
     [(''binv_child_oid'', le_oid_t),
      (''binv_child_hash'', Array U8 (unat BTREE_NODE_HASH_SIZE_MAX))]"

definition BTOFF_INVALID :: u16 where "BTOFF_INVALID = 0xFFFF"

definition kvloc_t :: ctype where
  "kvloc_t = Struct
     [(''k'', nloc_t),
      (''v'', nloc_t)]"

definition kvoff_t :: ctype where
  "kvoff_t = Struct
     [(''k'', le_uint16_t),
      (''v'', le_uint16_t)]"

definition BTREE_UINT64_KEYS :: u32 where "BTREE_UINT64_KEYS = 0x00000001"
definition BTREE_SEQUENTIAL_INSERT :: u32 where "BTREE_SEQUENTIAL_INSERT = 0x00000002"
definition BTREE_ALLOW_GHOSTS :: u32 where "BTREE_ALLOW_GHOSTS = 0x00000004"
definition BTREE_EPHEMERAL :: u32 where "BTREE_EPHEMERAL = 0x00000008"
definition BTREE_PHYSICAL :: u32 where "BTREE_PHYSICAL = 0x00000010"
definition BTREE_NONPERSISTENT :: u32 where "BTREE_NONPERSISTENT = 0x00000020"
definition BTREE_KV_NONALIGNED :: u32 where "BTREE_KV_NONALIGNED = 0x00000040"
definition BTREE_HASHED :: u32 where "BTREE_HASHED = 0x00000080"
definition BTREE_NOHEADER :: u32 where "BTREE_NOHEADER = 0x00000100"
definition BTREE_TOC_ENTRY_INCREMENT :: nat where "BTREE_TOC_ENTRY_INCREMENT = 8"
definition BTREE_TOC_ENTRY_MAX_UNUSED :: nat where
  "BTREE_TOC_ENTRY_MAX_UNUSED =
     2 * BTREE_TOC_ENTRY_INCREMENT"
definition BTNODE_ROOT :: u16 where "BTNODE_ROOT = 0x0001"
definition BTNODE_LEAF :: u16 where "BTNODE_LEAF = 0x0002"
definition BTNODE_FIXED_KV_SIZE :: u16 where "BTNODE_FIXED_KV_SIZE = 0x0004"
definition BTNODE_HASHED :: u16 where "BTNODE_HASHED = 0x0008"
definition BTNODE_NOHEADER :: u16 where "BTNODE_NOHEADER = 0x0010"
definition BTNODE_CHECK_KOFF_INVAL :: u16 where "BTNODE_CHECK_KOFF_INVAL = 0x8000"
definition BTREE_NODE_SIZE_DEFAULT :: u16 where "BTREE_NODE_SIZE_DEFAULT = 4096"

section \<open>Integrity data and sealed volumes\<close>

definition BTREE_NODE_MIN_ENTRY_COUNT :: u32 where "BTREE_NODE_MIN_ENTRY_COUNT = 4"

definition INTEGRITY_META_VERSION_INVALID :: u32 where "INTEGRITY_META_VERSION_INVALID = 0"
definition INTEGRITY_META_VERSION_1 :: u32 where "INTEGRITY_META_VERSION_1 = 1"
definition INTEGRITY_META_VERSION_2 :: u32 where "INTEGRITY_META_VERSION_2 = 2"
definition INTEGRITY_META_VERSION_HIGHEST :: u32 where "INTEGRITY_META_VERSION_HIGHEST = INTEGRITY_META_VERSION_2"

definition APFS_SEAL_BROKEN :: u32 where "APFS_SEAL_BROKEN = 1"

definition APFS_HASH_INVALID :: u32 where "APFS_HASH_INVALID = 0"
definition APFS_HASH_SHA256 :: u32 where "APFS_HASH_SHA256 = 1"
definition APFS_HASH_SHA512_256 :: u32 where "APFS_HASH_SHA512_256 = 2"
definition APFS_HASH_SHA384 :: u32 where "APFS_HASH_SHA384 = 3"
definition APFS_HASH_SHA512 :: u32 where "APFS_HASH_SHA512 = 4"
definition APFS_HASH_MIN :: u32 where "APFS_HASH_MIN = APFS_HASH_SHA256"
definition APFS_HASH_MAX :: u32 where "APFS_HASH_MAX = APFS_HASH_SHA512"
definition APFS_HASH_DEFAULT :: u32 where "APFS_HASH_DEFAULT = APFS_HASH_SHA256"

definition APFS_HASH_CCSHA256_SIZE :: nat where "APFS_HASH_CCSHA256_SIZE = 32"
definition APFS_HASH_CCSHA512_256_SIZE :: nat where "APFS_HASH_CCSHA512_256_SIZE = 32"
definition APFS_HASH_CCSHA384_SIZE :: nat where "APFS_HASH_CCSHA384_SIZE = 48"
definition APFS_HASH_CCSHA512_SIZE :: nat where "APFS_HASH_CCSHA512_SIZE = 64"
definition APFS_HASH_MAX_SIZE :: nat where "APFS_HASH_MAX_SIZE = 64"

definition integrity_meta_phys_t :: ctype where
  "integrity_meta_phys_t = Struct
     [(''im_o'', obj_phys_t),
      (''im_version'', le_uint32_t),
      (''im_flags'', le_uint32_t),
      (''im_hash_type'', le_uint32_t),
      (''im_root_hash_offset'', le_uint32_t),
      (''im_broken_xid'', le_xid_t),
      (''im_reserved'', Array le_uint64_t 9)]"

definition fext_tree_key_t :: ctype where
  "fext_tree_key_t = Struct
     [(''private_id'', le_uint64_t),
      (''logical_addr'', le_uint64_t)]"

definition fext_tree_val_t :: ctype where
  "fext_tree_val_t = Struct
     [(''len_and_flags'', le_uint64_t),
      (''phys_block_num'', le_uint64_t)]"

definition j_file_info_key_t :: ctype where
  "j_file_info_key_t = Struct
     [(''hdr'', j_key_t),
      (''info_and_lba'', le_uint64_t)]"

definition J_FILE_INFO_LBA_MASK :: u64 where "J_FILE_INFO_LBA_MASK = 0x00FFFFFFFFFFFFFF"
definition J_FILE_INFO_TYPE_MASK :: u64 where "J_FILE_INFO_TYPE_MASK = 0xFF00000000000000"
definition J_FILE_INFO_TYPE_SHIFT :: nat where "J_FILE_INFO_TYPE_SHIFT = 56"

definition j_file_data_hash_val_t :: ctype where
  "j_file_data_hash_val_t = Struct
     [(''hashed_len'', le_uint16_t),
      (''hash_size'', U8),
      (''hash'', Array U8 0)]"

definition j_file_info_val_t :: ctype where
  "j_file_info_val_t = Struct
     [(''dhash'', Union [(''dhash'', j_file_data_hash_val_t)])]"

definition APFS_FILE_INFO_DATA_HASH :: u64 where "APFS_FILE_INFO_DATA_HASH = 1"

section \<open>Summary\<close>

lemmas trees_layouts =
  nloc_t_def btree_node_phys_t_def btree_info_fixed_t_def btree_info_t_def
  btn_index_node_val_t_def kvloc_t_def kvoff_t_def integrity_meta_phys_t_def
  fext_tree_key_t_def fext_tree_val_t_def j_file_info_key_t_def j_file_data_hash_val_t_def
  j_file_info_val_t_def
  BTREE_NODE_HASH_SIZE_MAX_def

definition trees_structs :: "(string \<times> ctype) list" where
  "trees_structs =
    [(''nloc_t'', nloc_t),
     (''btree_node_phys_t'', btree_node_phys_t),
     (''btree_info_fixed_t'', btree_info_fixed_t),
     (''btree_info_t'', btree_info_t),
     (''btn_index_node_val_t'', btn_index_node_val_t),
     (''kvloc_t'', kvloc_t),
     (''kvoff_t'', kvoff_t),
     (''integrity_meta_phys_t'', integrity_meta_phys_t),
     (''fext_tree_key_t'', fext_tree_key_t),
     (''fext_tree_val_t'', fext_tree_val_t),
     (''j_file_info_key_t'', j_file_info_key_t),
     (''j_file_data_hash_val_t'', j_file_data_hash_val_t),
     (''j_file_info_val_t'', j_file_info_val_t)]"

lemmas trees_names =
  records_names BTREE_NODE_HASH_SIZE_MAX_def

section \<open>Sizes\<close>

lemma nloc_t_size [simp]:
  "sizeof nloc_t = 4" "align_of nloc_t = 2" "natural_size nloc_t = 4"
  "natural_offsets 0 (struct_fields nloc_t) = packed_offsets 0 (struct_fields nloc_t)"
  by (simp_all add: nloc_t_def trees_names round_up_def del: suc_rules)

lemma btree_node_phys_t_size [simp]:
  "sizeof btree_node_phys_t = 56" "align_of btree_node_phys_t = 8" "natural_size btree_node_phys_t = 56"
  "natural_offsets 0 (struct_fields btree_node_phys_t) = packed_offsets 0 (struct_fields btree_node_phys_t)"
  by (simp_all add: btree_node_phys_t_def trees_names round_up_def del: suc_rules)

lemma btree_info_fixed_t_size [simp]:
  "sizeof btree_info_fixed_t = 16" "align_of btree_info_fixed_t = 4" "natural_size btree_info_fixed_t = 16"
  "natural_offsets 0 (struct_fields btree_info_fixed_t) = packed_offsets 0 (struct_fields btree_info_fixed_t)"
  by (simp_all add: btree_info_fixed_t_def trees_names round_up_def del: suc_rules)

lemma btree_info_t_size [simp]:
  "sizeof btree_info_t = 40" "align_of btree_info_t = 8" "natural_size btree_info_t = 40"
  "natural_offsets 0 (struct_fields btree_info_t) = packed_offsets 0 (struct_fields btree_info_t)"
  by (simp_all add: btree_info_t_def trees_names round_up_def del: suc_rules)

lemma btn_index_node_val_t_size [simp]:
  "sizeof btn_index_node_val_t = 72" "align_of btn_index_node_val_t = 8" "natural_size btn_index_node_val_t = 72"
  "natural_offsets 0 (struct_fields btn_index_node_val_t) = packed_offsets 0 (struct_fields btn_index_node_val_t)"
  by (simp_all add: btn_index_node_val_t_def trees_names round_up_def del: suc_rules)

lemma kvloc_t_size [simp]:
  "sizeof kvloc_t = 8" "align_of kvloc_t = 2" "natural_size kvloc_t = 8"
  "natural_offsets 0 (struct_fields kvloc_t) = packed_offsets 0 (struct_fields kvloc_t)"
  by (simp_all add: kvloc_t_def trees_names round_up_def del: suc_rules)

lemma kvoff_t_size [simp]:
  "sizeof kvoff_t = 4" "align_of kvoff_t = 2" "natural_size kvoff_t = 4"
  "natural_offsets 0 (struct_fields kvoff_t) = packed_offsets 0 (struct_fields kvoff_t)"
  by (simp_all add: kvoff_t_def trees_names round_up_def del: suc_rules)

lemma integrity_meta_phys_t_size [simp]:
  "sizeof integrity_meta_phys_t = 128" "align_of integrity_meta_phys_t = 8" "natural_size integrity_meta_phys_t = 128"
  "natural_offsets 0 (struct_fields integrity_meta_phys_t) = packed_offsets 0 (struct_fields integrity_meta_phys_t)"
  by (simp_all add: integrity_meta_phys_t_def trees_names round_up_def del: suc_rules)

lemma fext_tree_key_t_size [simp]:
  "sizeof fext_tree_key_t = 16" "align_of fext_tree_key_t = 8" "natural_size fext_tree_key_t = 16"
  "natural_offsets 0 (struct_fields fext_tree_key_t) = packed_offsets 0 (struct_fields fext_tree_key_t)"
  by (simp_all add: fext_tree_key_t_def trees_names round_up_def del: suc_rules)

lemma fext_tree_val_t_size [simp]:
  "sizeof fext_tree_val_t = 16" "align_of fext_tree_val_t = 8" "natural_size fext_tree_val_t = 16"
  "natural_offsets 0 (struct_fields fext_tree_val_t) = packed_offsets 0 (struct_fields fext_tree_val_t)"
  by (simp_all add: fext_tree_val_t_def trees_names round_up_def del: suc_rules)

lemma j_file_info_key_t_size [simp]:
  "sizeof j_file_info_key_t = 16" "align_of j_file_info_key_t = 8" "natural_size j_file_info_key_t = 16"
  "natural_offsets 0 (struct_fields j_file_info_key_t) = packed_offsets 0 (struct_fields j_file_info_key_t)"
  by (simp_all add: j_file_info_key_t_def trees_names round_up_def del: suc_rules)

lemma j_file_data_hash_val_t_size [simp]:
  "sizeof j_file_data_hash_val_t = 3" "align_of j_file_data_hash_val_t = 2" "natural_size j_file_data_hash_val_t = 4"
  "natural_offsets 0 (struct_fields j_file_data_hash_val_t) = packed_offsets 0 (struct_fields j_file_data_hash_val_t)"
  by (simp_all add: j_file_data_hash_val_t_def trees_names round_up_def del: suc_rules)

lemma j_file_info_val_t_size [simp]:
  "sizeof j_file_info_val_t = 3" "align_of j_file_info_val_t = 2" "natural_size j_file_info_val_t = 4"
  "natural_offsets 0 (struct_fields j_file_info_val_t) = packed_offsets 0 (struct_fields j_file_info_val_t)"
  by (simp_all add: j_file_info_val_t_def trees_names round_up_def del: suc_rules)

end
