(* ===== verification/APFS_Space.thy ===== *)
theory APFS_Space
  imports APFS_Trees
begin

text \<open>
  The space manager and the reaper.
\<close>

section \<open>Space manager\<close>

definition chunk_info_t :: ctype where
  "chunk_info_t = Struct
     [(''ci_xid'', le_uint64_t),
      (''ci_addr'', le_uint64_t),
      (''ci_block_count'', le_uint32_t),
      (''ci_free_count'', le_uint32_t),
      (''ci_bitmap_addr'', le_paddr_t)]"

definition chunk_info_block_t :: ctype where
  "chunk_info_block_t = Struct
     [(''cib_o'', obj_phys_t),
      (''cib_index'', le_uint32_t),
      (''cib_chunk_info_count'', le_uint32_t),
      (''cib_chunk_info'', Array chunk_info_t 0)]"

definition cib_addr_block_t :: ctype where
  "cib_addr_block_t = Struct
     [(''cab_o'', obj_phys_t),
      (''cab_index'', le_uint32_t),
      (''cab_cib_count'', le_uint32_t),
      (''cab_cib_addr'', Array le_paddr_t 0)]"

definition spaceman_free_queue_key_t :: ctype where
  "spaceman_free_queue_key_t = Struct
     [(''sfqk_xid'', le_xid_t),
      (''sfqk_paddr'', le_paddr_t)]"

definition spaceman_free_queue_val_t :: ctype where "spaceman_free_queue_val_t = le_uint64_t"

definition spaceman_free_queue_entry_t :: ctype where
  "spaceman_free_queue_entry_t = Struct
     [(''sfqe_key'', spaceman_free_queue_key_t),
      (''sfqe_count'', spaceman_free_queue_val_t)]"

definition spaceman_free_queue_t :: ctype where
  "spaceman_free_queue_t = Struct
     [(''sfq_count'', le_uint64_t),
      (''sfq_tree_oid'', le_oid_t),
      (''sfq_oldest_xid'', le_xid_t),
      (''sfq_tree_node_limit'', le_uint16_t),
      (''sfq_pad16'', le_uint16_t),
      (''sfq_pad32'', le_uint32_t),
      (''sfq_reserved'', le_uint64_t)]"

definition spaceman_device_t :: ctype where
  "spaceman_device_t = Struct
     [(''sm_block_count'', le_uint64_t),
      (''sm_chunk_count'', le_uint64_t),
      (''sm_cib_count'', le_uint32_t),
      (''sm_cab_count'', le_uint32_t),
      (''sm_free_count'', le_uint64_t),
      (''sm_addr_offset'', le_uint32_t),
      (''sm_reserved'', le_uint32_t),
      (''sm_reserved2'', le_uint64_t)]"

definition SM_ALLOCZONE_INVALID_END_BOUNDARY :: nat where "SM_ALLOCZONE_INVALID_END_BOUNDARY = 0"
definition SM_ALLOCZONE_NUM_PREVIOUS_BOUNDARIES :: nat where
  "SM_ALLOCZONE_NUM_PREVIOUS_BOUNDARIES =
     7"
definition SM_DATAZONE_ALLOCZONE_COUNT :: nat where "SM_DATAZONE_ALLOCZONE_COUNT = 8"

definition SFQ_IP :: nat where "SFQ_IP = 0"
definition SFQ_MAIN :: nat where "SFQ_MAIN = 1"
definition SFQ_TIER2 :: nat where "SFQ_TIER2 = 2"
definition SFQ_COUNT :: nat where "SFQ_COUNT = 3"

definition SD_MAIN :: nat where "SD_MAIN = 0"
definition SD_TIER2 :: nat where "SD_TIER2 = 1"
definition SD_COUNT :: nat where "SD_COUNT = 2"

definition spaceman_allocation_zone_boundaries_t :: ctype where
  "spaceman_allocation_zone_boundaries_t = Struct
     [(''saz_zone_start'', le_uint64_t),
      (''saz_zone_end'', le_uint64_t)]"

definition spaceman_allocation_zone_info_phys_t :: ctype where
  "spaceman_allocation_zone_info_phys_t = Struct
     [(''saz_current_boundaries'', spaceman_allocation_zone_boundaries_t),
      (''saz_previous_boundaries'', Array spaceman_allocation_zone_boundaries_t SM_ALLOCZONE_NUM_PREVIOUS_BOUNDARIES),
      (''saz_zone_id'', le_uint16_t),
      (''saz_previous_boundary_index'', le_uint16_t),
      (''saz_reserved'', le_uint32_t)]"

definition spaceman_datazone_info_phys_t :: ctype where
  "spaceman_datazone_info_phys_t = Struct
     [(''sdz_allocation_zones'', Array (Array spaceman_allocation_zone_info_phys_t SM_DATAZONE_ALLOCZONE_COUNT) SD_COUNT)]"

definition spaceman_phys_t :: ctype where
  "spaceman_phys_t = Struct
     [(''sm_o'', obj_phys_t),
      (''sm_block_size'', le_uint32_t),
      (''sm_blocks_per_chunk'', le_uint32_t),
      (''sm_chunks_per_cib'', le_uint32_t),
      (''sm_cibs_per_cab'', le_uint32_t),
      (''sm_dev'', Array spaceman_device_t SD_COUNT),
      (''sm_flags'', le_uint32_t),
      (''sm_ip_bm_tx_multiplier'', le_uint32_t),
      (''sm_ip_block_count'', le_uint64_t),
      (''sm_ip_bm_size_in_blocks'', le_uint32_t),
      (''sm_ip_bm_block_count'', le_uint32_t),
      (''sm_ip_bm_base'', le_paddr_t),
      (''sm_ip_base'', le_paddr_t),
      (''sm_fs_reserve_block_count'', le_uint64_t),
      (''sm_fs_reserve_alloc_count'', le_uint64_t),
      (''sm_fq'', Array spaceman_free_queue_t SFQ_COUNT),
      (''sm_ip_bm_free_head'', le_uint16_t),
      (''sm_ip_bm_free_tail'', le_uint16_t),
      (''sm_ip_bm_xid_offset'', le_uint32_t),
      (''sm_ip_bitmap_offset'', le_uint32_t),
      (''sm_ip_bm_free_next_offset'', le_uint32_t),
      (''sm_version'', le_uint32_t),
      (''sm_struct_size'', le_uint32_t),
      (''sm_datazone'', spaceman_datazone_info_phys_t)]"

definition SM_FLAG_VERSIONED :: u32 where "SM_FLAG_VERSIONED = 0x00000001"
definition CI_COUNT_MASK :: u32 where "CI_COUNT_MASK = 0x000FFFFF"
definition CI_COUNT_RESERVED_MASK :: u32 where "CI_COUNT_RESERVED_MASK = 0xFFF00000"
definition SPACEMAN_IP_BM_TX_MULTIPLIER :: u32 where "SPACEMAN_IP_BM_TX_MULTIPLIER = 16"
definition SPACEMAN_IP_BM_INDEX_INVALID :: u16 where "SPACEMAN_IP_BM_INDEX_INVALID = 0xFFFF"
definition SPACEMAN_IP_BM_BLOCK_COUNT_MAX :: u16 where "SPACEMAN_IP_BM_BLOCK_COUNT_MAX = 0xFFFE"

section \<open>Reaper\<close>

definition nx_reaper_phys_t :: ctype where
  "nx_reaper_phys_t = Struct
     [(''nr_o'', obj_phys_t),
      (''nr_next_reap_id'', le_uint64_t),
      (''nr_completed_id'', le_uint64_t),
      (''nr_head'', le_oid_t),
      (''nr_tail'', le_oid_t),
      (''nr_flags'', le_uint32_t),
      (''nr_rlcount'', le_uint32_t),
      (''nr_type'', le_uint32_t),
      (''nr_size'', le_uint32_t),
      (''nr_fs_oid'', le_oid_t),
      (''nr_oid'', le_oid_t),
      (''nr_xid'', le_xid_t),
      (''nr_nrle_flags'', le_uint32_t),
      (''nr_state_buffer_size'', le_uint32_t),
      (''nr_state_buffer'', Array U8 0)]"

definition nx_reap_list_entry_t :: ctype where
  "nx_reap_list_entry_t = Struct
     [(''nrle_next'', le_uint32_t),
      (''nrle_flags'', le_uint32_t),
      (''nrle_type'', le_uint32_t),
      (''nrle_size'', le_uint32_t),
      (''nrle_fs_oid'', le_oid_t),
      (''nrle_oid'', le_oid_t),
      (''nrle_xid'', le_xid_t)]"

definition nx_reap_list_phys_t :: ctype where
  "nx_reap_list_phys_t = Struct
     [(''nrl_o'', obj_phys_t),
      (''nrl_next'', le_oid_t),
      (''nrl_flags'', le_uint32_t),
      (''nrl_max'', le_uint32_t),
      (''nrl_count'', le_uint32_t),
      (''nrl_first'', le_uint32_t),
      (''nrl_last'', le_uint32_t),
      (''nrl_free'', le_uint32_t),
      (''nrl_entries'', Array nx_reap_list_entry_t 0)]"

definition APFS_REAP_PHASE_START :: u32 where "APFS_REAP_PHASE_START = 0"
definition APFS_REAP_PHASE_SNAPSHOTS :: u32 where "APFS_REAP_PHASE_SNAPSHOTS = 1"
definition APFS_REAP_PHASE_ACTIVE_FS :: u32 where "APFS_REAP_PHASE_ACTIVE_FS = 2"
definition APFS_REAP_PHASE_DESTROY_OMAP :: u32 where "APFS_REAP_PHASE_DESTROY_OMAP = 3"
definition APFS_REAP_PHASE_DONE :: u32 where "APFS_REAP_PHASE_DONE = 4"

definition NR_BHM_FLAG :: u32 where "NR_BHM_FLAG = 0x00000001"
definition NR_CONTINUE :: u32 where "NR_CONTINUE = 0x00000002"
definition NRLE_VALID :: u32 where "NRLE_VALID = 0x00000001"
definition NRLE_REAP_ID_RECORD :: u32 where "NRLE_REAP_ID_RECORD = 0x00000002"
definition NRLE_CALL :: u32 where "NRLE_CALL = 0x00000004"
definition NRLE_COMPLETION :: u32 where "NRLE_COMPLETION = 0x00000008"
definition NRLE_CLEANUP :: u32 where "NRLE_CLEANUP = 0x00000010"
definition NRL_INDEX_INVALID :: u32 where "NRL_INDEX_INVALID = 0xFFFFFFFF"

definition omap_reap_state_t :: ctype where
  "omap_reap_state_t = Struct
     [(''omr_phase'', le_uint32_t),
      (''omr_ok'', omap_key_t)]"

definition omap_cleanup_state_t :: ctype where
  "omap_cleanup_state_t = Struct
     [(''omc_cleaning'', le_uint32_t),
      (''omc_omsflags'', le_uint32_t),
      (''omc_sxidprev'', le_xid_t),
      (''omc_sxidstart'', le_xid_t),
      (''omc_sxidend'', le_xid_t),
      (''omc_sxidnext'', le_xid_t),
      (''omc_curkey'', omap_key_t)]"

definition apfs_reap_state_t :: ctype where
  "apfs_reap_state_t = Struct
     [(''last_pbn'', le_uint64_t),
      (''cur_snap_xid'', le_xid_t),
      (''phase'', le_uint32_t)]"

section \<open>Summary\<close>

lemmas space_layouts =
  chunk_info_t_def chunk_info_block_t_def cib_addr_block_t_def spaceman_free_queue_key_t_def
  spaceman_free_queue_val_t_def spaceman_free_queue_entry_t_def spaceman_free_queue_t_def
  spaceman_device_t_def spaceman_allocation_zone_boundaries_t_def
  spaceman_allocation_zone_info_phys_t_def spaceman_datazone_info_phys_t_def
  spaceman_phys_t_def nx_reaper_phys_t_def nx_reap_list_entry_t_def nx_reap_list_phys_t_def
  omap_reap_state_t_def omap_cleanup_state_t_def apfs_reap_state_t_def
  SD_COUNT_def SFQ_COUNT_def SM_ALLOCZONE_NUM_PREVIOUS_BOUNDARIES_def SM_DATAZONE_ALLOCZONE_COUNT_def

definition space_structs :: "(string \<times> ctype) list" where
  "space_structs =
    [(''chunk_info_t'', chunk_info_t),
     (''chunk_info_block_t'', chunk_info_block_t),
     (''cib_addr_block_t'', cib_addr_block_t),
     (''spaceman_free_queue_key_t'', spaceman_free_queue_key_t),
     (''spaceman_free_queue_entry_t'', spaceman_free_queue_entry_t),
     (''spaceman_free_queue_t'', spaceman_free_queue_t),
     (''spaceman_device_t'', spaceman_device_t),
     (''spaceman_allocation_zone_boundaries_t'', spaceman_allocation_zone_boundaries_t),
     (''spaceman_allocation_zone_info_phys_t'', spaceman_allocation_zone_info_phys_t),
     (''spaceman_datazone_info_phys_t'', spaceman_datazone_info_phys_t),
     (''spaceman_phys_t'', spaceman_phys_t),
     (''nx_reaper_phys_t'', nx_reaper_phys_t),
     (''nx_reap_list_entry_t'', nx_reap_list_entry_t),
     (''nx_reap_list_phys_t'', nx_reap_list_phys_t),
     (''omap_reap_state_t'', omap_reap_state_t),
     (''omap_cleanup_state_t'', omap_cleanup_state_t),
     (''apfs_reap_state_t'', apfs_reap_state_t)]"

lemmas space_names =
  trees_names spaceman_free_queue_val_t_def SD_COUNT_def SFQ_COUNT_def
  SM_ALLOCZONE_NUM_PREVIOUS_BOUNDARIES_def SM_DATAZONE_ALLOCZONE_COUNT_def

section \<open>Sizes\<close>

lemma chunk_info_t_size [simp]:
  "sizeof chunk_info_t = 32" "align_of chunk_info_t = 8" "natural_size chunk_info_t = 32"
  "natural_offsets 0 (struct_fields chunk_info_t) = packed_offsets 0 (struct_fields chunk_info_t)"
  by (simp_all add: chunk_info_t_def space_names round_up_def del: suc_rules)

lemma chunk_info_block_t_size [simp]:
  "sizeof chunk_info_block_t = 40" "align_of chunk_info_block_t = 8" "natural_size chunk_info_block_t = 40"
  "natural_offsets 0 (struct_fields chunk_info_block_t) = packed_offsets 0 (struct_fields chunk_info_block_t)"
  by (simp_all add: chunk_info_block_t_def space_names round_up_def del: suc_rules)

lemma cib_addr_block_t_size [simp]:
  "sizeof cib_addr_block_t = 40" "align_of cib_addr_block_t = 8" "natural_size cib_addr_block_t = 40"
  "natural_offsets 0 (struct_fields cib_addr_block_t) = packed_offsets 0 (struct_fields cib_addr_block_t)"
  by (simp_all add: cib_addr_block_t_def space_names round_up_def del: suc_rules)

lemma spaceman_free_queue_key_t_size [simp]:
  "sizeof spaceman_free_queue_key_t = 16" "align_of spaceman_free_queue_key_t = 8" "natural_size spaceman_free_queue_key_t = 16"
  "natural_offsets 0 (struct_fields spaceman_free_queue_key_t) = packed_offsets 0 (struct_fields spaceman_free_queue_key_t)"
  by (simp_all add: spaceman_free_queue_key_t_def space_names round_up_def del: suc_rules)

lemma spaceman_free_queue_entry_t_size [simp]:
  "sizeof spaceman_free_queue_entry_t = 24" "align_of spaceman_free_queue_entry_t = 8" "natural_size spaceman_free_queue_entry_t = 24"
  "natural_offsets 0 (struct_fields spaceman_free_queue_entry_t) = packed_offsets 0 (struct_fields spaceman_free_queue_entry_t)"
  by (simp_all add: spaceman_free_queue_entry_t_def space_names round_up_def del: suc_rules)

lemma spaceman_free_queue_t_size [simp]:
  "sizeof spaceman_free_queue_t = 40" "align_of spaceman_free_queue_t = 8" "natural_size spaceman_free_queue_t = 40"
  "natural_offsets 0 (struct_fields spaceman_free_queue_t) = packed_offsets 0 (struct_fields spaceman_free_queue_t)"
  by (simp_all add: spaceman_free_queue_t_def space_names round_up_def del: suc_rules)

lemma spaceman_device_t_size [simp]:
  "sizeof spaceman_device_t = 48" "align_of spaceman_device_t = 8" "natural_size spaceman_device_t = 48"
  "natural_offsets 0 (struct_fields spaceman_device_t) = packed_offsets 0 (struct_fields spaceman_device_t)"
  by (simp_all add: spaceman_device_t_def space_names round_up_def del: suc_rules)

lemma spaceman_allocation_zone_boundaries_t_size [simp]:
  "sizeof spaceman_allocation_zone_boundaries_t = 16" "align_of spaceman_allocation_zone_boundaries_t = 8" "natural_size spaceman_allocation_zone_boundaries_t = 16"
  "natural_offsets 0 (struct_fields spaceman_allocation_zone_boundaries_t) = packed_offsets 0 (struct_fields spaceman_allocation_zone_boundaries_t)"
  by (simp_all add: spaceman_allocation_zone_boundaries_t_def space_names round_up_def del: suc_rules)

lemma spaceman_allocation_zone_info_phys_t_size [simp]:
  "sizeof spaceman_allocation_zone_info_phys_t = 136" "align_of spaceman_allocation_zone_info_phys_t = 8" "natural_size spaceman_allocation_zone_info_phys_t = 136"
  "natural_offsets 0 (struct_fields spaceman_allocation_zone_info_phys_t) = packed_offsets 0 (struct_fields spaceman_allocation_zone_info_phys_t)"
  by (simp_all add: spaceman_allocation_zone_info_phys_t_def space_names round_up_def del: suc_rules)

lemma spaceman_datazone_info_phys_t_size [simp]:
  "sizeof spaceman_datazone_info_phys_t = 2176" "align_of spaceman_datazone_info_phys_t = 8" "natural_size spaceman_datazone_info_phys_t = 2176"
  "natural_offsets 0 (struct_fields spaceman_datazone_info_phys_t) = packed_offsets 0 (struct_fields spaceman_datazone_info_phys_t)"
  by (simp_all add: spaceman_datazone_info_phys_t_def space_names round_up_def del: suc_rules)

lemma spaceman_phys_t_size [simp]:
  "sizeof spaceman_phys_t = 2520" "align_of spaceman_phys_t = 8" "natural_size spaceman_phys_t = 2520"
  "natural_offsets 0 (struct_fields spaceman_phys_t) = packed_offsets 0 (struct_fields spaceman_phys_t)"
  by (simp_all add: spaceman_phys_t_def space_names round_up_def del: suc_rules)

lemma nx_reaper_phys_t_size [simp]:
  "sizeof nx_reaper_phys_t = 112" "align_of nx_reaper_phys_t = 8" "natural_size nx_reaper_phys_t = 112"
  "natural_offsets 0 (struct_fields nx_reaper_phys_t) = packed_offsets 0 (struct_fields nx_reaper_phys_t)"
  by (simp_all add: nx_reaper_phys_t_def space_names round_up_def del: suc_rules)

lemma nx_reap_list_entry_t_size [simp]:
  "sizeof nx_reap_list_entry_t = 40" "align_of nx_reap_list_entry_t = 8" "natural_size nx_reap_list_entry_t = 40"
  "natural_offsets 0 (struct_fields nx_reap_list_entry_t) = packed_offsets 0 (struct_fields nx_reap_list_entry_t)"
  by (simp_all add: nx_reap_list_entry_t_def space_names round_up_def del: suc_rules)

lemma nx_reap_list_phys_t_size [simp]:
  "sizeof nx_reap_list_phys_t = 64" "align_of nx_reap_list_phys_t = 8" "natural_size nx_reap_list_phys_t = 64"
  "natural_offsets 0 (struct_fields nx_reap_list_phys_t) = packed_offsets 0 (struct_fields nx_reap_list_phys_t)"
  by (simp_all add: nx_reap_list_phys_t_def space_names round_up_def del: suc_rules)

lemma omap_reap_state_t_size [simp]:
  "sizeof omap_reap_state_t = 20" "align_of omap_reap_state_t = 8" "natural_size omap_reap_state_t = 24"
  "natural_offsets 0 (struct_fields omap_reap_state_t) \<noteq> packed_offsets 0 (struct_fields omap_reap_state_t)"
  by (simp_all add: omap_reap_state_t_def space_names round_up_def del: suc_rules)

lemma omap_cleanup_state_t_size [simp]:
  "sizeof omap_cleanup_state_t = 56" "align_of omap_cleanup_state_t = 8" "natural_size omap_cleanup_state_t = 56"
  "natural_offsets 0 (struct_fields omap_cleanup_state_t) = packed_offsets 0 (struct_fields omap_cleanup_state_t)"
  by (simp_all add: omap_cleanup_state_t_def space_names round_up_def del: suc_rules)

lemma apfs_reap_state_t_size [simp]:
  "sizeof apfs_reap_state_t = 20" "align_of apfs_reap_state_t = 8" "natural_size apfs_reap_state_t = 24"
  "natural_offsets 0 (struct_fields apfs_reap_state_t) = packed_offsets 0 (struct_fields apfs_reap_state_t)"
  by (simp_all add: apfs_reap_state_t_def space_names round_up_def del: suc_rules)

end
