(* ===== verification/APFS_Crypto.thy ===== *)
theory APFS_Crypto
  imports APFS_Space
begin

text \<open>
  Encryption: crypto state, key bags, encryption rolling, and Fusion drives.
\<close>

section \<open>Crypto state and key bags\<close>

definition j_crypto_key_t :: ctype where
  "j_crypto_key_t = Struct
     [(''hdr'', j_key_t)]"

definition j_crypto_val_t :: ctype where
  "j_crypto_val_t = Struct
     [(''refcnt'', le_uint32_t),
      (''state'', wrapped_crypto_state_t)]"

definition CP_EFFECTIVE_CLASSMASK :: u32 where "CP_EFFECTIVE_CLASSMASK = 0x0000001F"
definition CP_IV_KEYSIZE :: nat where "CP_IV_KEYSIZE = 16"
definition CP_MAX_KEYSIZE :: nat where "CP_MAX_KEYSIZE = 32"
definition CP_MAX_CACHEBUFLEN :: nat where "CP_MAX_CACHEBUFLEN = 64"
definition CP_INITIAL_WRAPPEDKEYSIZE :: nat where "CP_INITIAL_WRAPPEDKEYSIZE = 40"
definition CP_V2_WRAPPEDKEYSIZE :: nat where "CP_V2_WRAPPEDKEYSIZE = 40"
definition CP_V4_RESERVEDBYTES :: nat where "CP_V4_RESERVEDBYTES = 16"
definition CP_MAX_WRAPPEDKEYSIZE :: nat where "CP_MAX_WRAPPEDKEYSIZE = 128"
definition CP_VERS_4 :: nat where "CP_VERS_4 = 4"
definition CP_VERS_5 :: nat where "CP_VERS_5 = 5"
definition CP_MINOR_VERS :: nat where "CP_MINOR_VERS = 0"
definition CP_CURRENT_VERS :: nat where "CP_CURRENT_VERS = CP_VERS_5"
definition PROTECTION_CLASS_DIR_NONE :: nat where "PROTECTION_CLASS_DIR_NONE = 0"
definition PROTECTION_CLASS_A :: nat where "PROTECTION_CLASS_A = 1"
definition PROTECTION_CLASS_B :: nat where "PROTECTION_CLASS_B = 2"
definition PROTECTION_CLASS_C :: nat where "PROTECTION_CLASS_C = 3"
definition PROTECTION_CLASS_D :: nat where "PROTECTION_CLASS_D = 4"
definition PROTECTION_CLASS_F :: nat where "PROTECTION_CLASS_F = 6"
definition CRYPTO_SW_ID :: nat where "CRYPTO_SW_ID = 4"
definition CRYPTO_VOLKEY_ID :: nat where "CRYPTO_VOLKEY_ID = 5"

definition keybag_entry_t :: ctype where
  "keybag_entry_t = Struct
     [(''ke_uuid'', apfs_uuid_t),
      (''ke_tag'', le_uint16_t),
      (''ke_keylen'', le_uint16_t),
      (''_padding_'', Array U8 4),
      (''ke_keydata'', Array U8 0)]"

definition kb_locker_t :: ctype where
  "kb_locker_t = Struct
     [(''kl_version'', le_uint16_t),
      (''kl_nkeys'', le_uint16_t),
      (''kl_nbytes'', le_uint32_t),
      (''_padding_'', Array U8 8),
      (''kl_entries'', Array U8 0)]"

definition mk_obj_t :: ctype where
  "mk_obj_t = Struct
     [(''o_cksum'', Array U8 (unat MAX_CKSUM_SIZE)),
      (''o_oid'', le_oid_t),
      (''o_xid'', le_xid_t),
      (''o_type'', le_uint32_t),
      (''o_subtype'', le_uint32_t)]"

definition media_keybag_t :: ctype where
  "media_keybag_t = Struct
     [(''mk_obj'', mk_obj_t),
      (''mk_locker'', kb_locker_t)]"

definition APFS_KEYBAG_VERSION :: u16 where "APFS_KEYBAG_VERSION = 2"
definition APFS_KEYBAG_OBJ :: u32 where "APFS_KEYBAG_OBJ = 0x6B657973"
definition APFS_VOL_KEYBAG_OBJ :: u32 where "APFS_VOL_KEYBAG_OBJ = 0x72656373"
definition APFS_VOL_KEYBAG_ENTRY_MAX_SIZE :: u16 where "APFS_VOL_KEYBAG_ENTRY_MAX_SIZE = 512"
definition APFS_ENTRY_ALIGN :: u16 where "APFS_ENTRY_ALIGN = 16"

definition KB_TAG_UNKNOWN :: u16 where "KB_TAG_UNKNOWN = 0"
definition KB_TAG_WRAPPING_KEY :: u16 where "KB_TAG_WRAPPING_KEY = 1"
definition KB_TAG_VOLUME_KEY :: u16 where "KB_TAG_VOLUME_KEY = 2"
definition KB_TAG_VOLUME_UNLOCK_RECORDS :: u16 where "KB_TAG_VOLUME_UNLOCK_RECORDS = 3"
definition KB_TAG_VOLUME_PASSPHRASE_HINT :: u16 where "KB_TAG_VOLUME_PASSPHRASE_HINT = 4"
definition KB_TAG_USER_PAYLOAD :: u16 where "KB_TAG_USER_PAYLOAD = 5"

section \<open>Encryption rolling\<close>

definition er_state_phys_header_t :: ctype where
  "er_state_phys_header_t = Struct
     [(''ersb_o'', obj_phys_t),
      (''ersb_magic'', le_uint32_t),
      (''ersb_version'', le_uint32_t)]"

definition er_state_phys_t :: ctype where
  "er_state_phys_t = Struct
     [(''ersb_header'', er_state_phys_header_t),
      (''ersb_flags'', le_uint64_t),
      (''ersb_snap_xid'', le_uint64_t),
      (''ersb_current_fext_obj_id'', le_uint64_t),
      (''ersb_file_offset'', le_uint64_t),
      (''ersb_progress'', le_uint64_t),
      (''ersb_total_blk_to_encrypt'', le_uint64_t),
      (''ersb_blockmap_oid'', le_oid_t),
      (''ersb_tidemark_obj_id'', le_uint64_t),
      (''ersb_recovery_extents_count'', le_uint64_t),
      (''ersb_recovery_list_oid'', le_oid_t),
      (''ersb_recovery_length'', le_uint64_t)]"

definition er_state_phys_v1_t :: ctype where
  "er_state_phys_v1_t = Struct
     [(''ersb_header'', er_state_phys_header_t),
      (''ersb_flags'', le_uint64_t),
      (''ersb_snap_xid'', le_uint64_t),
      (''ersb_current_fext_obj_id'', le_uint64_t),
      (''ersb_file_offset'', le_uint64_t),
      (''ersb_fext_pbn'', le_uint64_t),
      (''ersb_paddr'', le_uint64_t),
      (''ersb_progress'', le_uint64_t),
      (''ersb_total_blk_to_encrypt'', le_uint64_t),
      (''ersb_blockmap_oid'', le_uint64_t),
      (''ersb_checksum_count'', le_uint32_t),
      (''ersb_reserved'', le_uint32_t),
      (''ersb_fext_cid'', le_uint64_t),
      (''ersb_checksum'', Array U8 0)]"

definition ER_PHASE_OMAP_ROLL :: u32 where "ER_PHASE_OMAP_ROLL = 1"
definition ER_PHASE_DATA_ROLL :: u32 where "ER_PHASE_DATA_ROLL = 2"
definition ER_PHASE_SNAP_ROLL :: u32 where "ER_PHASE_SNAP_ROLL = 3"

definition er_recovery_block_phys_t :: ctype where
  "er_recovery_block_phys_t = Struct
     [(''erb_o'', obj_phys_t),
      (''erb_offset'', le_uint64_t),
      (''erb_next_oid'', le_oid_t),
      (''erb_data'', Array U8 0)]"

definition gbitmap_block_phys_t :: ctype where
  "gbitmap_block_phys_t = Struct
     [(''bmb_o'', obj_phys_t),
      (''bmb_field'', Array le_uint64_t 0)]"

definition gbitmap_phys_t :: ctype where
  "gbitmap_phys_t = Struct
     [(''bm_o'', obj_phys_t),
      (''bm_tree_oid'', le_oid_t),
      (''bm_bit_count'', le_uint64_t),
      (''bm_flags'', le_uint64_t)]"

definition ER_512B_BLOCKSIZE :: u32 where "ER_512B_BLOCKSIZE = 0"
definition ER_2KiB_BLOCKSIZE :: u32 where "ER_2KiB_BLOCKSIZE = 1"
definition ER_4KiB_BLOCKSIZE :: u32 where "ER_4KiB_BLOCKSIZE = 2"
definition ER_8KiB_BLOCKSIZE :: u32 where "ER_8KiB_BLOCKSIZE = 3"
definition ER_16KiB_BLOCKSIZE :: u32 where "ER_16KiB_BLOCKSIZE = 4"
definition ER_32KiB_BLOCKSIZE :: u32 where "ER_32KiB_BLOCKSIZE = 5"
definition ER_64KiB_BLOCKSIZE :: u32 where "ER_64KiB_BLOCKSIZE = 6"

definition ERSB_FLAG_ENCRYPTING :: u32 where "ERSB_FLAG_ENCRYPTING = 0x00000001"
definition ERSB_FLAG_DECRYPTING :: u32 where "ERSB_FLAG_DECRYPTING = 0x00000002"
definition ERSB_FLAG_KEYROLLING :: u32 where "ERSB_FLAG_KEYROLLING = 0x00000004"
definition ERSB_FLAG_PAUSED :: u32 where "ERSB_FLAG_PAUSED = 0x00000008"
definition ERSB_FLAG_FAILED :: u32 where "ERSB_FLAG_FAILED = 0x00000010"
definition ERSB_FLAG_CID_IS_TWEAK :: u32 where "ERSB_FLAG_CID_IS_TWEAK = 0x00000020"
definition ERSB_FLAG_FREE_1 :: u32 where "ERSB_FLAG_FREE_1 = 0x00000040"
definition ERSB_FLAG_FREE_2 :: u32 where "ERSB_FLAG_FREE_2 = 0x00000080"
definition ERSB_FLAG_CM_BLOCK_SIZE_MASK :: u32 where "ERSB_FLAG_CM_BLOCK_SIZE_MASK = 0x00000F00"
definition ERSB_FLAG_CM_BLOCK_SIZE_SHIFT :: nat where "ERSB_FLAG_CM_BLOCK_SIZE_SHIFT = 8"
definition ERSB_FLAG_ER_PHASE_MASK :: u32 where "ERSB_FLAG_ER_PHASE_MASK = 0x00003000"
definition ERSB_FLAG_ER_PHASE_SHIFT :: nat where "ERSB_FLAG_ER_PHASE_SHIFT = 12"
definition ERSB_FLAG_FROM_ONEKEY :: u32 where "ERSB_FLAG_FROM_ONEKEY = 0x00004000"
definition ER_CHECKSUM_LENGTH :: nat where "ER_CHECKSUM_LENGTH = 8"
definition ER_MAGIC :: u32 where "ER_MAGIC = 0x464C4142"
definition ER_VERSION :: u32 where "ER_VERSION = 1"
definition ER_MAX_CHECKSUM_COUNT_SHIFT :: nat where "ER_MAX_CHECKSUM_COUNT_SHIFT = 16"
definition ER_CUR_CHECKSUM_COUNT_MASK :: u32 where "ER_CUR_CHECKSUM_COUNT_MASK = 0x0000FFFF"

section \<open>Fusion drives\<close>

definition fusion_wbc_phys_t :: ctype where
  "fusion_wbc_phys_t = Struct
     [(''fwp_objHdr'', obj_phys_t),
      (''fwp_version'', le_uint64_t),
      (''fwp_listHeadOid'', le_oid_t),
      (''fwp_listTailOid'', le_oid_t),
      (''fwp_stableHeadOffset'', le_uint64_t),
      (''fwp_stableTailOffset'', le_uint64_t),
      (''fwp_listBlocksCount'', le_uint32_t),
      (''fwp_reserved'', le_uint32_t),
      (''fwp_usedByRC'', le_uint64_t),
      (''fwp_rcStash'', prange_t)]"

definition fusion_wbc_list_entry_t :: ctype where
  "fusion_wbc_list_entry_t = Struct
     [(''fwle_wbcLba'', le_paddr_t),
      (''fwle_targetLba'', le_paddr_t),
      (''fwle_length'', le_uint64_t)]"

definition fusion_wbc_list_phys_t :: ctype where
  "fusion_wbc_list_phys_t = Struct
     [(''fwlp_objHdr'', obj_phys_t),
      (''fwlp_version'', le_uint64_t),
      (''fwlp_tailOffset'', le_uint64_t),
      (''fwlp_indexBegin'', le_uint32_t),
      (''fwlp_indexEnd'', le_uint32_t),
      (''fwlp_indexMax'', le_uint32_t),
      (''fwlp_reserved'', le_uint32_t),
      (''fwlp_listEntries'', Array fusion_wbc_list_entry_t 0)]"

definition FUSION_TIER2_DEVICE_BYTE_ADDR :: u64 where
  "FUSION_TIER2_DEVICE_BYTE_ADDR =
     0x4000000000000000"

definition fusion_mt_key_t :: ctype where
  "fusion_mt_key_t = Struct
     [(''paddr'', le_paddr_t)]"

definition fusion_mt_val_t :: ctype where
  "fusion_mt_val_t = Struct
     [(''fmv_lba'', le_paddr_t),
      (''fmv_length'', le_uint32_t),
      (''fmv_flags'', le_uint32_t)]"

definition FUSION_MT_DIRTY :: u32 where "FUSION_MT_DIRTY = push_bit 0 1"
definition FUSION_MT_TENANT :: u32 where "FUSION_MT_TENANT = push_bit 1 1"

section \<open>Summary\<close>

lemmas crypto_layouts =
  j_crypto_key_t_def j_crypto_val_t_def keybag_entry_t_def kb_locker_t_def mk_obj_t_def
  media_keybag_t_def er_state_phys_header_t_def er_state_phys_t_def er_state_phys_v1_t_def
  er_recovery_block_phys_t_def gbitmap_block_phys_t_def gbitmap_phys_t_def
  fusion_wbc_phys_t_def fusion_wbc_list_entry_t_def fusion_wbc_list_phys_t_def
  fusion_mt_key_t_def fusion_mt_val_t_def

definition crypto_structs :: "(string \<times> ctype) list" where
  "crypto_structs =
    [(''j_crypto_key_t'', j_crypto_key_t),
     (''j_crypto_val_t'', j_crypto_val_t),
     (''keybag_entry_t'', keybag_entry_t),
     (''kb_locker_t'', kb_locker_t),
     (''mk_obj_t'', mk_obj_t),
     (''media_keybag_t'', media_keybag_t),
     (''er_state_phys_header_t'', er_state_phys_header_t),
     (''er_state_phys_t'', er_state_phys_t),
     (''er_state_phys_v1_t'', er_state_phys_v1_t),
     (''er_recovery_block_phys_t'', er_recovery_block_phys_t),
     (''gbitmap_block_phys_t'', gbitmap_block_phys_t),
     (''gbitmap_phys_t'', gbitmap_phys_t),
     (''fusion_wbc_phys_t'', fusion_wbc_phys_t),
     (''fusion_wbc_list_entry_t'', fusion_wbc_list_entry_t),
     (''fusion_wbc_list_phys_t'', fusion_wbc_list_phys_t),
     (''fusion_mt_key_t'', fusion_mt_key_t),
     (''fusion_mt_val_t'', fusion_mt_val_t)]"

lemmas crypto_names =
  space_names

section \<open>Sizes\<close>

lemma j_crypto_key_t_size [simp]:
  "sizeof j_crypto_key_t = 8" "align_of j_crypto_key_t = 8" "natural_size j_crypto_key_t = 8"
  "natural_offsets 0 (struct_fields j_crypto_key_t) = packed_offsets 0 (struct_fields j_crypto_key_t)"
  by (simp_all add: j_crypto_key_t_def crypto_names round_up_def del: suc_rules)

lemma j_crypto_val_t_size [simp]:
  "sizeof j_crypto_val_t = 24" "align_of j_crypto_val_t = 4" "natural_size j_crypto_val_t = 24"
  "natural_offsets 0 (struct_fields j_crypto_val_t) = packed_offsets 0 (struct_fields j_crypto_val_t)"
  by (simp_all add: j_crypto_val_t_def crypto_names round_up_def del: suc_rules)

lemma keybag_entry_t_size [simp]:
  "sizeof keybag_entry_t = 24" "align_of keybag_entry_t = 2" "natural_size keybag_entry_t = 24"
  "natural_offsets 0 (struct_fields keybag_entry_t) = packed_offsets 0 (struct_fields keybag_entry_t)"
  by (simp_all add: keybag_entry_t_def crypto_names round_up_def del: suc_rules)

lemma kb_locker_t_size [simp]:
  "sizeof kb_locker_t = 16" "align_of kb_locker_t = 4" "natural_size kb_locker_t = 16"
  "natural_offsets 0 (struct_fields kb_locker_t) = packed_offsets 0 (struct_fields kb_locker_t)"
  by (simp_all add: kb_locker_t_def crypto_names round_up_def del: suc_rules)

lemma mk_obj_t_size [simp]:
  "sizeof mk_obj_t = 32" "align_of mk_obj_t = 8" "natural_size mk_obj_t = 32"
  "natural_offsets 0 (struct_fields mk_obj_t) = packed_offsets 0 (struct_fields mk_obj_t)"
  by (simp_all add: mk_obj_t_def crypto_names round_up_def del: suc_rules)

lemma media_keybag_t_size [simp]:
  "sizeof media_keybag_t = 48" "align_of media_keybag_t = 8" "natural_size media_keybag_t = 48"
  "natural_offsets 0 (struct_fields media_keybag_t) = packed_offsets 0 (struct_fields media_keybag_t)"
  by (simp_all add: media_keybag_t_def crypto_names round_up_def del: suc_rules)

lemma er_state_phys_header_t_size [simp]:
  "sizeof er_state_phys_header_t = 40" "align_of er_state_phys_header_t = 8" "natural_size er_state_phys_header_t = 40"
  "natural_offsets 0 (struct_fields er_state_phys_header_t) = packed_offsets 0 (struct_fields er_state_phys_header_t)"
  by (simp_all add: er_state_phys_header_t_def crypto_names round_up_def del: suc_rules)

lemma er_state_phys_t_size [simp]:
  "sizeof er_state_phys_t = 128" "align_of er_state_phys_t = 8" "natural_size er_state_phys_t = 128"
  "natural_offsets 0 (struct_fields er_state_phys_t) = packed_offsets 0 (struct_fields er_state_phys_t)"
  by (simp_all add: er_state_phys_t_def crypto_names round_up_def del: suc_rules)

lemma er_state_phys_v1_t_size [simp]:
  "sizeof er_state_phys_v1_t = 128" "align_of er_state_phys_v1_t = 8" "natural_size er_state_phys_v1_t = 128"
  "natural_offsets 0 (struct_fields er_state_phys_v1_t) = packed_offsets 0 (struct_fields er_state_phys_v1_t)"
  by (simp_all add: er_state_phys_v1_t_def crypto_names round_up_def del: suc_rules)

lemma er_recovery_block_phys_t_size [simp]:
  "sizeof er_recovery_block_phys_t = 48" "align_of er_recovery_block_phys_t = 8" "natural_size er_recovery_block_phys_t = 48"
  "natural_offsets 0 (struct_fields er_recovery_block_phys_t) = packed_offsets 0 (struct_fields er_recovery_block_phys_t)"
  by (simp_all add: er_recovery_block_phys_t_def crypto_names round_up_def del: suc_rules)

lemma gbitmap_block_phys_t_size [simp]:
  "sizeof gbitmap_block_phys_t = 32" "align_of gbitmap_block_phys_t = 8" "natural_size gbitmap_block_phys_t = 32"
  "natural_offsets 0 (struct_fields gbitmap_block_phys_t) = packed_offsets 0 (struct_fields gbitmap_block_phys_t)"
  by (simp_all add: gbitmap_block_phys_t_def crypto_names round_up_def del: suc_rules)

lemma gbitmap_phys_t_size [simp]:
  "sizeof gbitmap_phys_t = 56" "align_of gbitmap_phys_t = 8" "natural_size gbitmap_phys_t = 56"
  "natural_offsets 0 (struct_fields gbitmap_phys_t) = packed_offsets 0 (struct_fields gbitmap_phys_t)"
  by (simp_all add: gbitmap_phys_t_def crypto_names round_up_def del: suc_rules)

lemma fusion_wbc_phys_t_size [simp]:
  "sizeof fusion_wbc_phys_t = 104" "align_of fusion_wbc_phys_t = 8" "natural_size fusion_wbc_phys_t = 104"
  "natural_offsets 0 (struct_fields fusion_wbc_phys_t) = packed_offsets 0 (struct_fields fusion_wbc_phys_t)"
  by (simp_all add: fusion_wbc_phys_t_def crypto_names round_up_def del: suc_rules)

lemma fusion_wbc_list_entry_t_size [simp]:
  "sizeof fusion_wbc_list_entry_t = 24" "align_of fusion_wbc_list_entry_t = 8" "natural_size fusion_wbc_list_entry_t = 24"
  "natural_offsets 0 (struct_fields fusion_wbc_list_entry_t) = packed_offsets 0 (struct_fields fusion_wbc_list_entry_t)"
  by (simp_all add: fusion_wbc_list_entry_t_def crypto_names round_up_def del: suc_rules)

lemma fusion_wbc_list_phys_t_size [simp]:
  "sizeof fusion_wbc_list_phys_t = 64" "align_of fusion_wbc_list_phys_t = 8" "natural_size fusion_wbc_list_phys_t = 64"
  "natural_offsets 0 (struct_fields fusion_wbc_list_phys_t) = packed_offsets 0 (struct_fields fusion_wbc_list_phys_t)"
  by (simp_all add: fusion_wbc_list_phys_t_def crypto_names round_up_def del: suc_rules)

lemma fusion_mt_key_t_size [simp]:
  "sizeof fusion_mt_key_t = 8" "align_of fusion_mt_key_t = 8" "natural_size fusion_mt_key_t = 8"
  "natural_offsets 0 (struct_fields fusion_mt_key_t) = packed_offsets 0 (struct_fields fusion_mt_key_t)"
  by (simp_all add: fusion_mt_key_t_def crypto_names round_up_def del: suc_rules)

lemma fusion_mt_val_t_size [simp]:
  "sizeof fusion_mt_val_t = 16" "align_of fusion_mt_val_t = 8" "natural_size fusion_mt_val_t = 16"
  "natural_offsets 0 (struct_fields fusion_mt_val_t) = packed_offsets 0 (struct_fields fusion_mt_val_t)"
  by (simp_all add: fusion_mt_val_t_def crypto_names round_up_def del: suc_rules)

end
