(* ===== verification/APFS_Format.thy ===== *)
theory APFS_Format
  imports APFS_Crypto
begin

text \<open>
  What the scanner uses of the layouts of \<open>include/apfs.h\<close>: the sizes of the structures and the
  offsets of the fields it reads, as numbers; the identifier of a key; and what holds for all the
  structures of the header.
\<close>

section \<open>Sizes and offsets\<close>

lemmas layout_defs = types_layouts objects_layouts volume_layouts records_layouts trees_layouts
  space_layouts crypto_layouts

lemmas structs_defs = types_structs_def objects_structs_def volume_structs_def records_structs_def
  trees_structs_def space_structs_def crypto_structs_def

lemma field_at_values [simp]:
  "field_at obj_phys_t ''o_cksum'' = 0"
  "field_at obj_phys_t ''o_xid'' = 16"
  "field_at obj_phys_t ''o_type'' = 24"
  "field_at nx_superblock_t ''nx_magic'' = 32"
  "field_at nx_superblock_t ''nx_block_size'' = 36"
  "field_at j_key_t ''obj_id_and_type'' = 0"
  "field_at j_inode_val_t ''parent_id'' = 0"
  "field_at j_inode_val_t ''xfields'' = 92"
  "field_at j_drec_hashed_key_t ''name'' = 12"
  "field_at j_drec_val_t ''file_id'' = 0"
  "field_at j_drec_val_t ''flags'' = 16"
  "field_at j_file_extent_key_t ''logical_addr'' = 8"
  "field_at j_file_extent_val_t ''len_and_flags'' = 0"
  "field_at j_file_extent_val_t ''phys_block_num'' = 8"
  "field_at j_dstream_t ''size'' = 0"
  "field_at xf_blob_t ''xf_num_exts'' = 0"
  "field_at xf_blob_t ''xf_data'' = 4"
  "field_at x_field_t ''x_type'' = 0"
  "field_at x_field_t ''x_size'' = 2"
  "field_at btree_node_phys_t ''btn_o'' = 0"
  "field_at btree_node_phys_t ''btn_flags'' = 32"
  "field_at btree_node_phys_t ''btn_nkeys'' = 36"
  "field_at btree_node_phys_t ''btn_table_space'' = 40"
  "field_at btree_info_t ''bt_fixed'' = 0"
  "field_at btree_info_fixed_t ''bt_key_size'' = 8"
  "field_at btree_info_fixed_t ''bt_val_size'' = 12"
  "field_at nloc_t ''off'' = 0"
  "field_at nloc_t ''len'' = 2"
  "field_at kvloc_t ''k'' = 0"
  "field_at kvloc_t ''v'' = 4"
  "field_at kvoff_t ''k'' = 0"
  "field_at kvoff_t ''v'' = 2"
  by (simp_all add: field_at_def layout_defs)

section \<open>Keys\<close>

definition APFS_TYPE_ID :: "u64 \<Rightarrow> u64 \<Rightarrow> u64" where
  "APFS_TYPE_ID t i = push_bit OBJ_TYPE_SHIFT t OR (i AND OBJ_ID_MASK)"

section \<open>All structures\<close>

definition apfs_structs :: "(string \<times> ctype) list" where
  "apfs_structs = types_structs @ objects_structs @ volume_structs @ records_structs @
     trees_structs @ space_structs @ crypto_structs"

end
