(* ===== verification/Std_Map.thy ===== *)
theory Std_Map
  imports SBB_Prelude
begin

text \<open>
  The part of \<open>std::map\<close> that the code uses: \<open>find\<close>, \<open>insert\<close> (which leaves an existing
  binding alone), replacing the value an iterator points to, and iteration in ascending
  key order. A map is its sequence of bindings in key order. The interface the clients
  rely on is the locale \<open>ordered_map\<close>; it is interpreted on the list model.
\<close>

type_synonym ('k, 'v) smap = "('k \<times> 'v) list"

definition smap_find :: "('k, 'v) smap \<Rightarrow> 'k \<Rightarrow> 'v option" where
  "smap_find m k = map_of m k"

text \<open>\<open>smap_set\<close> binds the key whether or not it is bound (\<open>it->second = v\<close>).\<close>

fun smap_set :: "'k::linorder \<Rightarrow> 'v \<Rightarrow> ('k, 'v) smap \<Rightarrow> ('k, 'v) smap" where
  "smap_set k v [] = [(k, v)]"
| "smap_set k v ((k', v') # m) =
     (if k < k' then (k, v) # (k', v') # m
      else if k = k' then (k, v) # m
      else (k', v') # smap_set k v m)"

definition smap_insert :: "'k::linorder \<Rightarrow> 'v \<Rightarrow> ('k, 'v) smap \<Rightarrow> ('k, 'v) smap" where
  "smap_insert k v m = (case smap_find m k of Some _ \<Rightarrow> m | None \<Rightarrow> smap_set k v m)"

definition smap_ok :: "('k::linorder, 'v) smap \<Rightarrow> bool" where
  "smap_ok m \<longleftrightarrow> sorted_wrt (<) (map fst m)"

section \<open>The contract\<close>

locale ordered_map =
  fixes find :: "'m \<Rightarrow> 'k::linorder \<Rightarrow> 'v option"
    and set_at :: "'k \<Rightarrow> 'v \<Rightarrow> 'm \<Rightarrow> 'm"
    and insert_new :: "'k \<Rightarrow> 'v \<Rightarrow> 'm \<Rightarrow> 'm"
    and bindings :: "'m \<Rightarrow> ('k \<times> 'v) list"
    and empty :: 'm
    and ok :: "'m \<Rightarrow> bool"
  assumes ok_empty: "ok empty"
    and find_empty: "find empty k = None"
    and ok_set: "ok m \<Longrightarrow> ok (set_at k v m)"
    and find_set: "find (set_at k v m) = (find m)(k \<mapsto> v)"
    and insert_eq: "insert_new k v m = (case find m k of Some _ \<Rightarrow> m | None \<Rightarrow> set_at k v m)"
    and bindings_sorted: "ok m \<Longrightarrow> sorted_wrt (<) (map fst (bindings m))"
    and bindings_find: "ok m \<Longrightarrow> (k, v) \<in> set (bindings m) \<longleftrightarrow> find m k = Some v"
begin

lemma ok_insert: "ok m \<Longrightarrow> ok (insert_new k v m)"
  by (simp add: insert_eq ok_set split: option.split)

lemma find_insert:
  "find (insert_new k v m) j =
     (if j = k then (case find m k of Some u \<Rightarrow> Some u | None \<Rightarrow> Some v) else find m j)"
  by (auto simp: insert_eq find_set split: option.split)

lemma find_insert_mono: "find m j = Some u \<Longrightarrow> find (insert_new k v m) j = Some u"
  by (auto simp: find_insert)

lemma bindings_distinct: "ok m \<Longrightarrow> distinct (map fst (bindings m))"
  using bindings_sorted strict_sorted_iff by blast

lemma keys_find: "ok m \<Longrightarrow> k \<in> fst ` set (bindings m) \<longleftrightarrow> find m k \<noteq> None"
  by (auto simp: bindings_find image_iff Bex_def)

end

section \<open>The list model keeps the contract\<close>

lemma fst_set_smap_set: "fst ` set (smap_set k v m) = insert k (fst ` set m)"
  by (induction k v m rule: smap_set.induct) auto

lemma smap_ok_Cons:
  "smap_ok ((k, v) # m) \<longleftrightarrow> smap_ok m \<and> (\<forall>j \<in> fst ` set m. k < j)"
  by (auto simp: smap_ok_def)

lemma smap_ok_set: "smap_ok m \<Longrightarrow> smap_ok (smap_set k v m)"
proof (induction k v m rule: smap_set.induct)
  case (1 k v)
  show ?case by (simp add: smap_ok_def)
next
  case (2 k v k' v' m)
  consider "k < k'" | "k = k'" | "k' < k" by force
  then show ?case
  proof cases
    case 1
    with "2.prems" show ?thesis by (auto simp: smap_ok_Cons)
  next
    case 2
    with "2.prems" show ?thesis by (simp add: smap_ok_Cons)
  next
    case 3
    then have "smap_ok (smap_set k v m)"
      using "2.IH" "2.prems" by (simp add: smap_ok_Cons)
    with 3 "2.prems" show ?thesis
      by (auto simp: smap_ok_Cons fst_set_smap_set)
  qed
qed

lemma smap_find_set: "smap_find (smap_set k v m) = (smap_find m)(k \<mapsto> v)"
  unfolding smap_find_def
  by (induction k v m rule: smap_set.induct) (auto simp: fun_eq_iff)

lemma smap_bindings: "smap_ok m \<Longrightarrow> (k, v) \<in> set m \<longleftrightarrow> smap_find m k = Some v"
  unfolding smap_ok_def smap_find_def
  by (simp add: strict_sorted_iff)

interpretation cmap: ordered_map smap_find smap_set smap_insert "\<lambda>m. m" "[]" smap_ok
  by unfold_locales
    (simp_all add: smap_find_set smap_ok_set smap_bindings smap_insert_def,
     simp_all add: smap_ok_def smap_find_def)

lemmas smap_rules = cmap.ok_empty cmap.ok_set cmap.ok_insert cmap.find_set cmap.find_insert

end
