(* ===== verification/Entry_Database.thy ===== *)
theory Entry_Database
  imports SBB_Prelude
begin

text \<open>
  The database interface. \<open>Geek::Core::Database\<close> and \<open>PreparedStatement\<close> belong to libgeek,
  which is not part of the repository, so the operations the code calls are a parameter of
  the model: a record \<open>database\<close> of functions on an abstract database state \<open>'d\<close> and
  abstract result rows \<open>'r\<close>. The SQL texts are those of \<open>src/libsbb/filesystem.cpp\<close>. What
  the code relies on (SQL's meaning of these statements) is the locale \<open>sql_store\<close>, stated
  over two views of the state: the entry table by its key \<open>inode\<close>, and the extent rows of
  an inode as a multiset, since SQL promises no order without \<open>ORDER BY\<close>. The theory ends
  with an in-memory database that satisfies the contract.
\<close>

section \<open>Values, rows and operations\<close>

datatype sql_value = SqlInt u64 | SqlText cpp_string

datatype column = Column1 string | Column3 string bool bool

record table =
  table_name :: string
  table_columns :: "column list"

record ('d, 'r) database =
  checkSchema :: "table list \<Rightarrow> 'd \<Rightarrow> bool \<times> 'd"
  db_execute :: "string \<Rightarrow> 'd \<Rightarrow> bool \<times> 'd"
  ps_execute :: "string \<Rightarrow> sql_value list \<Rightarrow> 'd \<Rightarrow> bool \<times> 'd"
  ps_query :: "string \<Rightarrow> sql_value list \<Rightarrow> 'd \<Rightarrow> bool \<times> 'r list"
  getInt64 :: "'r \<Rightarrow> nat \<Rightarrow> u64"
  getString :: "'r \<Rightarrow> nat \<Rightarrow> cpp_string"
  startTransaction :: "'d \<Rightarrow> 'd"
  endTransaction :: "'d \<Rightarrow> 'd"

text \<open>
  \<open>db_execute\<close> is \<open>Database::execute\<close>; \<open>ps_execute\<close> is \<open>prepareStatement\<close>, the \<open>bind\<close> calls
  in the order of their positions, and \<open>execute\<close>; \<open>ps_query\<close> is the same with \<open>executeQuery\<close>
  and then \<open>step\<close> until it returns false: the result of \<open>executeQuery\<close> and the rows.
\<close>

section \<open>The statements of the code\<close>

definition sql_create_parent_idx :: string where
  "sql_create_parent_idx = ''CREATE INDEX IF NOT EXISTS entry_parent_idx ON entry (parent_inode)''"

definition sql_create_extent_idx :: string where
  "sql_create_extent_idx = ''CREATE INDEX IF NOT EXISTS extent_inode_idx ON entry (inode)''"

definition sql_clear_entry :: string where
  "sql_clear_entry = ''DELETE FROM entry''"

definition sql_clear_extent :: string where
  "sql_clear_extent = ''DELETE FROM extent''"

definition sql_insert_entry :: string where
  "sql_insert_entry = ''INSERT INTO entry (inode, parent_inode, versionId, type, name, length, extentVersionId) values (?,?,?,?,?,?,?)''"

definition sql_update_entry :: string where
  "sql_update_entry = ''UPDATE entry SET parent_inode = ?, versionId = ?, type = ?, name = ?, length = ?, extentVersionId = ? WHERE inode = ?''"

definition sql_delete_extents :: string where
  "sql_delete_extents = ''DELETE FROM extent WHERE inode=?''"

definition sql_insert_extent :: string where
  "sql_insert_extent = ''INSERT INTO extent (inode, logical_address, physical_block, length) VALUES (?, ?, ?, ?)''"

definition sql_by_inode :: string where
  "sql_by_inode = ''SELECT inode, parent_inode, versionId, type, name, length, extentVersionId FROM entry WHERE inode=?''"

definition sql_by_parent :: string where
  "sql_by_parent = ''SELECT inode, parent_inode, versionId, type, name, length, extentVersionId FROM entry WHERE parent_inode=?''"

definition sql_by_name :: string where
  "sql_by_name = ''SELECT inode, parent_inode, versionId, type, name, length, extentVersionId FROM entry WHERE parent_inode=? AND name=?''"

definition sql_extents :: string where
  "sql_extents = ''SELECT logical_address, physical_block, length FROM extent WHERE inode=?''"

lemmas sql_defs =
  sql_create_parent_idx_def sql_create_extent_idx_def sql_clear_entry_def sql_clear_extent_def
  sql_insert_entry_def sql_update_entry_def sql_delete_extents_def sql_insert_extent_def
  sql_by_inode_def sql_by_parent_def sql_by_name_def sql_extents_def

lemma sql_distinct [simp]:
  "sql_create_extent_idx \<noteq> sql_create_parent_idx" "sql_clear_extent \<noteq> sql_clear_entry"
  "sql_create_parent_idx \<noteq> sql_clear_entry" "sql_create_extent_idx \<noteq> sql_clear_entry"
  "sql_create_parent_idx \<noteq> sql_clear_extent" "sql_create_extent_idx \<noteq> sql_clear_extent"
  "sql_update_entry \<noteq> sql_insert_entry" "sql_delete_extents \<noteq> sql_insert_entry"
  "sql_insert_extent \<noteq> sql_insert_entry" "sql_delete_extents \<noteq> sql_update_entry"
  "sql_insert_extent \<noteq> sql_update_entry" "sql_insert_extent \<noteq> sql_delete_extents"
  "sql_by_parent \<noteq> sql_by_inode" "sql_by_name \<noteq> sql_by_inode" "sql_extents \<noteq> sql_by_inode"
  "sql_by_name \<noteq> sql_by_parent" "sql_extents \<noteq> sql_by_parent" "sql_extents \<noteq> sql_by_name"
  by (simp_all add: sql_defs)

section \<open>The contract\<close>

text \<open>A row of the entry table, with the column values as 64-bit integers.\<close>

record entry_row =
  row_inode :: u64
  row_parent :: u64
  row_version :: u64
  row_type :: u64
  row_name :: cpp_string
  row_length :: u64
  row_extver :: u64

type_synonym extent_row = "u64 \<times> u64 \<times> u64"

definition read_entry_row :: "('d, 'r) database \<Rightarrow> 'r \<Rightarrow> entry_row" where
  "read_entry_row db r =
     \<lparr>row_inode = getInt64 db r 0, row_parent = getInt64 db r 1, row_version = getInt64 db r 2,
      row_type = getInt64 db r 3, row_name = getString db r 4, row_length = getInt64 db r 5,
      row_extver = getInt64 db r 6\<rparr>"

definition read_extent_row :: "('d, 'r) database \<Rightarrow> 'r \<Rightarrow> extent_row" where
  "read_extent_row db r = (getInt64 db r 0, getInt64 db r 1, getInt64 db r 2)"

definition insert_binding :: "entry_row \<Rightarrow> sql_value list" where
  "insert_binding r =
     [SqlInt (row_inode r), SqlInt (row_parent r), SqlInt (row_version r), SqlInt (row_type r),
      SqlText (row_name r), SqlInt (row_length r), SqlInt (row_extver r)]"

definition update_binding :: "entry_row \<Rightarrow> sql_value list" where
  "update_binding r =
     [SqlInt (row_parent r), SqlInt (row_version r), SqlInt (row_type r), SqlText (row_name r),
      SqlInt (row_length r), SqlInt (row_extver r), SqlInt (row_inode r)]"

definition extent_binding :: "u64 \<Rightarrow> extent_row \<Rightarrow> sql_value list" where
  "extent_binding i x = [SqlInt i, SqlInt (fst x), SqlInt (fst (snd x)), SqlInt (snd (snd x))]"

locale sql_store =
  fixes db :: "('d, 'r) database"
    and ents :: "'d \<Rightarrow> u64 \<rightharpoonup> entry_row"
    and exts :: "'d \<Rightarrow> u64 \<Rightarrow> extent_row multiset"
    and good :: "'d \<Rightarrow> bool"
  assumes key: "good d \<Longrightarrow> ents d i = Some r \<Longrightarrow> row_inode r = i"
    and finite_ents: "good d \<Longrightarrow> finite (dom (ents d))"
    and schema: "good d \<Longrightarrow> good (snd (checkSchema db ts d)) \<and>
      ents (snd (checkSchema db ts d)) = ents d \<and> exts (snd (checkSchema db ts d)) = exts d"
    and create_index: "good d \<Longrightarrow> q \<in> {sql_create_parent_idx, sql_create_extent_idx} \<Longrightarrow>
      good (snd (db_execute db q d)) \<and> ents (snd (db_execute db q d)) = ents d \<and>
      exts (snd (db_execute db q d)) = exts d"
    and clear_entry: "good d \<Longrightarrow> good (snd (db_execute db sql_clear_entry d)) \<and>
      ents (snd (db_execute db sql_clear_entry d)) = Map.empty \<and>
      exts (snd (db_execute db sql_clear_entry d)) = exts d"
    and clear_extent: "good d \<Longrightarrow> good (snd (db_execute db sql_clear_extent d)) \<and>
      ents (snd (db_execute db sql_clear_extent d)) = ents d \<and>
      exts (snd (db_execute db sql_clear_extent d)) = (\<lambda>_. {#})"
    and insert_entry: "good d \<Longrightarrow> ents d (row_inode r) = None \<Longrightarrow>
      good (snd (ps_execute db sql_insert_entry (insert_binding r) d)) \<and>
      ents (snd (ps_execute db sql_insert_entry (insert_binding r) d)) = (ents d)(row_inode r \<mapsto> r) \<and>
      exts (snd (ps_execute db sql_insert_entry (insert_binding r) d)) = exts d"
    and update_entry: "good d \<Longrightarrow>
      good (snd (ps_execute db sql_update_entry (update_binding r) d)) \<and>
      ents (snd (ps_execute db sql_update_entry (update_binding r) d)) =
        (case ents d (row_inode r) of None \<Rightarrow> ents d | Some _ \<Rightarrow> (ents d)(row_inode r \<mapsto> r)) \<and>
      exts (snd (ps_execute db sql_update_entry (update_binding r) d)) = exts d"
    and delete_extents: "good d \<Longrightarrow>
      good (snd (ps_execute db sql_delete_extents [SqlInt i] d)) \<and>
      ents (snd (ps_execute db sql_delete_extents [SqlInt i] d)) = ents d \<and>
      exts (snd (ps_execute db sql_delete_extents [SqlInt i] d)) = (exts d)(i := {#})"
    and insert_extent: "good d \<Longrightarrow>
      good (snd (ps_execute db sql_insert_extent (extent_binding i x) d)) \<and>
      ents (snd (ps_execute db sql_insert_extent (extent_binding i x) d)) = ents d \<and>
      exts (snd (ps_execute db sql_insert_extent (extent_binding i x) d)) =
        (exts d)(i := add_mset x (exts d i))"
    and query_inode: "good d \<Longrightarrow>
      map (read_entry_row db) (snd (ps_query db sql_by_inode [SqlInt i] d)) =
        (case ents d i of None \<Rightarrow> [] | Some r \<Rightarrow> [r])"
    and query_parent: "good d \<Longrightarrow> fst (ps_query db sql_by_parent [SqlInt p] d) \<and>
      mset (map (read_entry_row db) (snd (ps_query db sql_by_parent [SqlInt p] d))) =
        mset_set {r. ents d (row_inode r) = Some r \<and> row_parent r = p}"
    and query_name: "good d \<Longrightarrow> fst (ps_query db sql_by_name [SqlInt p, SqlText n] d) \<and>
      mset (map (read_entry_row db) (snd (ps_query db sql_by_name [SqlInt p, SqlText n] d))) =
        mset_set {r. ents d (row_inode r) = Some r \<and> row_parent r = p \<and> row_name r = n}"
    and query_extents: "good d \<Longrightarrow>
      mset (map (read_extent_row db) (snd (ps_query db sql_extents [SqlInt i] d))) = exts d i"
    and transaction: "good d \<Longrightarrow> good (startTransaction db d) \<and>
      ents (startTransaction db d) = ents d \<and> exts (startTransaction db d) = exts d \<and>
      good (endTransaction db d) \<and> ents (endTransaction db d) = ents d \<and>
      exts (endTransaction db d) = exts d"
begin

text \<open>The parts of the laws, as rewrite rules.\<close>

lemmas good_rules =
  schema [THEN conjunct1] create_index [THEN conjunct1] clear_entry [THEN conjunct1]
  clear_extent [THEN conjunct1] insert_entry [THEN conjunct1] update_entry [THEN conjunct1]
  delete_extents [THEN conjunct1] insert_extent [THEN conjunct1] transaction [THEN conjunct1]
  transaction [THEN conjunct2, THEN conjunct2, THEN conjunct2, THEN conjunct1]

lemmas ents_rules =
  schema [THEN conjunct2, THEN conjunct1] create_index [THEN conjunct2, THEN conjunct1]
  clear_entry [THEN conjunct2, THEN conjunct1] clear_extent [THEN conjunct2, THEN conjunct1]
  insert_entry [THEN conjunct2, THEN conjunct1] update_entry [THEN conjunct2, THEN conjunct1]
  delete_extents [THEN conjunct2, THEN conjunct1] insert_extent [THEN conjunct2, THEN conjunct1]
  transaction [THEN conjunct2, THEN conjunct1]
  transaction [THEN conjunct2, THEN conjunct2, THEN conjunct2, THEN conjunct2, THEN conjunct1]

lemmas exts_rules =
  schema [THEN conjunct2, THEN conjunct2] create_index [THEN conjunct2, THEN conjunct2]
  clear_entry [THEN conjunct2, THEN conjunct2] clear_extent [THEN conjunct2, THEN conjunct2]
  insert_entry [THEN conjunct2, THEN conjunct2] update_entry [THEN conjunct2, THEN conjunct2]
  delete_extents [THEN conjunct2, THEN conjunct2] insert_extent [THEN conjunct2, THEN conjunct2]
  transaction [THEN conjunct2, THEN conjunct2, THEN conjunct1]
  transaction [THEN conjunct2, THEN conjunct2, THEN conjunct2, THEN conjunct2, THEN conjunct2]

lemmas db_rules = good_rules ents_rules exts_rules

lemma finite_rows: "good d \<Longrightarrow> finite {r. ents d (row_inode r) = Some r \<and> P r}"
proof -
  assume d: "good d"
  have "{r. ents d (row_inode r) = Some r \<and> P r} \<subseteq> ran (ents d)"
    by (auto simp: ran_def)
  then show ?thesis using finite_ran [OF finite_ents [OF d]] by (rule finite_subset)
qed

lemma rows_by_parent:
  "good d \<Longrightarrow> read_entry_row db ` set (snd (ps_query db sql_by_parent [SqlInt p] d)) =
     {r. ents d (row_inode r) = Some r \<and> row_parent r = p}"
  using query_parent [of d p, THEN conjunct2, THEN arg_cong, of set_mset] finite_rows
  by (simp add: image_image)

lemma rows_by_name:
  "good d \<Longrightarrow> read_entry_row db ` set (snd (ps_query db sql_by_name [SqlInt p, SqlText n] d)) =
     {r. ents d (row_inode r) = Some r \<and> row_parent r = p \<and> row_name r = n}"
  using query_name [of d p n, THEN conjunct2, THEN arg_cong, of set_mset] finite_rows
  by (simp add: image_image)

end

section \<open>An in-memory database\<close>

text \<open>
  A database that keeps its two tables as lists of rows in insertion order, with \<open>inode\<close> as
  the key of the entry table (an insert with a key that is present fails and changes
  nothing). It shows that the contract can be met, and the closed examples run on it.
\<close>

record tables =
  entry_rows :: "entry_row list"
  extent_rows :: "(u64 \<times> extent_row) list"

definition no_tables :: tables where
  "no_tables = \<lparr>entry_rows = [], extent_rows = []\<rparr>"

definition mem_execute :: "string \<Rightarrow> tables \<Rightarrow> bool \<times> tables" where
  "mem_execute q d =
     (if q = sql_clear_entry then (True, d\<lparr>entry_rows := []\<rparr>)
      else if q = sql_clear_extent then (True, d\<lparr>extent_rows := []\<rparr>)
      else (True, d))"

fun mem_insert_entry :: "sql_value list \<Rightarrow> tables \<Rightarrow> bool \<times> tables" where
  "mem_insert_entry [SqlInt i, SqlInt p, SqlInt v, SqlInt t, SqlText n, SqlInt l, SqlInt x] d =
     (if i \<in> set (map row_inode (entry_rows d)) then (False, d)
      else (True, d\<lparr>entry_rows := entry_rows d @
        [\<lparr>row_inode = i, row_parent = p, row_version = v, row_type = t, row_name = n,
          row_length = l, row_extver = x\<rparr>]\<rparr>))"
| "mem_insert_entry _ d = (False, d)"

fun mem_update_entry :: "sql_value list \<Rightarrow> tables \<Rightarrow> bool \<times> tables" where
  "mem_update_entry [SqlInt p, SqlInt v, SqlInt t, SqlText n, SqlInt l, SqlInt x, SqlInt i] d =
     (True, d\<lparr>entry_rows := map (\<lambda>r. if row_inode r = i
        then \<lparr>row_inode = i, row_parent = p, row_version = v, row_type = t, row_name = n,
          row_length = l, row_extver = x\<rparr> else r) (entry_rows d)\<rparr>)"
| "mem_update_entry _ d = (False, d)"

fun mem_delete_extents :: "sql_value list \<Rightarrow> tables \<Rightarrow> bool \<times> tables" where
  "mem_delete_extents [SqlInt i] d =
     (True, d\<lparr>extent_rows := filter (\<lambda>x. fst x \<noteq> i) (extent_rows d)\<rparr>)"
| "mem_delete_extents _ d = (False, d)"

fun mem_insert_extent :: "sql_value list \<Rightarrow> tables \<Rightarrow> bool \<times> tables" where
  "mem_insert_extent [SqlInt i, SqlInt l, SqlInt b, SqlInt n] d =
     (True, d\<lparr>extent_rows := extent_rows d @ [(i, l, b, n)]\<rparr>)"
| "mem_insert_extent _ d = (False, d)"

definition mem_ps_execute :: "string \<Rightarrow> sql_value list \<Rightarrow> tables \<Rightarrow> bool \<times> tables" where
  "mem_ps_execute q bs d =
     (if q = sql_insert_entry then mem_insert_entry bs d
      else if q = sql_update_entry then mem_update_entry bs d
      else if q = sql_delete_extents then mem_delete_extents bs d
      else if q = sql_insert_extent then mem_insert_extent bs d
      else (False, d))"

definition mem_select :: "(entry_row \<Rightarrow> bool) \<Rightarrow> tables \<Rightarrow> sql_value list list" where
  "mem_select P d = map insert_binding (filter P (entry_rows d))"

definition mem_ps_query :: "string \<Rightarrow> sql_value list \<Rightarrow> tables \<Rightarrow> bool \<times> sql_value list list" where
  "mem_ps_query q bs d =
     (if q = sql_by_inode then (True, mem_select (\<lambda>r. bs = [SqlInt (row_inode r)]) d)
      else if q = sql_by_parent then (True, mem_select (\<lambda>r. bs = [SqlInt (row_parent r)]) d)
      else if q = sql_by_name then
        (True, mem_select (\<lambda>r. bs = [SqlInt (row_parent r), SqlText (row_name r)]) d)
      else if q = sql_extents then
        (True, map (\<lambda>x. [SqlInt (fst (snd x)), SqlInt (fst (snd (snd x))), SqlInt (snd (snd (snd x)))])
                 (filter (\<lambda>x. bs = [SqlInt (fst x)]) (extent_rows d)))
      else (False, []))"

definition mem_getInt64 :: "sql_value list \<Rightarrow> nat \<Rightarrow> u64" where
  "mem_getInt64 r k = (if k < length r then (case r ! k of SqlInt w \<Rightarrow> w | SqlText _ \<Rightarrow> 0) else 0)"

definition mem_getString :: "sql_value list \<Rightarrow> nat \<Rightarrow> cpp_string" where
  "mem_getString r k = (if k < length r then (case r ! k of SqlInt _ \<Rightarrow> [] | SqlText s \<Rightarrow> s) else [])"

definition mem_db :: "(tables, sql_value list) database" where
  "mem_db =
     \<lparr>checkSchema = (\<lambda>_ d. (True, d)), db_execute = mem_execute, ps_execute = mem_ps_execute,
      ps_query = mem_ps_query, getInt64 = mem_getInt64, getString = mem_getString,
      startTransaction = (\<lambda>d. d), endTransaction = (\<lambda>d. d)\<rparr>"

definition mem_ents :: "tables \<Rightarrow> u64 \<rightharpoonup> entry_row" where
  "mem_ents d = map_of (map (\<lambda>r. (row_inode r, r)) (entry_rows d))"

definition mem_exts :: "tables \<Rightarrow> u64 \<Rightarrow> extent_row multiset" where
  "mem_exts d i = mset (map snd (filter (\<lambda>x. fst x = i) (extent_rows d)))"

definition mem_good :: "tables \<Rightarrow> bool" where
  "mem_good d \<longleftrightarrow> distinct (map row_inode (entry_rows d))"

lemma mem_db_select [simp]:
  "checkSchema mem_db = (\<lambda>_ d. (True, d))" "db_execute mem_db = mem_execute"
  "ps_execute mem_db = mem_ps_execute" "ps_query mem_db = mem_ps_query"
  "getInt64 mem_db = mem_getInt64" "getString mem_db = mem_getString"
  "startTransaction mem_db = (\<lambda>d. d)" "endTransaction mem_db = (\<lambda>d. d)"
  by (simp_all add: mem_db_def)

lemmas mem_defs =
  mem_execute_def mem_ps_execute_def mem_ps_query_def mem_select_def
  mem_getInt64_def mem_getString_def

lemma read_mem_row: "read_entry_row mem_db (insert_binding r) = r"
  by (simp add: read_entry_row_def insert_binding_def mem_defs)

lemma mem_ents_key: "mem_ents d i = Some r \<Longrightarrow> row_inode r = i"
  by (auto simp: mem_ents_def dest!: map_of_SomeD)

lemma mem_ents_Some:
  "mem_good d \<Longrightarrow> mem_ents d i = Some r \<longleftrightarrow> r \<in> set (entry_rows d) \<and> row_inode r = i"
  by (auto simp: mem_ents_def mem_good_def comp_def image_iff)

lemma mem_ents_None: "mem_ents d i = None \<longleftrightarrow> i \<notin> row_inode ` set (entry_rows d)"
  by (force simp: mem_ents_def map_of_eq_None_iff)

lemma mem_ents_insert:
  "mem_ents d (row_inode r) = None \<Longrightarrow>
     map_of (map (\<lambda>r. (row_inode r, r)) (entry_rows d @ [r])) = (mem_ents d)(row_inode r \<mapsto> r)"
  by (auto simp: mem_ents_def fun_eq_iff map_add_def split: option.split)

lemma map_of_replace:
  "map_of (map (\<lambda>r. (row_inode r, r)) (map (\<lambda>s. if row_inode s = row_inode r then r else s) rs)) i =
     (if i = row_inode r then map_option (\<lambda>_. r) (map_of (map (\<lambda>r. (row_inode r, r)) rs) i)
      else map_of (map (\<lambda>r. (row_inode r, r)) rs) i)"
  by (induction rs) auto

lemma mem_select_rows:
  "mem_good d \<Longrightarrow> mset (map (read_entry_row mem_db) (mem_select P d)) =
     mset_set {r. mem_ents d (row_inode r) = Some r \<and> P r}"
proof -
  assume d: "mem_good d"
  then have dist: "distinct (filter P (entry_rows d))"
    by (simp add: mem_good_def distinct_map)
  have "map (read_entry_row mem_db) (mem_select P d) = filter P (entry_rows d)"
    by (simp add: mem_select_def comp_def read_mem_row)
  moreover have "{r. mem_ents d (row_inode r) = Some r \<and> P r} = set (filter P (entry_rows d))"
    using d by (auto simp: mem_ents_Some)
  ultimately show ?thesis using dist by (metis mset_set_set)
qed

lemma filter_by_key:
  "distinct (map row_inode rs) \<Longrightarrow> filter (\<lambda>r. row_inode r = i) rs =
     (case map_of (map (\<lambda>r. (row_inode r, r)) rs) i of None \<Rightarrow> [] | Some r \<Rightarrow> [r])"
proof (induction rs)
  case (Cons r rs)
  show ?case
  proof (cases "row_inode r = i")
    case True
    with Cons.prems have "filter (\<lambda>r. row_inode r = i) rs = []"
      by (auto simp: filter_empty_conv image_iff)
    with True show ?thesis by simp
  next
    case False
    with Cons show ?thesis by simp
  qed
qed simp

lemma mem_by_inode:
  "mem_good d \<Longrightarrow> filter (\<lambda>r. row_inode r = i) (entry_rows d) =
     (case mem_ents d i of None \<Rightarrow> [] | Some r \<Rightarrow> [r])"
  by (simp add: mem_good_def mem_ents_def filter_by_key)

lemma mem_insert_law:
  assumes "mem_good d" "mem_ents d (row_inode r) = None"
  shows "mem_insert_entry (insert_binding r) d = (True, d\<lparr>entry_rows := entry_rows d @ [r]\<rparr>)"
    and "mem_good (d\<lparr>entry_rows := entry_rows d @ [r]\<rparr>)"
  using assms by (simp_all add: insert_binding_def mem_ents_None mem_good_def)

lemma mem_update_law:
  "mem_update_entry (update_binding r) d =
     (True, d\<lparr>entry_rows := map (\<lambda>s. if row_inode s = row_inode r then r else s) (entry_rows d)\<rparr>)"
  by (simp add: update_binding_def cong: map_cong if_cong)

lemma mem_update_good:
  "mem_good d \<Longrightarrow>
     mem_good (d\<lparr>entry_rows := map (\<lambda>s. if row_inode s = row_inode r then r else s) (entry_rows d)\<rparr>)"
proof -
  have "map row_inode (map (\<lambda>s. if row_inode s = row_inode r then r else s) rs) = map row_inode rs" for rs
    by (induction rs) auto
  then show "mem_good d \<Longrightarrow> ?thesis" by (simp add: mem_good_def del: map_map)
qed

lemma filter_delete_other:
  "j \<noteq> i \<Longrightarrow> {#x \<in># m. fst x \<noteq> i \<and> fst x = j#} = {#x \<in># m. fst x = j#}"
  by (rule filter_mset_cong) auto

interpretation mem: sql_store mem_db mem_ents mem_exts mem_good
proof unfold_locales
  fix d i r assume "mem_good d" "mem_ents d i = Some r"
  then show "row_inode r = i" by (simp add: mem_ents_Some)
next
  fix d show "finite (dom (mem_ents d))" by (simp add: mem_ents_def finite_dom_map_of)
next
  fix d and r :: entry_row assume "mem_good d" "mem_ents d (row_inode r) = None"
  then show "mem_good (snd (ps_execute mem_db sql_insert_entry (insert_binding r) d)) \<and>
      mem_ents (snd (ps_execute mem_db sql_insert_entry (insert_binding r) d)) = (mem_ents d)(row_inode r \<mapsto> r) \<and>
      mem_exts (snd (ps_execute mem_db sql_insert_entry (insert_binding r) d)) = mem_exts d"
    using mem_insert_law [of d r] mem_ents_insert [of d r]
    by (simp add: mem_defs mem_ents_def mem_exts_def fun_eq_iff)
next
  fix d and r :: entry_row assume "mem_good d"
  then show "mem_good (snd (ps_execute mem_db sql_update_entry (update_binding r) d)) \<and>
      mem_ents (snd (ps_execute mem_db sql_update_entry (update_binding r) d)) =
        (case mem_ents d (row_inode r) of None \<Rightarrow> mem_ents d | Some _ \<Rightarrow> (mem_ents d)(row_inode r \<mapsto> r)) \<and>
      mem_exts (snd (ps_execute mem_db sql_update_entry (update_binding r) d)) = mem_exts d"
    using mem_update_good [of d r]
    by (auto simp: mem_defs mem_update_law mem_ents_def mem_exts_def fun_eq_iff map_of_replace
        simp del: map_map split: option.split)
next
  fix d i x assume "mem_good d"
  then show "mem_good (snd (ps_execute mem_db sql_insert_extent (extent_binding i x) d)) \<and>
      mem_ents (snd (ps_execute mem_db sql_insert_extent (extent_binding i x) d)) = mem_ents d \<and>
      mem_exts (snd (ps_execute mem_db sql_insert_extent (extent_binding i x) d)) =
        (mem_exts d)(i := add_mset x (mem_exts d i))"
    by (auto simp: mem_defs extent_binding_def mem_good_def mem_ents_def mem_exts_def fun_eq_iff)
next
  fix d i assume "mem_good d"
  then show "map (read_entry_row mem_db) (snd (ps_query mem_db sql_by_inode [SqlInt i] d)) =
        (case mem_ents d i of None \<Rightarrow> [] | Some r \<Rightarrow> [r])"
    using mem_by_inode [of d i]
    by (simp add: mem_ps_query_def mem_select_def comp_def eq_commute [of i] read_mem_row)
next
  fix d i
  have *: "read_extent_row mem_db \<circ> (\<lambda>x. [SqlInt (fst (snd x)), SqlInt (fst (snd (snd x))), SqlInt (snd (snd (snd x)))]) = snd"
    by (auto simp: read_extent_row_def mem_defs fun_eq_iff)
  show "mset (map (read_extent_row mem_db) (snd (ps_query mem_db sql_extents [SqlInt i] d))) = mem_exts d i"
    by (simp add: mem_ps_query_def mem_exts_def * eq_commute [of i] flip: mset_map)
next
  fix d i assume "mem_good d"
  then show "mem_good (snd (ps_execute mem_db sql_delete_extents [SqlInt i] d)) \<and>
      mem_ents (snd (ps_execute mem_db sql_delete_extents [SqlInt i] d)) = mem_ents d \<and>
      mem_exts (snd (ps_execute mem_db sql_delete_extents [SqlInt i] d)) = (mem_exts d)(i := {#})"
    by (auto simp: mem_defs mem_good_def mem_ents_def mem_exts_def fun_eq_iff filter_delete_other)
next
  fix d p assume "mem_good d"
  then show "fst (ps_query mem_db sql_by_parent [SqlInt p] d) \<and>
      mset (map (read_entry_row mem_db) (snd (ps_query mem_db sql_by_parent [SqlInt p] d))) =
        mset_set {r. mem_ents d (row_inode r) = Some r \<and> row_parent r = p}"
    using mem_select_rows [of d "\<lambda>r. row_parent r = p"]
    by (simp add: mem_ps_query_def eq_commute [of p])
next
  fix d p n assume "mem_good d"
  then show "fst (ps_query mem_db sql_by_name [SqlInt p, SqlText n] d) \<and>
      mset (map (read_entry_row mem_db) (snd (ps_query mem_db sql_by_name [SqlInt p, SqlText n] d))) =
        mset_set {r. mem_ents d (row_inode r) = Some r \<and> row_parent r = p \<and> row_name r = n}"
    using mem_select_rows [of d "\<lambda>r. row_parent r = p \<and> row_name r = n"]
    by (simp add: mem_ps_query_def eq_commute [of p] eq_commute [of n])
qed (auto simp: mem_defs mem_good_def mem_ents_def mem_exts_def fun_eq_iff)

end
