(* ===== verification/APFS_Scanner.thy ===== *)
theory APFS_Scanner
  imports Checksum APFS_Format File_System
begin

text \<open>
  The class \<open>APFSScanner\<close> of \<open>src/libsbb/apfsscanner.cpp\<close>: a block with a valid checksum is
  taken for the APFS object its header names. A container superblock sets the block size and
  the start of the container; a B-tree node is read as a list of file-system records, which
  are grouped by object and turned into entries of the \<open>FileSystem\<close>. The block is a list of
  bytes and every pointer of the code an offset into it, computed and followed as the code
  does, so an offset on disk that leaves the block is a fault of the model. The trace output
  under \<open>APFS_DEBUG\<close>, which is not defined, is left out.
\<close>

section \<open>State\<close>

record KeyValuePair =
  kv_key :: int
  valueLength :: int
  kv_value :: int

record TreeEntryValues =
  keyValues :: "KeyValuePair list"

record scanner =
  m_objId2inode :: "(u64, u64) smap"
  m_currentBlockSize :: u32
  m_fsOffset :: u64

definition new_scanner :: scanner where
  "new_scanner = \<lparr>m_objId2inode = [], m_currentBlockSize = 4096, m_fsOffset = 0\<rparr>"

definition NX_MAGIC_NO :: u32 where "NX_MAGIC_NO = 0x4253584e"

definition objId2inodeTable :: table where
  "objId2inodeTable =
     \<lparr>table_name = ''objid2inode'',
      table_columns = [Column3 ''obj_id'' True False, Column1 ''inode'']\<rparr>"

definition scanner_init :: "('d, 'r) database \<Rightarrow> 'd filesystem \<Rightarrow> bool \<times> 'd filesystem" where
  "scanner_init db fs =
     (let (ok, d) = checkSchema db [objId2inodeTable] (m_database fs)
      in (ok, fs\<lparr>m_database := d\<rparr>))"

section \<open>Inode records\<close>

text \<open>\<open>((field->x_size + 7) & ~7)\<close>, in \<open>int\<close>.\<close>

definition align8 :: "u16 \<Rightarrow> int" where
  "align8 x_size = sint ((ucast x_size + 7 :: u32) AND NOT 7)"

text \<open>
  The loop over the extended fields: the descriptors follow each other at \<open>field\<close>, the data of
  the current one is at \<open>xdataptr\<close>. The length is known (\<open>hasSize\<close>) when it is \<open>Some\<close>.
\<close>

fun scan_xfields :: "u8 list \<Rightarrow> int \<Rightarrow> nat \<Rightarrow> int \<Rightarrow> u64 option \<Rightarrow> u64 option res" where
  "scan_xfields mem field 0 xdataptr len = Inr len"
| "scan_xfields mem field (Suc n) xdataptr len =
     and_then (rd8 mem (field + field_at x_field_t ''x_type'')) (\<lambda>x_type.
     and_then
       (if x_type = INO_EXT_TYPE_DSTREAM
        then and_then (rd64 mem (xdataptr + field_at j_dstream_t ''size'')) (\<lambda>w. Inr (Some w))
        else Inr len) (\<lambda>len.
     and_then (rd16 mem (field + field_at x_field_t ''x_size'')) (\<lambda>x_size.
       scan_xfields mem (field + int (sizeof x_field_t)) n (xdataptr + align8 x_size) len)))"

definition inode_size :: "u8 list \<Rightarrow> int \<Rightarrow> int \<Rightarrow> u64 option res" where
  "inode_size mem vlen inodeVal =
     (let xfieldLength = vlen - int (sizeof j_inode_val_t)
      in if xfieldLength > int (sizeof xf_blob_t)
         then let blob = inodeVal + field_at j_inode_val_t ''xfields''
              in and_then (rd16 mem (blob + field_at xf_blob_t ''xf_num_exts'')) (\<lambda>num.
                   scan_xfields mem (blob + field_at xf_blob_t ''xf_data'') (unat num)
                     (inodeVal + field_at j_inode_val_t ''xfields'' + int (sizeof xf_blob_t)
                        + uint num * int (sizeof x_field_t)) None)
         else Inr None)"

text \<open>The transaction of the node that is being read.\<close>

definition node_xid :: "u8 list \<Rightarrow> int \<Rightarrow> u64 res" where
  "node_xid mem btreeNode =
     rd64 mem (btreeNode + field_at btree_node_phys_t ''btn_o'' + field_at obj_phys_t ''o_xid'')"

text \<open>The entry of an inode, or a new one for it.\<close>

definition find_or_new :: "('d, 'r) database \<Rightarrow> u64 \<Rightarrow> 'd filesystem \<Rightarrow> nat \<times> 'd filesystem" where
  "find_or_new db i fs =
     (case findByInode db i fs of
        (Some p, fs) \<Rightarrow> (p, fs)
      | (None, fs) \<Rightarrow> alloc (new_Entry\<lparr>inode := i\<rparr>) fs)"

definition scanInode ::
  "('d, 'r) database \<Rightarrow> u8 list \<Rightarrow> int \<Rightarrow> KeyValuePair \<Rightarrow> u64 \<Rightarrow> int \<Rightarrow> 'd filesystem
     \<Rightarrow> (nat \<times> 'd filesystem) res" where
  "scanInode db mem btreeNode pair valueId valPtr fs =
     (let inodeVal = valPtr;
          (fileEntry, fs) = find_or_new db valueId fs
      in and_then (inode_size mem (valueLength pair) inodeVal) (\<lambda>len.
         and_then (deref fs fileEntry) (\<lambda>e.
         and_then (node_xid mem btreeNode) (\<lambda>xid.
         and_then
           (if versionId e \<le> xid
            then and_then (rd64 mem (inodeVal + field_at j_inode_val_t ''parent_id'')) (\<lambda>parent.
                   let e = e\<lparr>parentId := parent, versionId := xid\<rparr>;
                       e = (case len of None \<Rightarrow> e | Some n \<Rightarrow> e\<lparr>entry_length := n\<rparr>)
                   in Inr (store fileEntry e fs))
            else Inr fs) (\<lambda>fs.
         and_then (updateEntry db fileEntry fs) (\<lambda>fs. Inr (fileEntry, fs)))))))"

section \<open>File extent records\<close>

definition scanFileExtent ::
  "('d, 'r) database \<Rightarrow> u8 list \<Rightarrow> int \<Rightarrow> nat option \<Rightarrow> int \<Rightarrow> int \<Rightarrow> 'd filesystem
     \<Rightarrow> 'd filesystem res" where
  "scanFileExtent db mem btreeNode fileEntry jKey valPtr fs =
     and_then (rd64 mem (valPtr + field_at j_file_extent_val_t ''len_and_flags'')) (\<lambda>len_and_flags.
     case fileEntry of
       None \<Rightarrow> Inr fs
     | Some p \<Rightarrow>
         and_then (deref fs p) (\<lambda>e.
         and_then (node_xid mem btreeNode) (\<lambda>xid.
           if extentVersionId e \<le> xid
           then
             let e = (if extentVersionId e < xid
                      then e\<lparr>extents := [], extentsUpdated := True, extentVersionId := xid\<rparr> else e)
             in and_then (rd64 mem (jKey + field_at j_file_extent_key_t ''logical_addr'')) (\<lambda>la.
                and_then (rd64 mem (valPtr + field_at j_file_extent_val_t ''phys_block_num'')) (\<lambda>pb.
                  let extent = \<lparr>logicalAddress = la, physicalBlock = pb,
                                extent_length = len_and_flags AND J_FILE_EXTENT_LEN_MASK\<rparr>;
                      e = e\<lparr>extents := extents e @ [extent], extentsUpdated := True\<rparr>
                  in updateEntry db p (store p e fs)))
           else Inr fs)))"

section \<open>Directory records\<close>

definition scanDirRec ::
  "('d, 'r) database \<Rightarrow> u8 list \<Rightarrow> int \<Rightarrow> nat option \<Rightarrow> int \<Rightarrow> int \<Rightarrow> 'd filesystem
     \<Rightarrow> 'd filesystem res" where
  "scanDirRec db mem btreeNode fileEntry jKey valPtr fs =
     and_then (rd64 mem (valPtr + field_at j_drec_val_t ''file_id'')) (\<lambda>file_id.
     let (childEntry, fs) = find_or_new db file_id fs
     in and_then (deref fs childEntry) (\<lambda>e.
        and_then (node_xid mem btreeNode) (\<lambda>xid.
        and_then
          (if versionId e \<le> xid
           then
             and_then
               (case fileEntry of
                  None \<Rightarrow> Inr e
                | Some p \<Rightarrow> and_then (deref fs p) (\<lambda>f. Inr (e\<lparr>parentId := inode f\<rparr>))) (\<lambda>e.
             and_then (rd_cstring mem (jKey + field_at j_drec_hashed_key_t ''name'')) (\<lambda>nam.
             and_then (rd16 mem (valPtr + field_at j_drec_val_t ''flags'')) (\<lambda>flags.
               Inr (store childEntry
                 (e\<lparr>entry_name := nam, versionId := xid,
                    entry_type := ucast flags AND DREC_TYPE_MASK\<rparr>) fs))))
           else Inr fs) (updateEntry db childEntry))))"

section \<open>B-tree nodes\<close>

text \<open>The values of a \<open>kvloc_t\<close>.\<close>

record kvloc =
  k_off :: u16
  k_len :: u16
  v_off :: u16
  v_len :: u16

text \<open>The table of contents of a node whose keys and values have a fixed size.\<close>

fun toc_fixed :: "u8 list \<Rightarrow> int \<Rightarrow> int \<Rightarrow> nat \<Rightarrow> kvloc list res" where
  "toc_fixed mem btreeInfo toc 0 = Inr []"
| "toc_fixed mem btreeInfo toc (Suc n) =
     and_then (rd16 mem (toc + field_at kvoff_t ''k'')) (\<lambda>k.
     and_then (rd32 mem (btreeInfo + field_at btree_info_t ''bt_fixed''
                           + field_at btree_info_fixed_t ''bt_key_size'')) (\<lambda>key_size.
     and_then (rd16 mem (toc + field_at kvoff_t ''v'')) (\<lambda>v.
     and_then (rd32 mem (btreeInfo + field_at btree_info_t ''bt_fixed''
                           + field_at btree_info_fixed_t ''bt_val_size'')) (\<lambda>val_size.
     and_then (toc_fixed mem btreeInfo (toc + int (sizeof kvoff_t)) n) (\<lambda>locs.
       Inr (\<lparr>k_off = k, k_len = ucast key_size, v_off = v, v_len = ucast val_size\<rparr> # locs))))))"

fun toc_variable :: "u8 list \<Rightarrow> int \<Rightarrow> nat \<Rightarrow> kvloc list res" where
  "toc_variable mem toc 0 = Inr []"
| "toc_variable mem toc (Suc n) =
     and_then (rd16 mem (toc + field_at kvloc_t ''k'' + field_at nloc_t ''off'')) (\<lambda>k.
     and_then (rd16 mem (toc + field_at kvloc_t ''k'' + field_at nloc_t ''len'')) (\<lambda>kl.
     and_then (rd16 mem (toc + field_at kvloc_t ''v'' + field_at nloc_t ''off'')) (\<lambda>v.
     and_then (rd16 mem (toc + field_at kvloc_t ''v'' + field_at nloc_t ''len'')) (\<lambda>vl.
     and_then (toc_variable mem (toc + int (sizeof kvloc_t)) n) (\<lambda>locs.
       Inr (\<lparr>k_off = k, k_len = kl, v_off = v, v_len = vl\<rparr> # locs))))))"

text \<open>The pointers to the key and the value of every item of the table of contents.\<close>

definition node_pairs :: "u32 \<Rightarrow> u8 list \<Rightarrow> KeyValuePair list res" where
  "node_pairs blockSize mem =
     (let btreeInfo = uint blockSize - int (sizeof btree_info_t);
          space = field_at btree_node_phys_t ''btn_table_space''
      in and_then (rd16 mem (space + field_at nloc_t ''off'')) (\<lambda>space_off.
         and_then (rd16 mem (space + field_at nloc_t ''len'')) (\<lambda>space_len.
         and_then (rd16 mem (field_at btree_node_phys_t ''btn_flags'')) (\<lambda>flags.
         and_then (rd32 mem (field_at btree_node_phys_t ''btn_nkeys'')) (\<lambda>nkeys.
           let keyBasePtr = int (sizeof btree_node_phys_t) + uint space_off + uint space_len;
               valBasePtr = (if flags AND BTNODE_ROOT \<noteq> 0 then uint blockSize - int (sizeof btree_info_t)
                             else uint blockSize);
               toc = int (sizeof btree_node_phys_t) + uint space_off
           in and_then
                (if flags AND BTNODE_FIXED_KV_SIZE \<noteq> 0 then toc_fixed mem btreeInfo toc (unat nkeys)
                 else toc_variable mem toc (unat nkeys)) (\<lambda>tableOfContents.
              Inr (map (\<lambda>loc. \<lparr>kv_key = keyBasePtr + uint (k_off loc), valueLength = uint (v_len loc),
                               kv_value = valBasePtr - uint (v_off loc)\<rparr>) tableOfContents)))))))"

definition key_word :: "u8 list \<Rightarrow> int \<Rightarrow> u64 res" where
  "key_word mem jKey = rd64 mem (jKey + field_at j_key_t ''obj_id_and_type'')"

definition obj_id :: "u64 \<Rightarrow> u64" where "obj_id w = w AND OBJ_ID_MASK"
definition obj_type :: "u64 \<Rightarrow> u64" where "obj_type w = drop_bit OBJ_TYPE_SHIFT w"

text \<open>One step of the loop that groups the items by their object.\<close>

definition group_pair ::
  "u8 list \<Rightarrow> KeyValuePair \<Rightarrow> (u64, u64) smap \<times> (u64, TreeEntryValues) smap
     \<Rightarrow> ((u64, u64) smap \<times> (u64, TreeEntryValues) smap) res" where
  "group_pair mem pair s =
     (let (objId2inode, entries) = s
      in and_then (key_word mem (kv_key pair)) (\<lambda>w.
         and_then
           (if obj_type w = APFS_TYPE_DIR_REC
            then and_then (rd64 mem (kv_value pair + field_at j_drec_val_t ''file_id'')) (\<lambda>file_id.
                   Inr (smap_insert (obj_id w) file_id objId2inode))
            else Inr objId2inode) (\<lambda>objId2inode.
         Inr (objId2inode,
           case smap_find entries (obj_id w) of
             None \<Rightarrow> smap_insert (obj_id w) \<lparr>keyValues = [pair]\<rparr> entries
           | Some vs \<Rightarrow> smap_set (obj_id w) \<lparr>keyValues = keyValues vs @ [pair]\<rparr> entries))))"

text \<open>One item of a group, with the entry of the group's inode record, if there was one.\<close>

definition scan_pair ::
  "('d, 'r) database \<Rightarrow> u8 list \<Rightarrow> int \<Rightarrow> KeyValuePair \<Rightarrow> nat option \<times> 'd filesystem
     \<Rightarrow> (nat option \<times> 'd filesystem) res" where
  "scan_pair db mem btreeNode pair s =
     (let (fileEntry, fs) = s; jKey = kv_key pair; valPtr = kv_value pair
      in and_then (key_word mem jKey) (\<lambda>w.
         if obj_type w = APFS_TYPE_ANY then Inr (fileEntry, fs)
         else if obj_type w = APFS_TYPE_INODE
         then and_then (scanInode db mem btreeNode pair (obj_id w) valPtr fs)
                (\<lambda>(p, fs). Inr (Some p, fs))
         else if obj_type w = APFS_TYPE_FILE_EXTENT
         then and_then (scanFileExtent db mem btreeNode fileEntry jKey valPtr fs)
                (\<lambda>fs. Inr (fileEntry, fs))
         else if obj_type w = APFS_TYPE_DIR_REC
         then and_then (scanDirRec db mem btreeNode fileEntry jKey valPtr fs)
                (\<lambda>fs. Inr (fileEntry, fs))
         else Inr (fileEntry, fs)))"

definition scan_group ::
  "('d, 'r) database \<Rightarrow> u8 list \<Rightarrow> int \<Rightarrow> KeyValuePair list \<Rightarrow> 'd filesystem \<Rightarrow> 'd filesystem res" where
  "scan_group db mem btreeNode pairs fs =
     and_then (for_each (scan_pair db mem btreeNode) pairs (None, fs)) (\<lambda>(fileEntry, fs).
       case fileEntry of None \<Rightarrow> Inr fs | Some p \<Rightarrow> updateEntry db p fs)"

definition scanBTreeBlock ::
  "('d, 'r) database \<Rightarrow> u8 list \<Rightarrow> scanner \<times> 'd filesystem \<Rightarrow> (scanner \<times> 'd filesystem) res" where
  "scanBTreeBlock db mem s =
     (let (sc, fs) = s
      in and_then (node_pairs (m_currentBlockSize sc) mem) (\<lambda>pairs.
         and_then (for_each (group_pair mem) pairs (m_objId2inode sc, [])) (\<lambda>(objId2inode, entries).
         and_then (for_each (\<lambda>entry. scan_group db mem 0 (keyValues (snd entry))) entries fs) (\<lambda>fs.
           Inr (sc\<lparr>m_objId2inode := objId2inode\<rparr>, fs)))))"

section \<open>Blocks\<close>

text \<open>The checksum test at the head of \<open>scanBlock\<close>.\<close>

definition block_valid :: "u32 \<Rightarrow> u8 list \<Rightarrow> bool res" where
  "block_valid blockSize mem =
     and_then (fletcher64 mem (uint MAX_CKSUM_SIZE) (ucast (ucast blockSize - MAX_CKSUM_SIZE))) (\<lambda>cksum.
     and_then (rd32 mem (field_at obj_phys_t ''o_type'')) (\<lambda>o_type.
       if o_type \<noteq> 0
       then and_then (rd64 mem (field_at obj_phys_t ''o_cksum'')) (\<lambda>o_cksum. Inr (cksum = o_cksum))
       else Inr False))"

definition scan_superblock :: "u64 \<Rightarrow> u8 list \<Rightarrow> scanner \<Rightarrow> scanner res" where
  "scan_superblock pos mem sc =
     and_then (rd32 mem (field_at nx_superblock_t ''nx_magic'')) (\<lambda>magic.
       if magic = NX_MAGIC_NO
       then and_then (rd32 mem (field_at nx_superblock_t ''nx_block_size'')) (\<lambda>block_size.
              let sc = sc\<lparr>m_currentBlockSize := block_size\<rparr>
              in Inr (if m_fsOffset sc = 0 then sc\<lparr>m_fsOffset := pos\<rparr> else sc))
       else Inr sc)"

definition scanBlock ::
  "('d, 'r) database \<Rightarrow> u64 \<Rightarrow> u8 list \<Rightarrow> scanner \<times> 'd filesystem
     \<Rightarrow> (scanner \<times> 'd filesystem) res" where
  "scanBlock db pos mem s =
     (let (sc, fs) = s
      in and_then (block_valid (m_currentBlockSize sc) mem) (\<lambda>valid.
         if valid
         then and_then (rd32 mem (field_at obj_phys_t ''o_type'')) (\<lambda>o_type.
           let t = o_type AND 0xffff
           in if t = OBJECT_TYPE_NX_SUPERBLOCK
              then and_then (scan_superblock pos mem sc) (\<lambda>sc. Inr (sc, fs))
              else if t = OBJECT_TYPE_BTREE_NODE \<or> t = OBJECT_TYPE_BTREE
              then scanBTreeBlock db mem (sc, fs)
              else Inr (sc, fs))
         else Inr (sc, fs)))"

end
