(* ===== verification/File_System_Inv.thy ===== *)
theory File_System_Inv
  imports File_System
begin

text \<open>
  The invariant of \<open>FileSystem\<close> and its abstract state. The catalog maps an inode to its row
  and the multiset of its extents; the lemmas, proved once under the database contract
  \<open>sql_store\<close>, say what each operation does to the catalog and that it keeps the invariant.
\<close>

section \<open>Abstract state and invariant\<close>

type_synonym catalog_entry = "entry_row \<times> extent_row multiset"
type_synonym catalog = "u64 \<rightharpoonup> catalog_entry"

definition abs_extents :: "Entry \<Rightarrow> extent_row multiset" where
  "abs_extents e = mset (map row_of_extent (extents e))"

definition abs_entry :: "Entry \<Rightarrow> catalog_entry" where
  "abs_entry e = (row_of e, abs_extents e)"

definition catalog_of ::
  "('d \<Rightarrow> u64 \<rightharpoonup> entry_row) \<Rightarrow> ('d \<Rightarrow> u64 \<Rightarrow> extent_row multiset) \<Rightarrow> 'd \<Rightarrow> catalog" where
  "catalog_of E X d i = map_option (\<lambda>r. (r, X d i)) (E d i)"

text \<open>A database state the program can have written: types fit an \<open>int\<close>, no stray extents.\<close>

definition db_inv ::
  "('d \<Rightarrow> u64 \<rightharpoonup> entry_row) \<Rightarrow> ('d \<Rightarrow> u64 \<Rightarrow> extent_row multiset) \<Rightarrow> ('d \<Rightarrow> bool) \<Rightarrow> 'd \<Rightarrow> bool" where
  "db_inv E X good d \<longleftrightarrow> good d \<and>
     (\<forall>i r. E d i = Some r \<longrightarrow> row_type r = scast (ucast (row_type r) :: u32)) \<and>
     (\<forall>i. E d i = None \<longrightarrow> X d i = {#})"

text \<open>
  \<open>fs_inv_but A\<close>: the objects at the addresses in \<open>A\<close> may have been changed since they were
  last written to the database; all other cached objects agree with it.
\<close>

definition settled :: "Entry \<Rightarrow> bool" where
  "settled e \<longleftrightarrow> \<not> isNew e \<and> \<not> extentsUpdated e"

definition fs_inv_but ::
  "nat set \<Rightarrow> ('d \<Rightarrow> u64 \<rightharpoonup> entry_row) \<Rightarrow> ('d \<Rightarrow> u64 \<Rightarrow> extent_row multiset) \<Rightarrow> ('d \<Rightarrow> bool)
     \<Rightarrow> 'd filesystem \<Rightarrow> bool" where
  "fs_inv_but A E X good fs \<longleftrightarrow>
     db_inv E X good (m_database fs) \<and>
     (\<forall>p. heap fs p \<noteq> None \<longrightarrow> p < next_ptr fs) \<and>
     smap_ok (m_diskEntries fs) \<and>
     (\<forall>i p. smap_find (m_diskEntries fs) i = Some p \<longrightarrow>
        (\<exists>e. heap fs p = Some e \<and> inode e = i \<and>
           (p \<notin> A \<longrightarrow> settled e \<and> catalog_of E X (m_database fs) i = Some (abs_entry e))))"

abbreviation fs_inv ::
  "('d \<Rightarrow> u64 \<rightharpoonup> entry_row) \<Rightarrow> ('d \<Rightarrow> u64 \<Rightarrow> extent_row multiset) \<Rightarrow> ('d \<Rightarrow> bool)
     \<Rightarrow> 'd filesystem \<Rightarrow> bool" where
  "fs_inv \<equiv> fs_inv_but {}"

text \<open>An object that is about to be stored: new and unknown, or cached under its inode.\<close>

definition pending ::
  "('d \<Rightarrow> u64 \<rightharpoonup> entry_row) \<Rightarrow> ('d \<Rightarrow> u64 \<Rightarrow> extent_row multiset) \<Rightarrow> 'd filesystem
     \<Rightarrow> nat \<Rightarrow> Entry \<Rightarrow> bool" where
  "pending E X fs p e \<longleftrightarrow>
     heap fs p = Some e \<and>
     (if isNew e
      then smap_find (m_diskEntries fs) (inode e) = None \<and> E (m_database fs) (inode e) = None
      else smap_find (m_diskEntries fs) (inode e) = Some p \<and> E (m_database fs) (inode e) \<noteq> None) \<and>
     (extentsUpdated e \<or> X (m_database fs) (inode e) = abs_extents e)"

text \<open>
  An object is at hand for inode \<open>i\<close>: it is cached and settled, and \<open>e\<close> is its content.
\<close>

definition at_hand :: "'d filesystem \<Rightarrow> u64 \<Rightarrow> nat \<Rightarrow> Entry \<Rightarrow> bool" where
  "at_hand fs i p e \<longleftrightarrow>
     smap_find (m_diskEntries fs) i = Some p \<and> heap fs p = Some e \<and> inode e = i"

lemma fs_inv_cached:
  assumes "fs_inv_but A E X good fs" "smap_find (m_diskEntries fs) i = Some p"
  obtains e where "heap fs p = Some e" "inode e = i"
  using assms unfolding fs_inv_but_def by metis

lemma fs_inv_settled:
  assumes "fs_inv_but A E X good fs" "smap_find (m_diskEntries fs) i = Some p" "p \<notin> A"
  obtains e where "heap fs p = Some e" "inode e = i" "settled e"
    "catalog_of E X (m_database fs) i = Some (abs_entry e)"
  using assms unfolding fs_inv_but_def by metis

lemma fs_inv_good: "fs_inv_but A E X good fs \<Longrightarrow> good (m_database fs)"
  by (simp add: fs_inv_but_def db_inv_def)

lemma at_hand_settled:
  assumes "fs_inv E X good fs" "at_hand fs i p e"
  shows "settled e" and "catalog_of E X (m_database fs) i = Some (abs_entry e)"
proof -
  from assms(2) have p: "smap_find (m_diskEntries fs) i = Some p" "heap fs p = Some e"
    by (simp_all add: at_hand_def)
  from assms(1) p(1) obtain e' where "heap fs p = Some e'" "settled e'"
    "catalog_of E X (m_database fs) i = Some (abs_entry e')"
    by (rule fs_inv_settled) simp
  with p(2) show "settled e" and "catalog_of E X (m_database fs) i = Some (abs_entry e)" by simp_all
qed

lemma type_round_trip: "(ucast (scast (t :: u32) :: u64) :: u32) = t"
  by (rule bit_word_eqI) (simp add: bit_ucast_iff bit_signed_iff)

lemma row_of_type: "row_type (row_of e) = scast (ucast (row_type (row_of e)) :: u32)"
  by (simp add: row_of_def type_round_trip)

lemma catalog_of_None: "catalog_of E X d i = None \<longleftrightarrow> E d i = None"
  by (simp add: catalog_of_def)

lemma row_inode_row_of [simp]: "row_inode (row_of e) = inode e"
  by (simp add: row_of_def)

section \<open>Paths in the catalog\<close>

text \<open>\<open>path_to c i ns k\<close>: from entry \<open>i\<close>, the names \<open>ns\<close> lead to entry \<open>k\<close>.\<close>

inductive path_to :: "catalog \<Rightarrow> u64 \<Rightarrow> cpp_string list \<Rightarrow> u64 \<Rightarrow> bool" where
  here: "path_to c i [] i"
| down: "c j = Some (r, x) \<Longrightarrow> row_parent r = i \<Longrightarrow> row_name r = n \<Longrightarrow> path_to c j ns k
    \<Longrightarrow> path_to c i (n # ns) k"

inductive_simps path_to_Nil [simp]: "path_to c i [] k"
inductive_simps path_to_Cons: "path_to c i (n # ns) k"

definition unique_names :: "catalog \<Rightarrow> bool" where
  "unique_names c \<longleftrightarrow>
     (\<forall>i j r x s y. c i = Some (r, x) \<longrightarrow> c j = Some (s, y) \<longrightarrow>
        row_parent r = row_parent s \<longrightarrow> row_name r = row_name s \<longrightarrow> i = j)"

lemma path_to_functional:
  assumes "unique_names c"
  shows "path_to c i ns k \<Longrightarrow> path_to c i ns l \<Longrightarrow> k = l"
proof (induction ns arbitrary: i)
  case (Cons n ns)
  from Cons.prems obtain j r x j' r' x' where
    j: "c j = Some (r, x)" "row_parent r = i" "row_name r = n" "path_to c j ns k" and
    j': "c j' = Some (r', x')" "row_parent r' = i" "row_name r' = n" "path_to c j' ns l"
    by (auto simp: path_to_Cons)
  with assms have "j = j'" unfolding unique_names_def by metis
  with j j' show ?case by (intro Cons.IH) simp_all
qed simp

text \<open>The outcome of looking a path up: an object that the path leads to, or no such entry.\<close>

definition resolves :: "catalog \<Rightarrow> u64 \<Rightarrow> cpp_string list \<Rightarrow> 'd filesystem \<Rightarrow> nat option \<Rightarrow> bool" where
  "resolves c i ns fs q \<longleftrightarrow>
     (case q of
        None \<Rightarrow> unique_names c \<longrightarrow> \<not> (\<exists>k. path_to c i ns k)
      | Some p \<Rightarrow> \<exists>e. heap fs p = Some e \<and> path_to c i ns (inode e) \<and>
          c (inode e) = Some (abs_entry e))"

lemma resolves_step:
  assumes j: "c j = Some (r, x)" "row_parent r = i" "row_name r = n" and res: "resolves c j ns fs q"
  shows "resolves c i (n # ns) fs q"
proof (cases q)
  case None
  have "\<not> (\<exists>k. path_to c i (n # ns) k)" if u: "unique_names c"
  proof
    assume "\<exists>k. path_to c i (n # ns) k"
    then obtain k l s y where l: "c l = Some (s, y)" "row_parent s = i" "row_name s = n" "path_to c l ns k"
      by (auto simp: path_to_Cons)
    with j u have "l = j" unfolding unique_names_def by metis
    with l res u None show False by (auto simp: resolves_def)
  qed
  with None show ?thesis by (simp add: resolves_def)
next
  case (Some p)
  with res j show ?thesis by (auto simp: resolves_def intro: path_to.down)
qed

text \<open>The calls \<open>dumpTree\<close> makes: from an entry to its children other than itself.\<close>

definition child_of :: "catalog \<Rightarrow> u64 \<Rightarrow> u64 \<Rightarrow> bool" where
  "child_of c i j \<longleftrightarrow> j \<noteq> i \<and> (\<exists>r x. c j = Some (r, x) \<and> row_parent r = i)"

text \<open>
  Whether \<open>n\<close> nested calls of \<open>dumpTree\<close> from entry \<open>i\<close> are too few: there is a chain of
  \<open>n\<close> calls, each on an entry that exists.
\<close>

fun runs_out :: "catalog \<Rightarrow> nat \<Rightarrow> u64 \<Rightarrow> bool" where
  "runs_out c 0 i = True"
| "runs_out c (Suc n) i = (i \<noteq> 0 \<and> c i \<noteq> None \<and> (\<exists>j. child_of c i j \<and> runs_out c n j))"

lemma runs_out_ranked:
  "(\<And>i j. child_of c i j \<Longrightarrow> rank j < (rank i :: nat)) \<Longrightarrow> rank i < n \<Longrightarrow> \<not> runs_out c n i"
proof (induction n arbitrary: i)
  case (Suc n)
  show ?case
  proof
    assume "runs_out c (Suc n) i"
    then obtain j where "child_of c i j" "runs_out c n j" by auto
    with Suc.IH [OF Suc.prems(1), of j] Suc.prems(1) [of i j] Suc.prems(2) show False by linarith
  qed
qed simp

text \<open>Only the entries below the starting point need a rank.\<close>

lemma runs_out_ranked_below:
  assumes "\<And>i j. (child_of c)\<^sup>*\<^sup>* r i \<Longrightarrow> child_of c i j \<Longrightarrow> rank j < (rank i :: nat)"
  shows "(child_of c)\<^sup>*\<^sup>* r i \<Longrightarrow> rank i < n \<Longrightarrow> \<not> runs_out c n i"
proof (induction n arbitrary: i)
  case (Suc n)
  show ?case
  proof
    assume "runs_out c (Suc n) i"
    then obtain j where j: "child_of c i j" "runs_out c n j" by auto
    have "(child_of c)\<^sup>*\<^sup>* r j" using Suc.prems(1) j(1) by (rule rtranclp.rtrancl_into_rtrancl)
    with Suc.IH [of j] j assms [OF Suc.prems(1) j(1)] Suc.prems(2) show False by linarith
  qed
qed simp

lemma runs_out_cycle:
  assumes "\<And>i. i \<in> S \<Longrightarrow> i \<noteq> 0 \<and> c i \<noteq> None \<and> (\<exists>j \<in> S. child_of c i j)"
  shows "i \<in> S \<Longrightarrow> runs_out c n i"
proof (induction n arbitrary: i)
  case (Suc n)
  with assms [OF Suc.prems] show ?case by auto
qed simp

text \<open>
  Every entry has one parent, so a cycle that can be reached from an entry contains it. In a finite
  catalog a chain of more calls than there are entries meets one entry twice.
\<close>

definition parent_of :: "catalog \<Rightarrow> (u64 \<times> u64) set" where
  "parent_of c = {(i, j). child_of c i j}"

lemma parent_of_unique: "(i, k) \<in> parent_of c \<Longrightarrow> (j, k) \<in> parent_of c \<Longrightarrow> i = j"
  by (auto simp: parent_of_def child_of_def)

lemma cycle_backwards:
  "(i, j) \<in> (parent_of c)\<^sup>* \<Longrightarrow> (j, j) \<in> (parent_of c)\<^sup>+ \<Longrightarrow> (i, i) \<in> (parent_of c)\<^sup>+"
proof (induction rule: rtrancl_induct)
  case (step y z)
  from step.prems obtain w where w: "(z, w) \<in> (parent_of c)\<^sup>*" "(w, z) \<in> parent_of c"
    by (auto dest: tranclD2)
  have "w = y" by (rule parent_of_unique [OF w(2) step.hyps(2)])
  with w(1) step.hyps(2) have "(y, y) \<in> (parent_of c)\<^sup>+" by (auto intro: rtrancl_into_trancl2)
  then show ?case by (rule step.IH)
qed simp

lemma runs_out_beyond:
  assumes "finite (dom c)" and acyclic: "(r, r) \<notin> (parent_of c)\<^sup>+"
    and "runs_out c n i" "(r, i) \<in> (parent_of c)\<^sup>*" "S \<subseteq> dom c" "\<And>s. s \<in> S \<Longrightarrow> (s, i) \<in> (parent_of c)\<^sup>+"
  shows "n + card S \<le> card (dom c)"
  using assms(3-6)
proof (induction n arbitrary: i S)
  case 0
  then show ?case using assms(1) by (simp add: card_mono)
next
  case (Suc n)
  from Suc.prems(1) obtain j where j: "c i \<noteq> None" "(i, j) \<in> parent_of c" "runs_out c n j"
    by (auto simp: parent_of_def)
  have "i \<notin> S" using Suc.prems(4) [of i] cycle_backwards [OF Suc.prems(2)] acyclic by blast
  moreover have "finite S" using Suc.prems(3) assms(1) by (rule finite_subset)
  moreover have "n + card (insert i S) \<le> card (dom c)"
  proof (rule Suc.IH [OF j(3)])
    show "(r, j) \<in> (parent_of c)\<^sup>*" using Suc.prems(2) j(2) by (rule rtrancl_into_rtrancl)
    show "insert i S \<subseteq> dom c" using Suc.prems(3) j(1) by auto
    show "(s, j) \<in> (parent_of c)\<^sup>+" if "s \<in> insert i S" for s
      using that Suc.prems(4) [of s] j(2) by (auto intro: trancl_into_trancl)
  qed
  ultimately show ?case by simp
qed

lemma runs_out_finite:
  assumes "finite (dom c)" "(r, r) \<notin> (parent_of c)\<^sup>+" "card (dom c) < n"
  shows "\<not> runs_out c n r"
  using runs_out_beyond [OF assms(1,2), of n r "{}"] assms(3) by auto

text \<open>The root is on no cycle when its own parent has no entry.\<close>

lemma root_not_on_cycle:
  assumes "c r = Some (row, x)" "c (row_parent row) = None"
  shows "(r, r) \<notin> (parent_of c)\<^sup>+"
proof
  assume "(r, r) \<in> (parent_of c)\<^sup>+"
  then obtain w where "(r, w) \<in> (parent_of c)\<^sup>*" "(w, r) \<in> parent_of c" by (auto dest: tranclD2)
  then have "(r, row_parent row) \<in> (parent_of c)\<^sup>*" using assms(1) by (auto simp: parent_of_def child_of_def)
  then show False
    by (rule rtranclE) (use assms in \<open>auto simp: parent_of_def child_of_def\<close>)
qed

section \<open>Facts about the heap\<close>

lemma deref_Inr: "deref fs p = Inr e \<longleftrightarrow> heap fs p = Some e"
  by (simp add: deref_def split: option.split)

lemma store_simps [simp]:
  "heap (store p e fs) = (heap fs)(p \<mapsto> e)" "next_ptr (store p e fs) = next_ptr fs"
  "m_diskEntries (store p e fs) = m_diskEntries fs" "m_database (store p e fs) = m_database fs"
  by (simp_all add: store_def)

lemma fs_inv_but_store:
  assumes "fs_inv_but A E X good fs" "heap fs p \<noteq> None"
    "\<And>i. smap_find (m_diskEntries fs) i = Some p \<Longrightarrow> inode e = i"
  shows "fs_inv_but (insert p A) E X good (store p e fs)"
  using assms unfolding fs_inv_but_def by auto

lemma fs_inv_replace:
  assumes "fs_inv E X good fs" "heap fs p = Some e" "abs_entry e' = abs_entry e" "settled e' = settled e"
  shows "fs_inv E X good (store p e' fs)"
proof -
  have "inode e' = inode e" using arg_cong [OF assms(3), of "row_inode \<circ> fst"] by (simp add: abs_entry_def)
  moreover have "settled e \<and> inode e = i \<and> catalog_of E X (m_database fs) i = Some (abs_entry e)"
    if "smap_find (m_diskEntries fs) i = Some p" for i
    using assms(1) that by (rule fs_inv_settled) (use assms(2) in simp_all)
  ultimately show ?thesis using assms unfolding fs_inv_but_def by auto
qed

text \<open>Lookups only add objects and cache bindings: nothing that was there changes.\<close>

definition extends :: "'d filesystem \<Rightarrow> 'd filesystem \<Rightarrow> bool" where
  "extends fs fs' \<longleftrightarrow> m_database fs' = m_database fs \<and> heap fs \<subseteq>\<^sub>m heap fs' \<and>
     smap_find (m_diskEntries fs) \<subseteq>\<^sub>m smap_find (m_diskEntries fs')"

lemma extends_refl [simp]: "extends fs fs"
  by (simp add: extends_def)

lemma extends_trans: "extends a b \<Longrightarrow> extends b c \<Longrightarrow> extends a c"
  by (auto simp: extends_def intro: map_le_trans)

lemma extends_heap: "extends fs fs' \<Longrightarrow> heap fs p = Some e \<Longrightarrow> heap fs' p = Some e"
  by (auto simp: extends_def map_le_def dom_def)

lemma extends_at_hand: "extends fs fs' \<Longrightarrow> at_hand fs i p e \<Longrightarrow> at_hand fs' i p e"
  by (auto simp: extends_def at_hand_def map_le_def dom_def)

section \<open>The operations under the database contract\<close>

context sql_store
begin

lemma catalog_insert_extents:
  "good d \<Longrightarrow> good (insert_extents db i xs d) \<and> ents (insert_extents db i xs d) = ents d \<and>
     exts (insert_extents db i xs d) = (exts d)(i := exts d i + mset (map row_of_extent xs))"
proof (induction xs arbitrary: d)
  case (Cons x xs)
  let ?d = "snd (ps_execute db sql_insert_extent (extent_binding i (row_of_extent x)) d)"
  have "insert_extents db i (x # xs) d = insert_extents db i xs ?d"
    by (simp add: insert_extents_def)
  moreover have "good ?d" "ents ?d = ents d" "exts ?d = (exts d)(i := add_mset (row_of_extent x) (exts d i))"
    using Cons.prems by (simp_all add: db_rules)
  ultimately show ?case using Cons.IH [of ?d] by (simp add: fun_eq_iff)
qed (simp add: insert_extents_def)

text \<open>The database after an entry has been written.\<close>

definition written :: "Entry \<Rightarrow> 'd \<Rightarrow> 'd \<Rightarrow> bool" where
  "written e d d' \<longleftrightarrow> good d' \<and> ents d' = (ents d)(inode e \<mapsto> row_of e) \<and>
     exts d' = (exts d)(inode e := abs_extents e)"

lemma written_db_inv: "db_inv ents exts good d \<Longrightarrow> written e d d' \<Longrightarrow> db_inv ents exts good d'"
  unfolding db_inv_def written_def using row_of_type by auto

lemma written_catalog:
  "written e d d' \<Longrightarrow> catalog_of ents exts d' = (catalog_of ents exts d)(inode e \<mapsto> abs_entry e)"
  by (auto simp: written_def catalog_of_def abs_entry_def fun_eq_iff)

text \<open>
  \<open>updateEntry\<close> on a pending object writes the row (by insert or update), replaces the
  extents if they changed, and leaves the object settled and cached.
\<close>

definition stored :: "nat \<Rightarrow> Entry \<Rightarrow> 'd filesystem \<Rightarrow> 'd filesystem \<Rightarrow> bool" where
  "stored p e fs fs' \<longleftrightarrow>
     heap fs' = (heap fs)(p \<mapsto> e\<lparr>isNew := False, extentsUpdated := False\<rparr>) \<and>
     next_ptr fs' = next_ptr fs \<and>
     m_diskEntries fs' =
       (if isNew e then smap_insert (inode e) p (m_diskEntries fs) else m_diskEntries fs) \<and>
     written e (m_database fs) (m_database fs')"

lemma updateEntry_stored:
  assumes good: "good (m_database fs)" and pend: "pending ents exts fs p e"
  obtains fs' where "updateEntry db p fs = Inr fs'" "stored p e fs fs'"
proof -
  let ?e = "e\<lparr>isNew := False\<rparr>"
  let ?m = "if isNew e then addEntry db p fs
     else Inr (fs\<lparr>m_database := snd (ps_execute db sql_update_entry (update_binding (row_of e)) (m_database fs))\<rparr>)"
  have p: "heap fs p = Some e" using pend by (simp add: pending_def)
  obtain fs1 where m: "?m = Inr fs1" and fs1: "heap fs1 = (heap fs)(p \<mapsto> ?e)"
    "next_ptr fs1 = next_ptr fs"
    "m_diskEntries fs1 = (if isNew e then smap_insert (inode e) p (m_diskEntries fs) else m_diskEntries fs)"
    and d1: "good (m_database fs1)" "ents (m_database fs1) = (ents (m_database fs))(inode e \<mapsto> row_of e)"
    "exts (m_database fs1) = exts (m_database fs)"
  proof (cases "isNew e")
    case True
    let ?fs = "store p ?e (fs\<lparr>m_diskEntries := smap_insert (inode e) p (m_diskEntries fs),
      m_database := snd (ps_execute db sql_insert_entry (insert_binding (row_of e)) (m_database fs))\<rparr>)"
    from True p good pend show thesis
      by (intro that [of ?fs]) (auto simp: addEntry_def deref_def Let_def pending_def db_rules)
  next
    case False
    then have "?e = e" by simp
    let ?fs = "fs\<lparr>m_database := snd (ps_execute db sql_update_entry (update_binding (row_of e)) (m_database fs))\<rparr>"
    from False p good pend \<open>?e = e\<close> show thesis
      by (intro that [of ?fs]) (auto simp: pending_def db_rules)
  qed
  show thesis
  proof (cases "extentsUpdated e")
    case True
    let ?d = "snd (ps_execute db sql_delete_extents [SqlInt (inode e)] (m_database fs1))"
    let ?fs = "store p (?e\<lparr>extentsUpdated := False\<rparr>) (fs1\<lparr>m_database := insert_extents db (inode e) (extents e) ?d\<rparr>)"
    have "updateEntry db p fs = Inr ?fs"
      using True p m fs1 by (simp add: updateEntry_def deref_def Let_def)
    moreover have "stored p e fs ?fs"
      using fs1 d1 catalog_insert_extents [of ?d]
      by (simp add: stored_def written_def db_rules abs_extents_def)
    ultimately show thesis by (rule that)
  next
    case False
    then have "updateEntry db p fs = Inr fs1"
      using p m fs1 by (simp add: updateEntry_def deref_def)
    moreover have "stored p e fs fs1"
      using False fs1 d1 pend by (auto simp: stored_def written_def pending_def)
    ultimately show thesis by (rule that)
  qed
qed

text \<open>Storing restores the invariant and is an update of the catalog.\<close>

lemma stored_inv:
  assumes inv: "fs_inv_but {p} ents exts good fs" and pend: "pending ents exts fs p e"
    and st: "stored p e fs fs'"
  shows "fs_inv ents exts good fs'"
    and "catalog_of ents exts (m_database fs') = (catalog_of ents exts (m_database fs))(inode e \<mapsto> abs_entry e)"
    and "at_hand fs' (inode e) p (e\<lparr>isNew := False, extentsUpdated := False\<rparr>)"
proof -
  let ?e = "e\<lparr>isNew := False, extentsUpdated := False\<rparr>"
  note st' = st [unfolded stored_def]
  have w: "written e (m_database fs) (m_database fs')" using st' by simp
  show cat: "catalog_of ents exts (m_database fs') = (catalog_of ents exts (m_database fs))(inode e \<mapsto> abs_entry e)"
    by (rule written_catalog [OF w])
  have abs: "abs_entry ?e = abs_entry e" by (simp add: abs_entry_def abs_extents_def row_of_def)
  have find: "smap_find (m_diskEntries fs') = (smap_find (m_diskEntries fs))(inode e \<mapsto> p)"
    using st' pend by (auto simp: pending_def cmap.find_insert fun_eq_iff split: if_splits)
  show "at_hand fs' (inode e) p ?e" using st' find by (simp add: at_hand_def)
  have only: "i = inode e" if "smap_find (m_diskEntries fs) i = Some p" for i
    using inv that by (rule fs_inv_cached) (use pend in \<open>simp add: pending_def\<close>)
  have cached: "\<exists>f. heap fs' q = Some f \<and> inode f = i \<and> settled f \<and>
      catalog_of ents exts (m_database fs') i = Some (abs_entry f)"
    if q: "smap_find (m_diskEntries fs') i = Some q" for i q
  proof (cases "i = inode e")
    case True
    with q find have "q = p" by simp
    with True st' show ?thesis by (simp add: cat settled_def abs)
  next
    case False
    with q find have "smap_find (m_diskEntries fs) i = Some q" by simp
    moreover with only False have "q \<noteq> p" by blast
    ultimately obtain f where "heap fs q = Some f" "inode f = i" "settled f"
      "catalog_of ents exts (m_database fs) i = Some (abs_entry f)"
      using inv by (elim fs_inv_settled) simp_all
    with \<open>q \<noteq> p\<close> False st' show ?thesis by (simp add: cat)
  qed
  have "db_inv ents exts good (m_database fs')"
    using inv w by (auto simp: fs_inv_but_def intro: written_db_inv)
  moreover have "\<forall>q. heap fs' q \<noteq> None \<longrightarrow> q < next_ptr fs'"
    using inv st' pend by (auto simp: fs_inv_but_def pending_def)
  moreover have "smap_ok (m_diskEntries fs')"
    using inv st' by (auto simp: fs_inv_but_def cmap.ok_insert)
  ultimately show "fs_inv ents exts good fs'" using cached by (simp add: fs_inv_but_def)
qed

lemma updateEntry_spec:
  assumes "fs_inv_but {p} ents exts good fs" "pending ents exts fs p e"
  obtains fs' where "updateEntry db p fs = Inr fs'" "fs_inv ents exts good fs'"
    "catalog_of ents exts (m_database fs') = (catalog_of ents exts (m_database fs))(inode e \<mapsto> abs_entry e)"
    "at_hand fs' (inode e) p (e\<lparr>isNew := False, extentsUpdated := False\<rparr>)"
proof -
  obtain fs' where "updateEntry db p fs = Inr fs'" "stored p e fs fs'"
    using fs_inv_good [OF assms(1)] assms(2) by (rule updateEntry_stored)
  with stored_inv [OF assms] show thesis by (intro that)
qed

text \<open>An entry read from the database agrees with its row and its extents.\<close>

definition loaded :: "'d filesystem \<Rightarrow> nat \<Rightarrow> entry_row \<Rightarrow> bool" where
  "loaded fs p R \<longleftrightarrow> (\<exists>e. heap fs p = Some e \<and> inode e = row_inode R \<and> settled e \<and>
     abs_entry e = (R, exts (m_database fs) (row_inode R)))"

lemma extends_loaded: "extends fs fs' \<Longrightarrow> loaded fs p R \<Longrightarrow> loaded fs' p R"
  by (auto simp: loaded_def extends_def map_le_def dom_def)

lemma read_extents_abs:
  "good d \<Longrightarrow> mset (map row_of_extent (read_extents db i d)) = exts d i"
proof -
  assume "good d"
  have "map row_of_extent (read_extents db i d) = map (read_extent_row db) (snd (ps_query db sql_extents [SqlInt i] d))"
    by (simp add: read_extents_def row_of_extent_def read_extent_row_def comp_def)
  then show ?thesis using query_extents [OF \<open>good d\<close>] by simp
qed

lemma getEntryFromQuery_spec:
  assumes inv: "fs_inv ents exts good fs"
    and R: "ents (m_database fs) (row_inode R) = Some R" "read_entry_row db r = R"
    and get: "getEntryFromQuery db r fs = (p, fs')"
  shows "fs_inv ents exts good fs'" and "extends fs fs'" and "loaded fs' p R"
    and "smap_find (m_diskEntries fs') =
      (smap_find (m_diskEntries fs))(row_inode R \<mapsto>
         (case smap_find (m_diskEntries fs) (row_inode R) of None \<Rightarrow> p | Some q \<Rightarrow> q))"
proof -
  let ?d = "m_database fs"
  define e where "e = \<lparr>inode = row_inode R, parentId = row_parent R, versionId = row_version R,
    entry_type = ucast (row_type R), entry_name = row_name R, entry_length = row_length R,
    extents = read_extents db (row_inode R) ?d, extentVersionId = row_extver R,
    isNew = False, extentsUpdated = False\<rparr>"
  have p: "p = next_ptr fs" and fs': "fs' = (store p e fs)
      \<lparr>next_ptr := Suc p, m_diskEntries := smap_insert (row_inode R) p (m_diskEntries fs)\<rparr>"
    using get R(2) [symmetric]
    by (auto simp: getEntryFromQuery_def e_def read_entry_row_def new_Entry_def alloc_def Let_def store_def)
  have dbi: "db_inv ents exts good ?d" and fresh: "heap fs p = None"
    using inv by (auto simp: fs_inv_but_def p)
  have row: "row_of e = R"
    using dbi R(1) by (auto simp: db_inv_def e_def row_of_def)
  have abs: "abs_entry e = (R, exts ?d (row_inode R))"
    using read_extents_abs [OF fs_inv_good [OF inv]]
    by (simp add: abs_entry_def row) (simp add: abs_extents_def e_def)
  show find: "smap_find (m_diskEntries fs') =
      (smap_find (m_diskEntries fs))(row_inode R \<mapsto>
         (case smap_find (m_diskEntries fs) (row_inode R) of None \<Rightarrow> p | Some q \<Rightarrow> q))"
    by (auto simp: fs' cmap.find_insert fun_eq_iff split: option.splits)
  show ext: "extends fs fs'"
    using fresh find by (auto simp: extends_def fs' map_le_def split: option.split)
  show "loaded fs' p R"
    unfolding loaded_def by (rule exI [of _ e]) (simp add: fs' abs, simp add: e_def settled_def)
  have "\<exists>f. heap fs' q = Some f \<and> inode f = i \<and> settled f \<and> catalog_of ents exts ?d i = Some (abs_entry f)"
    if q: "smap_find (m_diskEntries fs') i = Some q" for i q
  proof (cases "smap_find (m_diskEntries fs) i")
    case None
    with q find have "i = row_inode R" "q = p" by (auto split: if_splits)
    then show ?thesis using R(1) by (simp add: fs' abs catalog_of_def) (simp add: e_def settled_def)
  next
    case (Some q')
    with q find have "q' = q" by (auto split: if_splits)
    with inv Some obtain f where "heap fs q = Some f" "inode f = i" "settled f"
      "catalog_of ents exts ?d i = Some (abs_entry f)"
      by (elim fs_inv_settled) simp_all
    with extends_heap [OF ext] show ?thesis by auto
  qed
  then show "fs_inv ents exts good fs'"
    using inv by (auto simp: fs_inv_but_def fs' cmap.ok_insert p)
qed

text \<open>\<open>findByInode\<close> answers from the catalog, and the object it returns is the cached one.\<close>

lemma findByInode_spec:
  assumes inv: "fs_inv ents exts good fs" and find: "findByInode db i fs = (q, fs')"
  shows "fs_inv ents exts good fs'" and "extends fs fs'"
    and "case q of None \<Rightarrow> fs' = fs \<and> catalog_of ents exts (m_database fs) i = None \<and>
            smap_find (m_diskEntries fs) i = None
         | Some p \<Rightarrow> \<exists>e. at_hand fs' i p e"
proof -
  have "fs_inv ents exts good fs' \<and> extends fs fs' \<and>
    (case q of None \<Rightarrow> fs' = fs \<and> catalog_of ents exts (m_database fs) i = None \<and>
       smap_find (m_diskEntries fs) i = None | Some p \<Rightarrow> \<exists>e. at_hand fs' i p e)"
  proof (cases "smap_find (m_diskEntries fs) i")
    case (Some p)
    with find have "q = Some p" "fs' = fs" by (simp_all add: findByInode_def)
    moreover from inv Some obtain e where "heap fs p = Some e" "inode e = i" by (rule fs_inv_cached)
    ultimately show ?thesis using inv Some by (auto simp: at_hand_def)
  next
    case None
    note query = query_inode [OF fs_inv_good [OF inv], of i]
    show ?thesis
    proof (cases "ents (m_database fs) i")
      case none: None
      with None find query inv show ?thesis by (auto simp: findByInode_def catalog_of_def)
    next
      case (Some R)
      with query obtain r where r: "snd (ps_query db sql_by_inode [SqlInt i] (m_database fs)) = [r]"
        "read_entry_row db r = R" by auto
      have i: "row_inode R = i" using key [OF fs_inv_good [OF inv] Some] .
      obtain p fs1 where get: "getEntryFromQuery db r fs = (p, fs1)" by fastforce
      with None r find have "q = Some p" "fs' = fs1" by (simp_all add: findByInode_def)
      moreover note spec = getEntryFromQuery_spec [OF inv _ r(2) get]
      ultimately show ?thesis using Some None i by (auto simp: loaded_def at_hand_def)
    qed
  qed
  then show "fs_inv ents exts good fs'" and "extends fs fs'"
    and "case q of None \<Rightarrow> fs' = fs \<and> catalog_of ents exts (m_database fs) i = None \<and>
            smap_find (m_diskEntries fs) i = None
         | Some p \<Rightarrow> \<exists>e. at_hand fs' i p e" by blast+
qed

lemma entries_from_query_spec:
  assumes "fs_inv ents exts good fs"
    and "\<And>r. r \<in> set rs \<Longrightarrow> ents (m_database fs) (row_inode (read_entry_row db r)) = Some (read_entry_row db r)"
    and "entries_from_query db rs fs = (ps, fs')"
  shows "fs_inv ents exts good fs' \<and> extends fs fs' \<and>
    list_all2 (loaded fs') ps (map (read_entry_row db) rs)"
  using assms
proof (induction rs arbitrary: fs ps fs')
  case (Cons r rs)
  obtain p fs1 where get: "getEntryFromQuery db r fs = (p, fs1)" by fastforce
  obtain qs fs2 where rest: "entries_from_query db rs fs1 = (qs, fs2)" by fastforce
  from Cons.prems(3) get rest have eq: "ps = p # qs" "fs' = fs2" by simp_all
  note spec = getEntryFromQuery_spec [OF Cons.prems(1) _ refl get]
  have R: "ents (m_database fs) (row_inode (read_entry_row db r)) = Some (read_entry_row db r)"
    by (rule Cons.prems(2)) simp
  have d: "m_database fs1 = m_database fs" using spec(2) [OF R] by (simp add: extends_def)
  have "fs_inv ents exts good fs2 \<and> extends fs1 fs2 \<and> list_all2 (loaded fs2) qs (map (read_entry_row db) rs)"
    by (rule Cons.IH [OF spec(1) [OF R]], use Cons.prems(2) d in simp, rule rest)
  with spec(2,3) [OF R] show ?case
    by (auto simp: eq intro: extends_trans extends_loaded)
qed simp

lemma catalog_row: "good d \<Longrightarrow> catalog_of ents exts d i = Some (r, x) \<longleftrightarrow>
    ents d i = Some r \<and> x = exts d i"
  by (auto simp: catalog_of_def)

text \<open>\<open>findByParentInode\<close> returns an object for every child and for nothing else.\<close>

lemma findByParentInode_spec:
  assumes inv: "fs_inv ents exts good fs" and find: "findByParentInode db i fs = (ps, fs')"
  shows "fs_inv ents exts good fs'" and "extends fs fs'"
    and "\<exists>Rs. list_all2 (loaded fs') ps Rs \<and> distinct Rs \<and>
      set Rs = {r. ents (m_database fs) (row_inode r) = Some r \<and> row_parent r = i}"
proof -
  let ?d = "m_database fs"
  note good = fs_inv_good [OF inv]
  obtain rs where rs: "ps_query db sql_by_parent [SqlInt i] ?d = (True, rs)"
    using query_parent [OF good, of i]
    by (intro that [of "snd (ps_query db sql_by_parent [SqlInt i] ?d)"]) (simp add: prod_eq_iff)
  let ?Rs = "map (read_entry_row db) rs"
  have set: "set ?Rs = {r. ents ?d (row_inode r) = Some r \<and> row_parent r = i}"
    using rows_by_parent [OF good, of i] rs by simp
  have "mset ?Rs = mset_set {r. ents ?d (row_inode r) = Some r \<and> row_parent r = i}"
    using query_parent [OF good, of i] rs by simp
  then have dist: "distinct ?Rs" unfolding set [symmetric] 
    by (auto simp: distinct_count_atmost_1)
  have "entries_from_query db rs fs = (ps, fs')"
    using find rs by (simp add: findByParentInode_def)
  moreover have "ents ?d (row_inode (read_entry_row db r)) = Some (read_entry_row db r)" if "r \<in> set rs" for r
    using set that by auto
  ultimately have *: "fs_inv ents exts good fs' \<and> extends fs fs' \<and> list_all2 (loaded fs') ps ?Rs"
    using inv by (intro entries_from_query_spec)
  then show "fs_inv ents exts good fs'" and "extends fs fs'" by auto
  show "\<exists>Rs. list_all2 (loaded fs') ps Rs \<and> distinct Rs \<and>
      set Rs = {r. ents ?d (row_inode r) = Some r \<and> row_parent r = i}"
    using * set dist by (intro exI [of _ ?Rs]) simp
qed

lemma findByName_spec:
  assumes inv: "fs_inv ents exts good fs" and find: "findByName db i n fs = (q, fs')"
  shows "fs_inv ents exts good fs'" and "extends fs fs'"
    and "case q of
        None \<Rightarrow> {r. ents (m_database fs) (row_inode r) = Some r \<and> row_parent r = i \<and> row_name r = n} = {}
      | Some p \<Rightarrow> \<exists>R. loaded fs' p R \<and> ents (m_database fs) (row_inode R) = Some R \<and>
          row_parent R = i \<and> row_name R = n"
proof -
  let ?d = "m_database fs"
  note good = fs_inv_good [OF inv]
  obtain rs where rs: "ps_query db sql_by_name [SqlInt i, SqlText n] ?d = (True, rs)"
    using query_name [OF good, of i n]
    by (intro that [of "snd (ps_query db sql_by_name [SqlInt i, SqlText n] ?d)"]) (simp add: prod_eq_iff)
  have set: "read_entry_row db ` set rs =
      {r. ents ?d (row_inode r) = Some r \<and> row_parent r = i \<and> row_name r = n}"
    using rows_by_name [OF good, of i n] rs by simp
  have "fs_inv ents exts good fs' \<and> extends fs fs' \<and> (case q of
        None \<Rightarrow> read_entry_row db ` set rs = {}
      | Some p \<Rightarrow> \<exists>R. loaded fs' p R \<and> ents (m_database fs) (row_inode R) = Some R \<and>
          row_parent R = i \<and> row_name R = n)"
  proof (cases rs)
    case Nil
    with find rs inv show ?thesis by (auto simp: findByName_def)
  next
    case (Cons r rs')
    let ?R = "read_entry_row db r"
    have R: "ents ?d (row_inode ?R) = Some ?R" "row_parent ?R = i" "row_name ?R = n"
      using set Cons by auto
    obtain p fs1 where get: "getEntryFromQuery db r fs = (p, fs1)" by fastforce
    with find rs Cons have "q = Some p" "fs' = fs1" by (simp_all add: findByName_def)
    with getEntryFromQuery_spec [OF inv R(1) refl get] R show ?thesis by auto
  qed
  then show "fs_inv ents exts good fs'" and "extends fs fs'"
    and "case q of
        None \<Rightarrow> {r. ents (m_database fs) (row_inode r) = Some r \<and> row_parent r = i \<and> row_name r = n} = {}
      | Some p \<Rightarrow> \<exists>R. loaded fs' p R \<and> ents (m_database fs) (row_inode R) = Some R \<and>
          row_parent R = i \<and> row_name R = n"
    unfolding set by simp_all
qed

text \<open>The walk along a path ends, without a fault, at an entry the path leads to.\<close>

lemma walk_parts_spec:
  assumes "fs_inv ents exts good fs" "heap fs p = Some e"
    "catalog_of ents exts (m_database fs) (inode e) = Some (abs_entry e)"
  shows "\<exists>q fs'. walk_parts db parts (Some p) fs = Inr (q, fs') \<and> fs_inv ents exts good fs' \<and>
    extends fs fs' \<and> resolves (catalog_of ents exts (m_database fs)) (inode e) parts fs' q"
  using assms
proof (induction parts arbitrary: fs p e)
  case Nil
  then show ?case by (auto simp: resolves_def)
next
  case (Cons n ns)
  let ?c = "catalog_of ents exts (m_database fs)"
  note good = fs_inv_good [OF Cons.prems(1)]
  obtain q fs1 where find: "findByName db (inode e) n fs = (q, fs1)" by fastforce
  note spec = findByName_spec [OF Cons.prems(1) find]
  show ?case
  proof (cases q)
    case None
    have "\<not> (\<exists>k. path_to ?c (inode e) (n # ns) k)"
    proof
      assume "\<exists>k. path_to ?c (inode e) (n # ns) k"
      then obtain j r x where "?c j = Some (r, x)" "row_parent r = inode e" "row_name r = n"
        by (auto simp: path_to_Cons)
      then show False using spec(3) None key [OF good, of j r] by (auto simp: catalog_row [OF good])
    qed
    then have "resolves ?c (inode e) (n # ns) fs1 None" by (simp add: resolves_def)
    moreover from None Cons.prems(2) find
    have "walk_parts db (n # ns) (Some p) fs = Inr (None, fs1)" by (simp add: deref_def)
    ultimately show ?thesis using spec(1,2) by blast
  next
    case (Some p1)
    with spec(3) obtain R where R: "loaded fs1 p1 R" "ents (m_database fs) (row_inode R) = Some R"
      "row_parent R = inode e" "row_name R = n" by auto
    from R(1) obtain e1 where e1: "heap fs1 p1 = Some e1" "inode e1 = row_inode R"
      "abs_entry e1 = (R, exts (m_database fs1) (row_inode R))" by (auto simp: loaded_def)
    have d: "m_database fs1 = m_database fs" using spec(2) by (simp add: extends_def)
    have c1: "catalog_of ents exts (m_database fs1) (inode e1) = Some (abs_entry e1)"
      using R(2) e1 d by (simp add: catalog_of_def)
    have w: "walk_parts db (n # ns) (Some p) fs = walk_parts db ns (Some p1) fs1"
      using Some Cons.prems(2) find by (simp add: deref_def)
    obtain q' fs' where IH: "walk_parts db ns (Some p1) fs1 = Inr (q', fs')"
      "fs_inv ents exts good fs'" "extends fs1 fs'" "resolves ?c (inode e1) ns fs' q'"
      using Cons.IH [OF spec(1) e1(1) c1] d by metis
    have "resolves ?c (inode e) (n # ns) fs' q'"
      using c1 e1(3) d R(3,4) IH(4) by (intro resolves_step [of ?c "inode e1" R]) auto
    with IH extends_trans [OF spec(2) IH(3)] show ?thesis unfolding w by blast
  qed
qed

lemma findByPath_root_missing:
  assumes inv: "fs_inv ents exts good fs" and no: "catalog_of ents exts (m_database fs) 2 = None"
  shows "findByPath splitString db path fs =
    (if splitString path 47 = [] then Inr (None, fs) else Inl NullDeref)"
proof -
  obtain r fs1 where find: "findByInode db 2 fs = (r, fs1)" by fastforce
  note spec = findByInode_spec [OF inv find]
  have "r = None"
  proof (cases r)
    case (Some p)
    with spec(3) obtain e where "at_hand fs1 2 p e" by auto
    from at_hand_settled(2) [OF spec(1) this] spec(2) no show ?thesis by (simp add: extends_def)
  qed
  with spec(3) find show ?thesis by (cases "splitString path 47") (auto simp: findByPath_def)
qed

lemma findByPath_spec:
  assumes inv: "fs_inv ents exts good fs" and root: "catalog_of ents exts (m_database fs) 2 \<noteq> None"
  obtains q fs' where "findByPath splitString db path fs = Inr (q, fs')" "fs_inv ents exts good fs'"
    "extends fs fs'" "resolves (catalog_of ents exts (m_database fs)) 2 (splitString path 47) fs' q"
proof -
  obtain r fs1 where find: "findByInode db 2 fs = (r, fs1)" by fastforce
  note spec = findByInode_spec [OF inv find]
  from spec(3) root obtain p e where p: "r = Some p" "at_hand fs1 2 p e" by (cases r) auto
  have d: "m_database fs1 = m_database fs" using spec(2) by (simp add: extends_def)
  have h: "heap fs1 p = Some e" "inode e = 2" using p by (simp_all add: at_hand_def)
  have c: "catalog_of ents exts (m_database fs1) (inode e) = Some (abs_entry e)"
    using at_hand_settled(2) [OF spec(1) p(2)] h by simp
  obtain q fs' where "walk_parts db (splitString path 47) (Some p) fs1 = Inr (q, fs')"
    "fs_inv ents exts good fs'" "extends fs1 fs'"
    "resolves (catalog_of ents exts (m_database fs)) 2 (splitString path 47) fs' q"
    using walk_parts_spec [OF spec(1) h(1) c] d h(2) by metis
  with p find extends_trans [OF spec(2)] show thesis
    by (intro that [of q fs']) (auto simp: findByPath_def)
qed

section \<open>Opening and clearing\<close>

lemma init_spec:
  assumes "db_inv ents exts good d"
  shows "fs_inv ents exts good (init db d)"
    and "catalog_of ents exts (m_database (init db d)) = catalog_of ents exts d"
    and "m_diskEntries (init db d) = []"
proof -
  have g: "good d" using assms by (simp add: db_inv_def)
  have d: "good (m_database (init db d))" "ents (m_database (init db d)) = ents d"
    "exts (m_database (init db d)) = exts d"
    using g by (simp_all add: init_def Let_def db_rules)
  have i: "heap (init db d) = Map.empty" "m_diskEntries (init db d) = []"
    by (simp_all add: init_def Let_def)
  then show "m_diskEntries (init db d) = []" by simp
  show "fs_inv ents exts good (init db d)"
    using assms d by (simp add: fs_inv_but_def db_inv_def i cmap.ok_empty cmap.find_empty)
  show "catalog_of ents exts (m_database (init db d)) = catalog_of ents exts d"
    by (simp add: catalog_of_def fun_eq_iff d)
qed

lemma clear_spec:
  assumes "good (m_database fs)"
  shows "good (m_database (clear db fs))" "ents (m_database (clear db fs)) = Map.empty"
    "exts (m_database (clear db fs)) = (\<lambda>_. {#})"
    "heap (clear db fs) = heap fs" "m_diskEntries (clear db fs) = m_diskEntries fs"
    "next_ptr (clear db fs) = next_ptr fs"
  using assms by (simp_all add: clear_def Let_def db_rules)

lemma clear_inv:
  assumes "fs_inv ents exts good fs" "m_diskEntries fs = []"
  shows "fs_inv ents exts good (clear db fs)"
    and "catalog_of ents exts (m_database (clear db fs)) = Map.empty"
  using assms clear_spec [OF fs_inv_good [OF assms(1)]]
  by (auto simp: fs_inv_but_def db_inv_def catalog_of_def cmap.find_empty fun_eq_iff)

text \<open>An update of an entry the table does not have changes no row of it.\<close>

lemma updateEntry_lost:
  assumes "good (m_database fs)" "heap fs p = Some e" "ents (m_database fs) (inode e) = None" "\<not> isNew e"
  obtains fs' where "updateEntry db p fs = Inr fs'" "ents (m_database fs') = ents (m_database fs)"
proof -
  let ?d = "snd (ps_execute db sql_update_entry (update_binding (row_of e)) (m_database fs))"
  let ?d' = "snd (ps_execute db sql_delete_extents [SqlInt (inode e)] ?d)"
  have d: "good ?d" "ents ?d = ents (m_database fs)" "good ?d'" "ents ?d' = ents (m_database fs)"
    using assms(1,3) by (simp_all add: db_rules)
  show thesis
  proof (cases "extentsUpdated e")
    case True
    let ?fs = "store p (e\<lparr>extentsUpdated := False\<rparr>) (fs\<lparr>m_database := insert_extents db (inode e) (extents e) ?d'\<rparr>)"
    have "updateEntry db p fs = Inr ?fs"
      using True assms(2,4) by (simp add: updateEntry_def deref_def Let_def)
    moreover have "ents (m_database ?fs) = ents (m_database fs)"
      using catalog_insert_extents [OF d(3)] d(4) by simp
    ultimately show thesis by (rule that)
  next
    case False
    let ?fs = "fs\<lparr>m_database := ?d\<rparr>"
    have "updateEntry db p fs = Inr ?fs"
      using False assms(2,4) by (simp add: updateEntry_def deref_def)
    moreover have "ents (m_database ?fs) = ents (m_database fs)" using d(2) by simp
    ultimately show thesis by (rule that)
  qed
qed

end

end
