(* ===== verification/Scanner_Spec.thy ===== *)
theory Scanner_Spec
  imports APFS_Scanner File_System_Inv
begin

text \<open>
  What the scanner does, said over the catalog. The items of a node are decoded to records
  (\<open>fs_record\<close>); a record changes the catalog at one inode (\<open>spec_inode\<close>, \<open>spec_extent\<close>,
  \<open>spec_dirrec\<close>), guarded by transaction numbers; a node changes it group by group. The
  lemmas prove, under the database contract, that the code of \<open>APFS_Scanner\<close> refines this.
\<close>

section \<open>Records and their effect on the catalog\<close>

datatype fs_record =
    Inode_Rec u64 u64 "u64 option"
  | Extent_Rec u64 u64 u64
  | Dir_Rec u64 cpp_string u32
  | Other_Rec

definition decode_pair :: "u8 list \<Rightarrow> KeyValuePair \<Rightarrow> fs_record res" where
  "decode_pair mem pair =
     and_then (key_word mem (kv_key pair)) (\<lambda>w.
       if obj_type w = APFS_TYPE_INODE
       then and_then (inode_size mem (valueLength pair) (kv_value pair)) (\<lambda>len.
            and_then (rd64 mem (kv_value pair + field_at j_inode_val_t ''parent_id'')) (\<lambda>parent.
              Inr (Inode_Rec (obj_id w) parent len)))
       else if obj_type w = APFS_TYPE_FILE_EXTENT
       then and_then (rd64 mem (kv_value pair + field_at j_file_extent_val_t ''len_and_flags'')) (\<lambda>lf.
            and_then (rd64 mem (kv_key pair + field_at j_file_extent_key_t ''logical_addr'')) (\<lambda>la.
            and_then (rd64 mem (kv_value pair + field_at j_file_extent_val_t ''phys_block_num'')) (\<lambda>pb.
              Inr (Extent_Rec la pb (lf AND J_FILE_EXTENT_LEN_MASK)))))
       else if obj_type w = APFS_TYPE_DIR_REC
       then and_then (rd64 mem (kv_value pair + field_at j_drec_val_t ''file_id'')) (\<lambda>file_id.
            and_then (rd_cstring mem (kv_key pair + field_at j_drec_hashed_key_t ''name'')) (\<lambda>nam.
            and_then (rd16 mem (kv_value pair + field_at j_drec_val_t ''flags'')) (\<lambda>flags.
              Inr (Dir_Rec file_id nam (ucast flags AND DREC_TYPE_MASK)))))
       else Inr Other_Rec)"

text \<open>The entry of an inode in the catalog, blank when there is none yet.\<close>

definition blank_row :: "u64 \<Rightarrow> entry_row" where
  "blank_row i = \<lparr>row_inode = i, row_parent = 0, row_version = 0, row_type = 0, row_name = [],
     row_length = 0, row_extver = 0\<rparr>"

definition cat_get :: "catalog \<Rightarrow> u64 \<Rightarrow> catalog_entry" where
  "cat_get c i = (case c i of None \<Rightarrow> (blank_row i, {#}) | Some e \<Rightarrow> e)"

definition spec_inode :: "u64 \<Rightarrow> u64 \<Rightarrow> u64 \<Rightarrow> u64 option \<Rightarrow> catalog \<Rightarrow> catalog" where
  "spec_inode xid i parent len c =
     (let (r, x) = cat_get c i
      in c(i \<mapsto>
           (if row_version r \<le> xid
            then r\<lparr>row_parent := parent, row_version := xid,
                   row_length := (case len of None \<Rightarrow> row_length r | Some n \<Rightarrow> n)\<rparr>
            else r, x)))"

definition spec_extent :: "u64 \<Rightarrow> u64 option \<Rightarrow> u64 \<Rightarrow> u64 \<Rightarrow> u64 \<Rightarrow> catalog \<Rightarrow> catalog" where
  "spec_extent xid cur la pb len c =
     (case cur of
        None \<Rightarrow> c
      | Some i \<Rightarrow>
          (let (r, x) = cat_get c i
           in if row_extver r \<le> xid
              then c(i \<mapsto> (r\<lparr>row_extver := xid\<rparr>,
                           add_mset (la, pb, len) (if row_extver r < xid then {#} else x)))
              else c))"

definition spec_dirrec ::
  "u64 \<Rightarrow> u64 option \<Rightarrow> u64 \<Rightarrow> cpp_string \<Rightarrow> u32 \<Rightarrow> catalog \<Rightarrow> catalog" where
  "spec_dirrec xid cur file_id nam t c =
     (let (r, x) = cat_get c file_id
      in c(file_id \<mapsto>
           (if row_version r \<le> xid
            then r\<lparr>row_parent := (case cur of None \<Rightarrow> row_parent r | Some i \<Rightarrow> i),
                   row_name := nam, row_version := xid, row_type := scast t\<rparr>
            else r, x)))"

fun spec_record :: "u64 \<Rightarrow> fs_record \<Rightarrow> u64 option \<times> catalog \<Rightarrow> u64 option \<times> catalog" where
  "spec_record xid (Inode_Rec i parent len) (cur, c) = (Some i, spec_inode xid i parent len c)"
| "spec_record xid (Extent_Rec la pb len) (cur, c) = (cur, spec_extent xid cur la pb len c)"
| "spec_record xid (Dir_Rec file_id nam t) (cur, c) = (cur, spec_dirrec xid cur file_id nam t c)"
| "spec_record xid Other_Rec (cur, c) = (cur, c)"

definition spec_group :: "u64 \<Rightarrow> fs_record list \<Rightarrow> catalog \<Rightarrow> catalog" where
  "spec_group xid rs c = snd (fold (spec_record xid) rs (None, c))"

section \<open>Holding an entry\<close>

text \<open>
  A pointer the scanner holds for inode \<open>i\<close>: to the cached object, or to a new one for an
  inode that has no entry.
\<close>

definition held ::
  "('d \<Rightarrow> u64 \<rightharpoonup> entry_row) \<Rightarrow> ('d \<Rightarrow> u64 \<Rightarrow> extent_row multiset) \<Rightarrow> 'd filesystem \<Rightarrow> u64
     \<Rightarrow> nat \<Rightarrow> Entry \<Rightarrow> bool" where
  "held E X fs i p e \<longleftrightarrow>
     heap fs p = Some e \<and> inode e = i \<and> \<not> extentsUpdated e \<and>
     abs_entry e = cat_get (catalog_of E X (m_database fs)) i \<and>
     (if isNew e then smap_find (m_diskEntries fs) i = None \<and> E (m_database fs) i = None
      else smap_find (m_diskEntries fs) i = Some p \<and> E (m_database fs) i \<noteq> None)"

text \<open>Objects at hand stay at hand: an update of one object leaves every cached pointer valid.\<close>

definition keeps_hands :: "'d filesystem \<Rightarrow> 'd filesystem \<Rightarrow> bool" where
  "keeps_hands fs fs' \<longleftrightarrow> (\<forall>i p e. at_hand fs i p e \<longrightarrow> (\<exists>e'. at_hand fs' i p e'))"

lemma keeps_hands_trans: "keeps_hands a b \<Longrightarrow> keeps_hands b c \<Longrightarrow> keeps_hands a c"
  unfolding keeps_hands_def by blast

lemma extends_keeps_hands: "extends fs fs' \<Longrightarrow> keeps_hands fs fs'"
  unfolding keeps_hands_def using extends_at_hand by blast

lemma abs_new_Entry: "abs_entry (new_Entry\<lparr>inode := i\<rparr>) = (blank_row i, {#})"
  by (simp add: abs_entry_def row_of_def abs_extents_def new_Entry_def blank_row_def)

context sql_store
begin

lemma find_or_new_spec:
  assumes inv: "fs_inv ents exts good fs" and find: "find_or_new db i fs = (p, fs')"
  obtains e where "fs_inv ents exts good fs'" "extends fs fs'" "held ents exts fs' i p e"
proof -
  obtain q fs1 where q: "findByInode db i fs = (q, fs1)" by fastforce
  note spec = findByInode_spec [OF inv q]
  show thesis
  proof (cases q)
    case (Some p1)
    with q find have p: "p1 = p" "fs1 = fs'" by (simp_all add: find_or_new_def)
    with Some spec(3) obtain e where h: "at_hand fs' i p e" by auto
    from at_hand_settled [OF spec(1) [unfolded p] h]
    have "held ents exts fs' i p e"
      using h by (auto simp: held_def at_hand_def settled_def cat_get_def catalog_of_def)
    with spec(1,2) p show thesis by (intro that) simp_all
  next
    case None
    with spec(3) have n: "fs1 = fs" "catalog_of ents exts (m_database fs) i = None"
      "smap_find (m_diskEntries fs) i = None" by simp_all
    let ?e = "new_Entry\<lparr>inode := i\<rparr>"
    from find q None n(1) have p: "p = next_ptr fs"
      and fs': "fs' = (store p ?e fs)\<lparr>next_ptr := Suc p\<rparr>"
      by (auto simp: find_or_new_def alloc_def)
    have fresh: "heap fs p = None" using inv by (auto simp: fs_inv_but_def p)
    have free: "smap_find (m_diskEntries fs) j \<noteq> Some p" for j
    proof (rule notI)
      assume "smap_find (m_diskEntries fs) j = Some p"
      with inv show False by (rule fs_inv_cached) (simp add: fresh)
    qed
    have "fs_inv ents exts good fs'"
      using inv free by (auto simp: fs_inv_but_def fs' p less_Suc_eq)
    moreover have "extends fs fs'" using fresh by (simp add: extends_def fs' map_le_def dom_def)
    moreover have "held ents exts fs' i p ?e"
      using n by (simp add: held_def fs' abs_new_Entry cat_get_def)
        (simp add: new_Entry_def catalog_of_def)
    ultimately show thesis by (rule that)
  qed
qed

lemma held_at_hand:
  assumes inv: "fs_inv ents exts good fs" and "at_hand fs i p e"
  shows "held ents exts fs i p e"
  using at_hand_settled [OF assms] assms(2)
  by (auto simp: held_def at_hand_def settled_def cat_get_def catalog_of_def)

text \<open>Storing a changed version of a held entry.\<close>

lemma save_held:
  assumes inv: "fs_inv ents exts good fs" and h: "held ents exts fs i p e"
    and e': "inode e' = i" "isNew e' = isNew e" "extentsUpdated e' \<or> abs_extents e' = abs_extents e"
  obtains fs' where "updateEntry db p (store p e' fs) = Inr fs'" "fs_inv ents exts good fs'"
    "catalog_of ents exts (m_database fs') = (catalog_of ents exts (m_database fs))(i \<mapsto> abs_entry e')"
    "at_hand fs' i p (e'\<lparr>isNew := False, extentsUpdated := False\<rparr>)" "keeps_hands fs fs'"
proof -
  let ?s = "store p e' fs"
  have only: "j = i" if "smap_find (m_diskEntries fs) j = Some p" for j
    using inv that by (rule fs_inv_cached) (use h in \<open>simp add: held_def\<close>)
  have ext: "exts (m_database fs) i = abs_extents e"
    using h inv
    by (auto simp: held_def cat_get_def catalog_of_def abs_entry_def fs_inv_but_def db_inv_def
        split: if_splits option.splits)
  have "fs_inv_but {p} ents exts good ?s"
    using fs_inv_but_store [OF inv, of p e'] only h e'(1) by (auto simp: held_def)
  moreover have pend: "pending ents exts ?s p e'"
    using h e' ext by (auto simp: pending_def held_def split: if_splits)
  moreover obtain fs' where fs': "updateEntry db p ?s = Inr fs'" "stored p e' ?s fs'"
    using updateEntry_stored [OF _ pend] fs_inv_good [OF inv] by auto
  ultimately have "fs_inv ents exts good fs'"
    "catalog_of ents exts (m_database fs') = (catalog_of ents exts (m_database fs))(i \<mapsto> abs_entry e')"
    "at_hand fs' i p (e'\<lparr>isNew := False, extentsUpdated := False\<rparr>)"
    using stored_inv [of p ?s e' fs'] e'(1) by simp_all
  moreover have "keeps_hands fs fs'"
    unfolding keeps_hands_def
  proof (intro allI impI)
    fix j q f assume a: "at_hand fs j q f"
    have find: "smap_find (m_diskEntries fs') j = Some q"
      using a fs'(2) by (auto simp: at_hand_def stored_def cmap.find_insert)
    show "\<exists>f'. at_hand fs' j q f'"
    proof (cases "q = p")
      case True
      with a only have "j = i" by (simp add: at_hand_def)
      with True find fs'(2) e'(1) show ?thesis by (simp add: at_hand_def stored_def)
    next
      case False
      with a find fs'(2) show ?thesis by (simp add: at_hand_def stored_def)
    qed
  qed
  ultimately show thesis using fs'(1) by (intro that)
qed

text \<open>Storing an entry as it is changes nothing but a missing row.\<close>

lemma save_unchanged:
  assumes "fs_inv ents exts good fs" "held ents exts fs i p e"
  obtains fs' where "updateEntry db p fs = Inr fs'" "fs_inv ents exts good fs'"
    "catalog_of ents exts (m_database fs') =
      (catalog_of ents exts (m_database fs))(i \<mapsto> cat_get (catalog_of ents exts (m_database fs)) i)"
    "\<exists>e'. at_hand fs' i p e'" "keeps_hands fs fs'"
proof -
  from assms(2) have h: "heap fs p = Some e" "inode e = i"
    "abs_entry e = cat_get (catalog_of ents exts (m_database fs)) i" by (simp_all add: held_def)
  then have same: "store p e fs = fs" by (simp add: store_def map_upd_triv)
  show thesis
    by (rule save_held [OF assms h(2) refl disjI2 [OF refl], unfolded same]) (use h(3) that in auto)
qed

section \<open>Records\<close>

text \<open>The abstract state of the loop over a group.\<close>

definition group_state :: "nat option \<times> 'd filesystem \<Rightarrow> u64 option \<times> catalog \<Rightarrow> bool" where
  "group_state s a \<longleftrightarrow>
     fs_inv ents exts good (snd s) \<and> catalog_of ents exts (m_database (snd s)) = snd a \<and>
     (case fst s of None \<Rightarrow> fst a = None
      | Some p \<Rightarrow> \<exists>i e. fst a = Some i \<and> at_hand (snd s) i p e)"

lemma scanInode_refines:
  assumes inv: "fs_inv ents exts good fs"
    and dec: "inode_size mem (valueLength pair) v = Inr len"
      "rd64 mem (v + field_at j_inode_val_t ''parent_id'') = Inr parent" "node_xid mem bn = Inr xid"
  obtains p fs' e where "scanInode db mem bn pair i v fs = Inr (p, fs')" "fs_inv ents exts good fs'"
    "catalog_of ents exts (m_database fs') = spec_inode xid i parent len (catalog_of ents exts (m_database fs))"
    "at_hand fs' i p e"
proof -
  obtain p fs1 where find: "find_or_new db i fs = (p, fs1)" by fastforce
  from find_or_new_spec [OF inv find] obtain e where
    e: "fs_inv ents exts good fs1" "extends fs fs1" "held ents exts fs1 i p e" .
  have d: "m_database fs1 = m_database fs" using e(2) by (simp add: extends_def)
  have h: "heap fs1 p = Some e" "inode e = i"
    "abs_entry e = cat_get (catalog_of ents exts (m_database fs)) i"
    using e(3) d by (simp_all add: held_def)
  define e' where "e' = (if versionId e \<le> xid
     then (let e = e\<lparr>parentId := parent, versionId := xid\<rparr>
           in case len of None \<Rightarrow> e | Some n \<Rightarrow> e\<lparr>entry_length := n\<rparr>) else e)"
  have e': "inode e' = i" "isNew e' = isNew e" "abs_extents e' = abs_extents e"
    using h(2) by (auto simp: e'_def Let_def abs_extents_def split: option.split)
  from save_held [OF e(1,3) e'(1,2) disjI2 [OF e'(3)]] obtain fs2 where
    fs2: "updateEntry db p (store p e' fs1) = Inr fs2" "fs_inv ents exts good fs2"
    "catalog_of ents exts (m_database fs2) = (catalog_of ents exts (m_database fs1))(i \<mapsto> abs_entry e')"
    "at_hand fs2 i p (e'\<lparr>isNew := False, extentsUpdated := False\<rparr>)" .
  have same: "store p e fs1 = fs1" using h(1) by (simp add: store_def map_upd_triv)
  have "scanInode db mem bn pair i v fs = Inr (p, fs2)"
    using find h(1) dec fs2(1) same
    by (auto simp: scanInode_def deref_def e'_def Let_def)
  moreover have "abs_entry e' = (case cat_get (catalog_of ents exts (m_database fs)) i of (r, x) \<Rightarrow>
     (if row_version r \<le> xid then r\<lparr>row_parent := parent, row_version := xid,
        row_length := (case len of None \<Rightarrow> row_length r | Some n \<Rightarrow> n)\<rparr> else r, x))"
    unfolding h(3) [symmetric]
    by (auto simp: abs_entry_def e'_def row_of_def abs_extents_def split: option.split)
  then have "catalog_of ents exts (m_database fs2) = spec_inode xid i parent len (catalog_of ents exts (m_database fs))"
    using fs2(3) d by (simp add: spec_inode_def split: prod.splits)
  ultimately show thesis using fs2(2,4) by (rule_tac that)
qed

lemma scanFileExtent_refines:
  assumes st: "group_state (fe, fs) (cur, c)"
    and dec: "rd64 mem (v + field_at j_file_extent_val_t ''len_and_flags'') = Inr lf"
      "rd64 mem (k + field_at j_file_extent_key_t ''logical_addr'') = Inr la"
      "rd64 mem (v + field_at j_file_extent_val_t ''phys_block_num'') = Inr pb" "node_xid mem bn = Inr xid"
  obtains fs' where "scanFileExtent db mem bn fe k v fs = Inr fs'"
    "group_state (fe, fs') (cur, spec_extent xid cur la pb (lf AND J_FILE_EXTENT_LEN_MASK) c)"
proof (cases fe)
  case None
  with st dec(1) show thesis
    by (intro that [of fs]) (simp_all add: scanFileExtent_def group_state_def spec_extent_def)
next
  case (Some p)
  with st obtain i e where i: "cur = Some i" "at_hand fs i p e"
    and inv: "fs_inv ents exts good fs" and c: "catalog_of ents exts (m_database fs) = c"
    by (auto simp: group_state_def)
  have h: "held ents exts fs i p e" by (rule held_at_hand [OF inv i(2)])
  then have e: "heap fs p = Some e" "inode e = i" "abs_entry e = cat_get c i"
    by (simp_all add: held_def c)
  from e(3) have get: "cat_get c i = (row_of e, abs_extents e)" by (simp add: abs_entry_def)
  show thesis
  proof (cases "extentVersionId e \<le> xid")
    case False
    with Some i st dec e get show thesis
      by (intro that [of fs]) (simp_all add: scanFileExtent_def deref_def spec_extent_def row_of_def)
  next
    case True
    let ?x = "\<lparr>logicalAddress = la, physicalBlock = pb, extent_length = lf AND J_FILE_EXTENT_LEN_MASK\<rparr>"
    define f where "f = (if extentVersionId e < xid
      then e\<lparr>extents := [], extentsUpdated := True, extentVersionId := xid\<rparr> else e)"
    define e' where "e' = f\<lparr>extents := extents f @ [?x], extentsUpdated := True\<rparr>"
    have e': "inode e' = i" "isNew e' = isNew e" "extentsUpdated e'"
      using e(2) by (simp_all add: e'_def f_def)
    from save_held [OF inv h e'(1,2) disjI1 [OF e'(3)]] obtain fs2 where
      fs2: "updateEntry db p (store p e' fs) = Inr fs2" "fs_inv ents exts good fs2"
      "catalog_of ents exts (m_database fs2) = c(i \<mapsto> abs_entry e')"
      "at_hand fs2 i p (e'\<lparr>isNew := False, extentsUpdated := False\<rparr>)" unfolding c .
    have "scanFileExtent db mem bn fe k v fs = Inr fs2"
      using Some e(1) dec True fs2(1) by (simp add: scanFileExtent_def deref_def f_def e'_def Let_def)
    moreover have "abs_entry e' = (row_of e\<lparr>row_extver := xid\<rparr>,
        add_mset (la, pb, lf AND J_FILE_EXTENT_LEN_MASK) (if extentVersionId e < xid then {#} else abs_extents e))"
      using True by (auto simp: abs_entry_def e'_def f_def row_of_def abs_extents_def row_of_extent_def)
    then have "spec_extent xid cur la pb (lf AND J_FILE_EXTENT_LEN_MASK) c = c(i \<mapsto> abs_entry e')"
      using i(1) get True by (simp add: spec_extent_def row_of_def)
    ultimately show thesis using fs2 Some i(1) by (intro that [of fs2]) (auto simp: group_state_def)
  qed
qed

lemma scanDirRec_refines:
  assumes st: "group_state (fe, fs) (cur, c)"
    and dec: "rd64 mem (v + field_at j_drec_val_t ''file_id'') = Inr file_id"
      "rd_cstring mem (k + field_at j_drec_hashed_key_t ''name'') = Inr nam"
      "rd16 mem (v + field_at j_drec_val_t ''flags'') = Inr flags" "node_xid mem bn = Inr xid"
  obtains fs' where "scanDirRec db mem bn fe k v fs = Inr fs'"
    "group_state (fe, fs') (cur, spec_dirrec xid cur file_id nam (ucast flags AND DREC_TYPE_MASK) c)"
proof -
  let ?t = "ucast flags AND DREC_TYPE_MASK :: u32"
  from st have inv: "fs_inv ents exts good fs" and c: "catalog_of ents exts (m_database fs) = c"
    by (simp_all add: group_state_def)
  obtain p fs1 where find: "find_or_new db file_id fs = (p, fs1)" by fastforce
  from find_or_new_spec [OF inv find] obtain e where
    e: "fs_inv ents exts good fs1" "extends fs fs1" "held ents exts fs1 file_id p e" .
  have d: "m_database fs1 = m_database fs" using e(2) by (simp add: extends_def)
  have h: "heap fs1 p = Some e" "inode e = file_id" "abs_entry e = cat_get c file_id"
    using e(3) d c by (simp_all add: held_def)
  from h(3) have get: "cat_get c file_id = (row_of e, abs_extents e)" by (simp add: abs_entry_def)
  define par where "par = (case cur of None \<Rightarrow> parentId e | Some i \<Rightarrow> i)"
  have parent: "(case fe of None \<Rightarrow> Inr e | Some p \<Rightarrow> and_then (deref fs1 p) (\<lambda>f. Inr (e\<lparr>parentId := inode f\<rparr>))) =
      Inr (e\<lparr>parentId := par\<rparr>)"
  proof (cases fe)
    case None
    with st show ?thesis by (simp add: group_state_def par_def)
  next
    case (Some q)
    with st obtain i f where "cur = Some i" "at_hand fs i q f" by (auto simp: group_state_def)
    with extends_at_hand [OF e(2)] have "heap fs1 q = Some f" "inode f = i" by (auto simp: at_hand_def)
    with Some \<open>cur = Some i\<close> show ?thesis by (simp add: deref_def par_def)
  qed
  define e' where "e' = (if versionId e \<le> xid
     then e\<lparr>parentId := par, entry_name := nam, versionId := xid, entry_type := ?t\<rparr> else e)"
  have e': "inode e' = file_id" "isNew e' = isNew e" "abs_extents e' = abs_extents e"
    using h(2) by (auto simp: e'_def abs_extents_def)
  from save_held [OF e(1,3) e'(1,2) disjI2 [OF e'(3)]] obtain fs2 where
    fs2: "updateEntry db p (store p e' fs1) = Inr fs2" "fs_inv ents exts good fs2"
    "catalog_of ents exts (m_database fs2) = c(file_id \<mapsto> abs_entry e')" "keeps_hands fs1 fs2"
    unfolding d c by blast
  have same: "store p e fs1 = fs1" using h(1) by (simp add: store_def map_upd_triv)
  have "scanDirRec db mem bn fe k v fs = Inr fs2"
    using find h(1) dec fs2(1) same parent
    by (auto simp: scanDirRec_def deref_def [of fs1 p] e'_def Let_def)
  moreover have "spec_dirrec xid cur file_id nam ?t c = c(file_id \<mapsto> abs_entry e')"
    using get by (auto simp: spec_dirrec_def abs_entry_def e'_def row_of_def abs_extents_def par_def split: option.split)
  moreover have "keeps_hands fs fs2"
    using extends_keeps_hands [OF e(2)] fs2(4) by (rule keeps_hands_trans)
  then have "case fe of None \<Rightarrow> cur = None | Some p \<Rightarrow> \<exists>i e. cur = Some i \<and> at_hand fs2 i p e"
    using st by (auto simp: group_state_def keeps_hands_def split: option.splits) blast
  then have "group_state (fe, fs2) (cur, c(file_id \<mapsto> abs_entry e'))"
    using fs2(2,3) by (auto simp: group_state_def split: option.splits)
  ultimately show thesis by (intro that [of fs2]) simp_all
qed

lemma scan_pair_refines:
  assumes st: "group_state s (cur, c)" and dec: "decode_pair mem pair = Inr r" "node_xid mem bn = Inr xid"
  obtains s' where "scan_pair db mem bn pair s = Inr s'" "group_state s' (spec_record xid r (cur, c))"
proof -
  obtain fe fs where s: "s = (fe, fs)" by fastforce
  from dec(1) obtain w where w: "key_word mem (kv_key pair) = Inr w"
    by (auto simp: decode_pair_def and_then_eq_Inr)
  note dec' = dec(1) [unfolded decode_pair_def w and_then_Inr]
  have types: "APFS_TYPE_INODE \<noteq> APFS_TYPE_ANY" "APFS_TYPE_FILE_EXTENT \<noteq> APFS_TYPE_ANY"
    "APFS_TYPE_DIR_REC \<noteq> APFS_TYPE_ANY" "APFS_TYPE_FILE_EXTENT \<noteq> APFS_TYPE_INODE"
    "APFS_TYPE_DIR_REC \<noteq> APFS_TYPE_INODE" "APFS_TYPE_DIR_REC \<noteq> APFS_TYPE_FILE_EXTENT"
    by (simp_all add: APFS_TYPE_ANY_def APFS_TYPE_INODE_def APFS_TYPE_FILE_EXTENT_def APFS_TYPE_DIR_REC_def)
  have inv: "fs_inv ents exts good fs" and c: "catalog_of ents exts (m_database fs) = c"
    using st by (simp_all add: s group_state_def)
  consider (inode) "obj_type w = APFS_TYPE_INODE" | (extent) "obj_type w = APFS_TYPE_FILE_EXTENT"
    | (dir) "obj_type w = APFS_TYPE_DIR_REC"
    | (other) "obj_type w \<notin> {APFS_TYPE_INODE, APFS_TYPE_FILE_EXTENT, APFS_TYPE_DIR_REC}" by blast
  then show thesis
  proof cases
    case inode
    with dec' obtain len parent where d: "inode_size mem (valueLength pair) (kv_value pair) = Inr len"
      "rd64 mem (kv_value pair + field_at j_inode_val_t ''parent_id'') = Inr parent"
      "r = Inode_Rec (obj_id w) parent len" by (auto simp: and_then_eq_Inr)
    from scanInode_refines [OF inv d(1,2) dec(2)] obtain p fs' e where
      "scanInode db mem bn pair (obj_id w) (kv_value pair) fs = Inr (p, fs')" "fs_inv ents exts good fs'"
      "catalog_of ents exts (m_database fs') = spec_inode xid (obj_id w) parent len c"
      "at_hand fs' (obj_id w) p e" unfolding c .
    then show thesis using inode types w d(3)
      by (intro that [of "(Some p, fs')"]) (auto simp: scan_pair_def s group_state_def)
  next
    case extent
    with dec' types obtain lf la pb where d:
      "rd64 mem (kv_value pair + field_at j_file_extent_val_t ''len_and_flags'') = Inr lf"
      "rd64 mem (kv_key pair + field_at j_file_extent_key_t ''logical_addr'') = Inr la"
      "rd64 mem (kv_value pair + field_at j_file_extent_val_t ''phys_block_num'') = Inr pb"
      "r = Extent_Rec la pb (lf AND J_FILE_EXTENT_LEN_MASK)" by (auto simp: and_then_eq_Inr)
    from scanFileExtent_refines [OF st [unfolded s] d(1-3) dec(2)] obtain fs' where
      "scanFileExtent db mem bn fe (kv_key pair) (kv_value pair) fs = Inr fs'"
      "group_state (fe, fs') (cur, spec_extent xid cur la pb (lf AND J_FILE_EXTENT_LEN_MASK) c)" .
    then show thesis using extent types w d(4)
      by (intro that [of "(fe, fs')"]) (simp_all add: scan_pair_def s)
  next
    case dir
    with dec' types obtain file_id nam flags where d:
      "rd64 mem (kv_value pair + field_at j_drec_val_t ''file_id'') = Inr file_id"
      "rd_cstring mem (kv_key pair + field_at j_drec_hashed_key_t ''name'') = Inr nam"
      "rd16 mem (kv_value pair + field_at j_drec_val_t ''flags'') = Inr flags"
      "r = Dir_Rec file_id nam (ucast flags AND DREC_TYPE_MASK)" by (auto simp: and_then_eq_Inr)
    from scanDirRec_refines [OF st [unfolded s] d(1-3) dec(2)] obtain fs' where
      "scanDirRec db mem bn fe (kv_key pair) (kv_value pair) fs = Inr fs'"
      "group_state (fe, fs') (cur, spec_dirrec xid cur file_id nam (ucast flags AND DREC_TYPE_MASK) c)" .
    then show thesis using dir types w d(4)
      by (intro that [of "(fe, fs')"]) (simp_all add: scan_pair_def s)
  next
    case other
    with dec' have "r = Other_Rec" by simp
    then show thesis using other w st
      by (intro that [of s]) (simp_all add: scan_pair_def s Let_def)
  qed
qed

end

section \<open>Nodes\<close>

text \<open>The items of a node: the object each belongs to and its record.\<close>

fun decode_items :: "u8 list \<Rightarrow> KeyValuePair list \<Rightarrow> (u64 \<times> fs_record) list res" where
  "decode_items mem [] = Inr []"
| "decode_items mem (pair # pairs) =
     and_then (key_word mem (kv_key pair)) (\<lambda>w.
     and_then (decode_pair mem pair) (\<lambda>r.
     and_then (decode_items mem pairs) (\<lambda>items. Inr ((obj_id w, r) # items))))"

definition records_of :: "u64 \<Rightarrow> (u64 \<times> fs_record) list \<Rightarrow> fs_record list" where
  "records_of i items = map snd (filter (\<lambda>x. fst x = i) items)"

definition spec_node :: "u64 \<Rightarrow> (u64 \<times> fs_record) list \<Rightarrow> catalog \<Rightarrow> catalog" where
  "spec_node xid items c =
     fold (\<lambda>i. spec_group xid (records_of i items)) (sort (remdups (map fst items))) c"

text \<open>The grouping of the code: by object in ascending order, in a group in the order of the node.\<close>

definition pair_id :: "u8 list \<Rightarrow> KeyValuePair \<Rightarrow> u64" where
  "pair_id mem p = (case key_word mem (kv_key p) of Inl _ \<Rightarrow> 0 | Inr w \<Rightarrow> obj_id w)"

definition grouped :: "u8 list \<Rightarrow> KeyValuePair list \<Rightarrow> (u64, TreeEntryValues) smap \<Rightarrow> bool" where
  "grouped mem pairs es \<longleftrightarrow> smap_ok es \<and>
     (\<forall>i. smap_find es i =
        (if i \<in> pair_id mem ` set pairs then Some \<lparr>keyValues = filter (\<lambda>p. pair_id mem p = i) pairs\<rparr>
         else None))"

lemma group_pair_grouped:
  assumes "group_pair mem pair (ids, es) = Inr (ids', es')" "grouped mem done_pairs es"
  shows "grouped mem (done_pairs @ [pair]) es'"
proof -
  from assms(1) obtain w where w: "key_word mem (kv_key pair) = Inr w" and
    es': "es' = (case smap_find es (obj_id w) of
      None \<Rightarrow> smap_insert (obj_id w) \<lparr>keyValues = [pair]\<rparr> es
    | Some vs \<Rightarrow> smap_set (obj_id w) \<lparr>keyValues = keyValues vs @ [pair]\<rparr> es)"
    by (auto simp: group_pair_def and_then_eq_Inr)
  have i: "pair_id mem pair = obj_id w" by (simp add: pair_id_def w)
  have ok: "smap_ok es'"
    using assms(2) by (auto simp: es' grouped_def cmap.ok_insert cmap.ok_set split: option.split)
  have "smap_find es' j =
      (if j \<in> pair_id mem ` set (done_pairs @ [pair])
       then Some \<lparr>keyValues = filter (\<lambda>p. pair_id mem p = j) (done_pairs @ [pair])\<rparr> else None)" for j
  proof (cases "obj_id w \<in> pair_id mem ` set done_pairs")
    case True
    with assms(2) show ?thesis by (auto simp: es' grouped_def cmap.find_set i)
  next
    case False
    then have "filter (\<lambda>p. pair_id mem p = obj_id w) done_pairs = []" unfolding filter_empty_conv by (metis imageI)
    with False assms(2) show ?thesis by (auto simp: es' grouped_def cmap.find_insert i)
  qed
  with ok show ?thesis by (simp add: grouped_def)
qed

lemma for_each_grouped:
  "for_each (group_pair mem) pairs (ids, es) = Inr (ids', es') \<Longrightarrow> grouped mem done_pairs es \<Longrightarrow>
     grouped mem (done_pairs @ pairs) es'"
proof (induction pairs arbitrary: ids es done_pairs)
  case (Cons p pairs)
  then obtain ids1 es1 where "group_pair mem p (ids, es) = Inr (ids1, es1)"
    "for_each (group_pair mem) pairs (ids1, es1) = Inr (ids', es')"
    by (auto simp: and_then_eq_Inr)
  with Cons.IH [OF this(2) group_pair_grouped] Cons.prems(2) show ?case by simp
qed simp

lemma grouped_entries:
  assumes "grouped mem pairs es"
  shows "map fst es = sort (remdups (map (pair_id mem) pairs))"
    and "\<forall>x \<in> set es. keyValues (snd x) = filter (\<lambda>p. pair_id mem p = fst x) pairs"
proof -
  from assms have ok: "smap_ok es" by (simp add: grouped_def)
  have "i \<in> fst ` set es \<longleftrightarrow> i \<in> pair_id mem ` set pairs" for i
    using assms cmap.keys_find [OF ok, of i] by (simp add: grouped_def)
  then have "set (map fst es) = pair_id mem ` set pairs" unfolding set_map by blast
  moreover have "sorted (map fst es)" "distinct (map fst es)"
    using ok by (simp_all add: smap_ok_def strict_sorted_iff)
  ultimately show "map fst es = sort (remdups (map (pair_id mem) pairs))"
    by (intro sorted_distinct_set_unique) simp_all
  show "\<forall>x \<in> set es. keyValues (snd x) = filter (\<lambda>p. pair_id mem p = fst x) pairs"
  proof
    fix x assume "x \<in> set es"
    then have "smap_find es (fst x) = Some (snd x)"
      using smap_bindings [OF ok, of "fst x" "snd x"] by simp
    moreover have "smap_find es (fst x) = (if fst x \<in> pair_id mem ` set pairs
        then Some \<lparr>keyValues = filter (\<lambda>p. pair_id mem p = fst x) pairs\<rparr> else None)"
      using assms by (simp add: grouped_def)
    ultimately have "snd x = \<lparr>keyValues = filter (\<lambda>p. pair_id mem p = fst x) pairs\<rparr>"
      by (simp split: if_splits)
    then show "keyValues (snd x) = filter (\<lambda>p. pair_id mem p = fst x) pairs" by simp
  qed
qed

text \<open>A node that can be decoded can be grouped.\<close>

lemma group_pair_total:
  "key_word mem (kv_key pair) = Inr w \<Longrightarrow> decode_pair mem pair = Inr r \<Longrightarrow> \<exists>s'. group_pair mem pair s = Inr s'"
  by (cases s) (auto simp: group_pair_def decode_pair_def and_then_eq_Inr APFS_TYPE_INODE_def
      APFS_TYPE_FILE_EXTENT_def APFS_TYPE_DIR_REC_def split: if_splits)

lemma for_each_group_total:
  "decode_items mem pairs = Inr items \<Longrightarrow> \<exists>s'. for_each (group_pair mem) pairs s = Inr s'"
proof (induction pairs arbitrary: items s)
  case (Cons p pairs)
  then obtain w r items' where "key_word mem (kv_key p) = Inr w" "decode_pair mem p = Inr r"
    "decode_items mem pairs = Inr items'" by (auto simp: and_then_eq_Inr)
  with group_pair_total [of mem p w r s] Cons.IH show ?case by fastforce
qed simp

lemma decode_items_ids:
  "decode_items mem pairs = Inr items \<Longrightarrow> map fst items = map (pair_id mem) pairs"
  by (induction pairs arbitrary: items) (auto simp: and_then_eq_Inr pair_id_def)

lemma decode_items_filter:
  "decode_items mem pairs = Inr items \<Longrightarrow>
     list_all2 (\<lambda>p r. decode_pair mem p = Inr r) (filter (\<lambda>p. pair_id mem p = i) pairs) (records_of i items)"
  by (induction pairs arbitrary: items) (auto simp: and_then_eq_Inr pair_id_def records_of_def)

context sql_store
begin

lemma scan_pairs_refine:
  "list_all2 (\<lambda>p r. decode_pair mem p = Inr r) pairs rs \<Longrightarrow> node_xid mem bn = Inr xid \<Longrightarrow> group_state s a \<Longrightarrow>
     \<exists>s'. for_each (scan_pair db mem bn) pairs s = Inr s' \<and> group_state s' (fold (spec_record xid) rs a)"
proof (induction pairs rs arbitrary: s a rule: list_all2_induct)
  case (Cons p ps r rs)
  obtain cur c where a: "a = (cur, c)" by fastforce
  from scan_pair_refines [OF Cons.prems(2) [unfolded a] Cons.hyps(1) Cons.prems(1)] obtain s1 where
    s1: "scan_pair db mem bn p s = Inr s1" "group_state s1 (spec_record xid r a)" unfolding a .
  with Cons.IH [OF Cons.prems(1) s1(2)] show ?case by simp
qed simp

lemma scan_group_refines:
  assumes "fs_inv ents exts good fs" "node_xid mem bn = Inr xid"
    "list_all2 (\<lambda>p r. decode_pair mem p = Inr r) pairs rs"
  obtains fs' where "scan_group db mem bn pairs fs = Inr fs'" "fs_inv ents exts good fs'"
    "catalog_of ents exts (m_database fs') = spec_group xid rs (catalog_of ents exts (m_database fs))"
proof -
  let ?c = "catalog_of ents exts (m_database fs)"
  have "group_state (None, fs) (None, ?c)" using assms(1) by (simp add: group_state_def)
  from scan_pairs_refine [OF assms(3,2) this] obtain fe fs1 where
    loop: "for_each (scan_pair db mem bn) pairs (None, fs) = Inr (fe, fs1)" and
    st: "group_state (fe, fs1) (fold (spec_record xid) rs (None, ?c))" by auto
  from st have inv: "fs_inv ents exts good fs1" and
    c: "catalog_of ents exts (m_database fs1) = spec_group xid rs ?c"
    by (simp_all add: group_state_def spec_group_def)
  show thesis
  proof (cases fe)
    case None
    with loop inv c show thesis by (intro that [of fs1]) (simp_all add: scan_group_def)
  next
    case (Some p)
    with st obtain i e where h: "at_hand fs1 i p e" by (auto simp: group_state_def)
    from save_unchanged [OF inv held_at_hand [OF inv h]] obtain fs2 where
      fs2: "updateEntry db p fs1 = Inr fs2" "fs_inv ents exts good fs2"
      "catalog_of ents exts (m_database fs2) =
        (catalog_of ents exts (m_database fs1))(i \<mapsto> cat_get (catalog_of ents exts (m_database fs1)) i)" .
    have "(catalog_of ents exts (m_database fs1))(i \<mapsto> cat_get (catalog_of ents exts (m_database fs1)) i) =
        catalog_of ents exts (m_database fs1)"
      using at_hand_settled(2) [OF inv h] by (auto simp: cat_get_def fun_eq_iff)
    with loop Some fs2 c show thesis by (intro that [of fs2]) (simp_all add: scan_group_def)
  qed
qed

lemma scan_groups_refine:
  assumes "fs_inv ents exts good fs" "node_xid mem bn = Inr xid" "decode_items mem pairs = Inr items"
    "\<forall>x \<in> set es. keyValues (snd x) = filter (\<lambda>p. pair_id mem p = fst x) pairs"
  shows "\<exists>fs'. for_each (\<lambda>x. scan_group db mem bn (keyValues (snd x))) es fs = Inr fs' \<and>
    fs_inv ents exts good fs' \<and> catalog_of ents exts (m_database fs') =
      fold (\<lambda>i. spec_group xid (records_of i items)) (map fst es) (catalog_of ents exts (m_database fs))"
  using assms(1,4)
proof (induction es arbitrary: fs)
  case (Cons x es)
  have "list_all2 (\<lambda>p r. decode_pair mem p = Inr r) (keyValues (snd x)) (records_of (fst x) items)"
    using decode_items_filter [OF assms(3)] Cons.prems(2) by simp
  from scan_group_refines [OF Cons.prems(1) assms(2) this] obtain fs1 where
    "scan_group db mem bn (keyValues (snd x)) fs = Inr fs1" "fs_inv ents exts good fs1"
    "catalog_of ents exts (m_database fs1) =
      spec_group xid (records_of (fst x) items) (catalog_of ents exts (m_database fs))" .
  with Cons.IH [of fs1] Cons.prems(2) show ?case by simp
qed simp

text \<open>A node whose items can be decoded is scanned without a fault, as \<open>spec_node\<close> says.\<close>

lemma scanBTreeBlock_refines:
  assumes "fs_inv ents exts good fs" "node_pairs (m_currentBlockSize sc) mem = Inr pairs"
    "decode_items mem pairs = Inr items" "node_xid mem 0 = Inr xid"
  obtains ids fs' where "scanBTreeBlock db mem (sc, fs) = Inr (sc\<lparr>m_objId2inode := ids\<rparr>, fs')"
    "fs_inv ents exts good fs'"
    "catalog_of ents exts (m_database fs') = spec_node xid items (catalog_of ents exts (m_database fs))"
proof -
  from for_each_group_total [OF assms(3)] obtain ids es where
    g: "for_each (group_pair mem) pairs (m_objId2inode sc, []) = Inr (ids, es)" by fastforce
  have "grouped mem [] []" by (simp add: grouped_def cmap.ok_empty cmap.find_empty)
  from for_each_grouped [OF g this] have es: "grouped mem pairs es" by simp
  note es' = grouped_entries [OF es]
  from scan_groups_refine [OF assms(1,4,3) es'(2)] obtain fs' where
    "for_each (\<lambda>x. scan_group db mem 0 (keyValues (snd x))) es fs = Inr fs'" "fs_inv ents exts good fs'"
    "catalog_of ents exts (m_database fs') =
      fold (\<lambda>i. spec_group xid (records_of i items)) (map fst es) (catalog_of ents exts (m_database fs))" by auto
  with assms(2) g es'(1) decode_items_ids [OF assms(3)] show thesis
    by (intro that [of ids fs']) (simp_all add: scanBTreeBlock_def spec_node_def)
qed

end

end
