(* ===== verification/Dump_Tree.thy ===== *)
theory Dump_Tree
  imports File_System_Inv
begin

text \<open>
  What \<open>FileSystem::dumpTree\<close> prints: the tree of the catalog below an entry, as the relation
  \<open>prints\<close>, and when its recursion ends. Both are proved once under the database contract.
\<close>

section \<open>The tree of a catalog\<close>

text \<open>
  \<open>prints c level i ls\<close>: the lines for entry \<open>i\<close>. An entry is followed by its extents and by the
  trees of its children, each child once; extents and children come in the order the database
  has for them, which is not fixed.
\<close>

inductive prints :: "catalog \<Rightarrow> nat \<Rightarrow> u64 \<Rightarrow> tree_line list \<Rightarrow> bool" for c where
  nothing: "prints c level 0 []"
| missing: "i \<noteq> 0 \<Longrightarrow> c i = None \<Longrightarrow> prints c level i [NotFoundLine level i]"
| found: "i \<noteq> 0 \<Longrightarrow> c i = Some (r, mset xs) \<Longrightarrow> distinct ks \<Longrightarrow> set ks = {j. child_of c i j} \<Longrightarrow>
    list_all2 (prints c (Suc level)) ks lss \<Longrightarrow>
    prints c level i (EntryLine level i (row_name r) (ucast (row_type r)) (row_length r)
      # map (\<lambda>x. ExtentLine level (fst x) (fst (snd x)) (snd (snd x))) xs @ concat lss)"

inductive_cases printsE: "prints c level i ls"

text \<open>What the program prints of a catalog: the title and the tree below the root directory.\<close>

definition prints_tree :: "catalog \<Rightarrow> tree_line list \<Rightarrow> bool" where
  "prints_tree c ls \<longleftrightarrow> (\<exists>ls'. ls = TitleLine # ls' \<and> prints c 0 2 ls')"

lemma prints_treeI: "prints c 0 2 ls \<Longrightarrow> prints_tree c (TitleLine # ls)"
  by (simp add: prints_tree_def)

lemma prints_treeE:
  assumes "prints_tree c ls"
  obtains ls' where "ls = TitleLine # ls'" "prints c 0 2 ls'"
  using assms by (auto simp: prints_tree_def)

context sql_store
begin

section \<open>What is printed\<close>

text \<open>
  \<open>dumpTree\<close> never faults: it ends with the lines it printed, in a state that extends the
  one it started in, or it runs out of fuel.
\<close>

definition dump_ok ::
  "(tree_line list \<Rightarrow> bool) \<Rightarrow> 'd filesystem \<Rightarrow> (tree_line list \<times> 'd filesystem) res option \<Rightarrow> bool" where
  "dump_ok Q fs res \<longleftrightarrow>
     res = None \<or> (\<exists>ls fs'. res = Some (Inr (ls, fs')) \<and> Q ls \<and> fs_inv ents exts good fs' \<and> extends fs fs')"

lemma child_of_rows:
  "good d \<Longrightarrow> child_of (catalog_of ents exts d) i j \<longleftrightarrow>
     j \<noteq> i \<and> (\<exists>r. ents d j = Some r \<and> row_inode r = j \<and> row_parent r = i)"
  by (auto simp: child_of_def catalog_of_def dest: key)

lemma dump_okE:
  assumes "dump_ok Q fs res"
  obtains "res = None"
    | ls fs' where "res = Some (Inr (ls, fs'))" "Q ls" "fs_inv ents exts good fs'" "extends fs fs'"
  using assms by (auto simp: dump_ok_def)

lemma dump_ok_weaken: "dump_ok Q fs res \<Longrightarrow> dump_ok (\<lambda>_. True) fs res"
  by (auto simp: dump_ok_def)

text \<open>The lines of the children, one list for each child other than the entry itself.\<close>

definition children_lines :: "(u64 \<Rightarrow> tree_line list \<Rightarrow> bool) \<Rightarrow> u64 \<Rightarrow> entry_row list \<Rightarrow> tree_line list \<Rightarrow> bool" where
  "children_lines Q i Rs ls \<longleftrightarrow>
     (\<exists>lss. ls = concat lss \<and> list_all2 Q (filter (\<lambda>j. j \<noteq> i) (map row_inode Rs)) lss)"

lemma children_lines_Nil: "children_lines Q i [] []"
  by (simp add: children_lines_def)

lemma children_lines_skip: "row_inode R = i \<Longrightarrow> children_lines Q i Rs ls \<Longrightarrow> children_lines Q i (R # Rs) ls"
  by (simp add: children_lines_def)

lemma children_lines_Cons:
  "row_inode R \<noteq> i \<Longrightarrow> Q (row_inode R) ls \<Longrightarrow> children_lines Q i Rs ls' \<Longrightarrow>
     children_lines Q i (R # Rs) (ls @ ls')"
  unfolding children_lines_def by (elim exE conjE) (rule_tac x = "ls # lss" in exI, simp)

lemma dump_children_ok:
  assumes "fs_inv ents exts good fs" "m_database fs = d" "list_all2 (loaded fs) ps Rs"
    and "\<And>R fs. R \<in> set Rs \<Longrightarrow> fs_inv ents exts good fs \<Longrightarrow> m_database fs = d
      \<Longrightarrow> dump_ok (Q (row_inode R)) fs (rec (row_inode R) fs)"
  shows "dump_ok (children_lines Q i Rs) fs (dump_children rec i ps fs)"
  using assms
proof (induction ps arbitrary: fs Rs)
  case Nil
  then show ?case by (simp add: dump_ok_def children_lines_Nil)
next
  case (Cons p ps)
  from Cons.prems(3) obtain R Rs' where Rs: "Rs = R # Rs'" "loaded fs p R" "list_all2 (loaded fs) ps Rs'"
    by (auto simp: list_all2_Cons1)
  from Rs(2) obtain e where e: "heap fs p = Some e" "inode e = row_inode R" by (auto simp: loaded_def)
  have IH: "dump_ok (children_lines Q i Rs') fs1 (dump_children rec i ps fs1)"
    if "fs_inv ents exts good fs1" "extends fs fs1" for fs1
  proof (rule Cons.IH [OF that(1) _ list_all2_mono [OF Rs(3)]])
    show "m_database fs1 = d" using that(2) Cons.prems(2) by (simp add: extends_def)
  qed (simp_all add: Rs(1) Cons.prems(4) extends_loaded [OF that(2)])
  show ?case
  proof (cases "inode e = i")
    case True
    then have "row_inode R = i" using e(2) by simp
    with e True IH [OF Cons.prems(1)] Rs(1) show ?thesis
      by (auto simp: deref_def dump_ok_def intro: children_lines_skip)
  next
    case False
    have "dump_ok (Q (row_inode R)) fs (rec (inode e) fs)" using Cons.prems(1,2,4) Rs(1) e(2) by simp
    then show ?thesis
    proof (cases rule: dump_okE)
      case 1
      with e False show ?thesis by (simp add: deref_def dump_ok_def)
    next
      case (2 ls fs1)
      have "dump_ok (children_lines Q i Rs') fs1 (dump_children rec i ps fs1)" by (rule IH [OF 2(3,4)])
      then show ?thesis
      proof (cases rule: dump_okE)
        case 1
        with e False 2(1) show ?thesis by (simp add: deref_def dump_ok_def)
      next
        case rest: (2 ls' fs2)
        have "children_lines Q i Rs (ls @ ls')"
          unfolding Rs(1) by (rule children_lines_Cons) (use False e(2) 2(2) rest(2) in simp_all)
        with e False 2(1) rest(1,3) extends_trans [OF 2(4) rest(4)] show ?thesis
          by (simp add: deref_def dump_ok_def)
      qed
    qed
  qed
qed

text \<open>\<open>dumpTree\<close> prints the tree of the catalog, unless it runs out of fuel.\<close>

lemma dumpTree_from_ok:
  "fs_inv ents exts good fs \<Longrightarrow>
     dump_ok (prints (catalog_of ents exts (m_database fs)) level i) fs (dumpTree_from fuel db i level fs)"
proof (induction fuel arbitrary: i level fs)
  case 0
  then show ?case by (simp add: dump_ok_def)
next
  case (Suc fuel)
  let ?c = "catalog_of ents exts (m_database fs)"
  obtain q fs1 where find: "findByInode db i fs = (q, fs1)" by fastforce
  note spec = findByInode_spec [OF Suc.prems find]
  obtain ps fs2 where ch: "findByParentInode db i fs1 = (ps, fs2)" by fastforce
  note spec2 = findByParentInode_spec [OF spec(1) ch]
  have d: "m_database fs1 = m_database fs" "m_database fs2 = m_database fs"
    using spec(2) spec2(2) by (simp_all add: extends_def)
  from spec2(3) d obtain Rs where Rs: "list_all2 (loaded fs2) ps Rs" "distinct Rs"
    "set Rs = {r. ents (m_database fs) (row_inode r) = Some r \<and> row_parent r = i}" by auto
  have "dump_ok (children_lines (prints ?c (Suc level)) i Rs) fs2
      (dump_children (\<lambda>i fs. dumpTree_from fuel db i (Suc level) fs) i ps fs2)"
    by (rule dump_children_ok [OF spec2(1) d(2) Rs(1)]) (use Suc.IH in metis)
  note rec = this
  show ?case
  proof (cases "i = 0 \<or> q = None")
    case True
    with find spec(1,2,3) Suc.prems show ?thesis
      by (auto simp: dump_ok_def intro: prints.intros)
  next
    case False
    with spec(3) obtain p e where p: "q = Some p" "heap fs1 p = Some e" "at_hand fs1 i p e"
      by (auto simp: at_hand_def)
    then have c: "?c i = Some (row_of e, mset (map row_of_extent (extents e)))"
      using at_hand_settled(2) [OF spec(1) p(3)] d by (simp add: abs_entry_def abs_extents_def)
    let ?ks = "filter (\<lambda>j. j \<noteq> i) (map row_inode Rs)"
    have ks: "distinct ?ks" "set ?ks = {j. child_of ?c i j}"
    proof -
      have "inj_on row_inode (set Rs)"
      proof (rule inj_onI)
        fix x y assume "x \<in> set Rs" "y \<in> set Rs" "row_inode x = row_inode y"
        with Rs(3) have "Some x = Some y" by (metis (mono_tags, lifting) mem_Collect_eq)
        then show "x = y" by simp
      qed
      then show "distinct ?ks" using Rs(2) by (simp add: distinct_map)
      show "set ?ks = {j. child_of ?c i j}"
        using Rs(3) fs_inv_good [OF Suc.prems] by (auto simp: child_of_rows image_iff)
    qed
    from rec show ?thesis
    proof (cases rule: dump_okE)
      case 1
      with False find ch p show ?thesis by (auto simp: dump_ok_def deref_def Let_def)
    next
      case (2 ls fs3)
      then obtain lss where lss: "ls = concat lss" "list_all2 (prints ?c (Suc level)) ?ks lss"
        by (auto simp: children_lines_def)
      have "prints ?c level i (EntryLine level i (row_name (row_of e)) (ucast (row_type (row_of e)))
          (row_length (row_of e)) # map (\<lambda>x. ExtentLine level (fst x) (fst (snd x)) (snd (snd x)))
          (map row_of_extent (extents e)) @ concat lss)"
        by (rule prints.found [OF _ c ks lss(2)]) (use False in simp)
      then have "prints ?c level i (EntryLine level i (entry_name e) (entry_type e) (entry_length e)
          # map (\<lambda>x. ExtentLine level (logicalAddress x) (physicalBlock x) (extent_length x)) (extents e) @ ls)"
        using lss(1) by (simp add: row_of_def row_of_extent_def type_round_trip comp_def)
      with 2 False find ch p extends_trans [OF extends_trans [OF spec(2) spec2(2)]] show ?thesis
        by (auto simp: dump_ok_def deref_def Let_def)
    qed
  qed
qed

section \<open>When it ends\<close>

text \<open>The loop over the children runs out of fuel when one of its calls does.\<close>

lemma dump_case_None:
  "(case x of None \<Rightarrow> None | Some (Inl f) \<Rightarrow> Some (g f) | Some (Inr (a, b)) \<Rightarrow> Some (h a b)) = None
     \<longleftrightarrow> x = None"
  by (auto split: option.split sum.split)

lemma dump_children_None:
  assumes "fs_inv ents exts good fs" "m_database fs = d" "list_all2 (loaded fs) ps Rs"
    and ok: "\<And>R fs. R \<in> set Rs \<Longrightarrow> fs_inv ents exts good fs \<Longrightarrow> dump_ok (\<lambda>_. True) fs (rec (row_inode R) fs)"
    and out: "\<And>R fs. R \<in> set Rs \<Longrightarrow> row_inode R \<noteq> i \<Longrightarrow> fs_inv ents exts good fs \<Longrightarrow> m_database fs = d
      \<Longrightarrow> rec (row_inode R) fs = None \<longleftrightarrow> row_inode R \<in> S"
  shows "dump_children rec i ps fs = None \<longleftrightarrow> (\<exists>R \<in> set Rs. row_inode R \<noteq> i \<and> row_inode R \<in> S)"
  using assms
proof (induction ps arbitrary: fs Rs)
  case Nil
  then show ?case by simp
next
  case (Cons p ps)
  from Cons.prems(3) obtain R Rs' where Rs: "Rs = R # Rs'" "loaded fs p R" "list_all2 (loaded fs) ps Rs'"
    by (auto simp: list_all2_Cons1)
  from Rs(2) obtain e where e: "heap fs p = Some e" "inode e = row_inode R" by (auto simp: loaded_def)
  have IH: "dump_children rec i ps fs1 = None \<longleftrightarrow> (\<exists>R \<in> set Rs'. row_inode R \<noteq> i \<and> row_inode R \<in> S)"
    if "fs_inv ents exts good fs1" "extends fs fs1" for fs1
  proof (rule Cons.IH [OF that(1) _ list_all2_mono [OF Rs(3)]])
    show "m_database fs1 = d" using that(2) Cons.prems(2) by (simp add: extends_def)
  qed (simp_all add: Rs(1) Cons.prems(4,5) extends_loaded [OF that(2)])
  show ?case
  proof (cases "inode e = i")
    case True
    with e IH [OF Cons.prems(1)] Rs(1) show ?thesis by (simp add: deref_def)
  next
    case False
    have head: "rec (inode e) fs = None \<longleftrightarrow> inode e \<in> S"
      using Cons.prems(1,2) Cons.prems(5) [of R fs] Rs(1) e(2) False by simp
    have "dump_ok (\<lambda>_. True) fs (rec (inode e) fs)" using Cons.prems(1,4) Rs(1) e(2) by simp
    then show ?thesis
    proof (cases rule: dump_okE)
      case 1
      with e False head Rs(1) show ?thesis by (simp add: deref_def)
    next
      case 2
      from IH [OF 2(3,4)] show ?thesis
        using e False head Rs(1) 2 by (simp add: deref_def dump_case_None)
    qed
  qed
qed

text \<open>
  \<open>dumpTree\<close> runs out of fuel exactly when the catalog has a chain of that many calls.
\<close>

lemma dumpTree_from_None:
  "fs_inv ents exts good fs \<Longrightarrow> dumpTree_from fuel db i level fs = None \<longleftrightarrow>
     runs_out (catalog_of ents exts (m_database fs)) fuel i"
proof (induction fuel arbitrary: i level fs)
  case (Suc fuel)
  let ?c = "catalog_of ents exts (m_database fs)"
  let ?S = "{j. runs_out ?c fuel j}"
  obtain q fs1 where find: "findByInode db i fs = (q, fs1)" by fastforce
  note spec = findByInode_spec [OF Suc.prems find]
  obtain ps fs2 where ch: "findByParentInode db i fs1 = (ps, fs2)" by fastforce
  note spec2 = findByParentInode_spec [OF spec(1) ch]
  have d: "m_database fs1 = m_database fs" "m_database fs2 = m_database fs"
    using spec(2) spec2(2) by (simp_all add: extends_def)
  from spec2(3) d obtain Rs where Rs: "list_all2 (loaded fs2) ps Rs"
    "set Rs = {r. ents (m_database fs) (row_inode r) = Some r \<and> row_parent r = i}" by auto
  have mem: "(\<exists>R \<in> set Rs. row_inode R \<noteq> i \<and> row_inode R \<in> ?S) \<longleftrightarrow> (\<exists>j. child_of ?c i j \<and> runs_out ?c fuel j)"
    unfolding Rs(2) child_of_rows [OF fs_inv_good [OF Suc.prems]] by auto
  have loop: "dump_children (\<lambda>i fs. dumpTree_from fuel db i (Suc level) fs) i ps fs2 = None \<longleftrightarrow>
      (\<exists>R \<in> set Rs. row_inode R \<noteq> i \<and> row_inode R \<in> ?S)"
    by (rule dump_children_None [OF spec2(1) d(2) Rs(1) dump_ok_weaken [OF dumpTree_from_ok]]) (simp_all add: Suc.IH)
  show ?case
  proof (cases q)
    case None
    with spec(3) find show ?thesis by simp
  next
    case (Some p)
    with spec(3) obtain e where e: "at_hand fs1 i p e" by auto
    then have "?c i \<noteq> None" using at_hand_settled(2) [OF spec(1) e] d by simp
    with Some e find ch loop [unfolded mem] show ?thesis
      by (simp add: at_hand_def deref_def Let_def dump_case_None)
  qed
qed simp

lemma dumpTree_None:
  "fs_inv ents exts good fs \<Longrightarrow>
     dumpTree fuel db fs = None \<longleftrightarrow> runs_out (catalog_of ents exts (m_database fs)) fuel 2"
  using dumpTree_from_None [where i = 2 and level = 0] by (simp add: dumpTree_def dump_case_None)

lemma dumpTree_ok:
  "fs_inv ents exts good fs \<Longrightarrow>
     dump_ok (prints_tree (catalog_of ents exts (m_database fs))) fs (dumpTree fuel db fs)"
  using dumpTree_from_ok [where fuel = fuel and i = 2 and level = 0]
  by (fastforce simp: dumpTree_def dump_ok_def intro: prints_treeI)

end

end
