(* ===== verification/File_System_Theorems.thy ===== *)
theory File_System_Theorems
  imports Dump_Tree
begin

text \<open>
  The properties of \<open>FileSystem\<close>, stated for any database that satisfies the contract
  \<open>sql_store\<close>, and their instances on the in-memory database.
\<close>

section \<open>A small store\<close>

text \<open>The root directory, and in it a file \<open>a\<close> (the byte 97) with one extent.\<close>

definition ex_root :: entry_row where
  "ex_root = \<lparr>row_inode = 2, row_parent = 1, row_version = 7, row_type = 4, row_name = [114],
     row_length = 0, row_extver = 0\<rparr>"

definition ex_file :: entry_row where
  "ex_file = \<lparr>row_inode = 16, row_parent = 2, row_version = 7, row_type = 8, row_name = [97],
     row_length = 5, row_extver = 7\<rparr>"

definition ex_tables :: tables where
  "ex_tables = \<lparr>entry_rows = [ex_root, ex_file], extent_rows = [(16, 0, 40, 4096)]\<rparr>"

definition ex_entry :: Entry where
  "ex_entry = new_Entry\<lparr>inode := 17, parentId := 2, versionId := 9, entry_type := 8, entry_name := [98],
     extents := [\<lparr>logicalAddress = 0, physicalBlock = 41, extent_length = 4096\<rparr>],
     extentVersionId := 9, extentsUpdated := True\<rparr>"

lemma ex_sext: "scast (ucast (4 :: u64) :: u32) = (4 :: u64)" "scast (ucast (8 :: u64) :: u32) = (8 :: u64)"
  by simp_all

lemma ex_db_inv: "db_inv mem_ents mem_exts mem_good ex_tables"
  by (auto simp: db_inv_def mem_good_def mem_ents_def mem_exts_def ex_tables_def ex_root_def ex_file_def
      split: if_splits)

lemma ex_no_tables: "db_inv mem_ents mem_exts mem_good no_tables"
  by (auto simp: db_inv_def mem_good_def mem_ents_def mem_exts_def no_tables_def)

definition ex_fs :: "tables filesystem" where
  "ex_fs = init mem_db ex_tables"

lemma ex_fs_inv: "fs_inv mem_ents mem_exts mem_good ex_fs"
  unfolding ex_fs_def by (rule mem.init_spec(1) [OF ex_db_inv])

lemma ex_fs_select [simp]:
  "m_database ex_fs = ex_tables" "heap ex_fs = Map.empty" "next_ptr ex_fs = 0" "m_diskEntries ex_fs = []"
  by (simp_all add: ex_fs_def init_def mem_execute_def)

lemma ex_catalog:
  "catalog_of mem_ents mem_exts ex_tables =
     [2 \<mapsto> (ex_root, {#}), 16 \<mapsto> (ex_file, {#(0, 40, 4096)#})]"
  by (auto simp: catalog_of_def mem_ents_def mem_exts_def ex_tables_def ex_root_def ex_file_def fun_eq_iff)

text \<open>The same with a new object that has not been stored yet.\<close>

definition ex_pending :: "tables filesystem" where
  "ex_pending = snd (alloc ex_entry ex_fs)"

lemma ex_pending_ok:
  "fs_inv_but {0} mem_ents mem_exts mem_good ex_pending" "pending mem_ents mem_exts ex_pending 0 ex_entry"
  using ex_db_inv
  by (simp_all add: ex_pending_def alloc_def fs_inv_but_def pending_def smap_find_def smap_ok_def
      ex_entry_def new_Entry_def mem_ents_def ex_tables_def ex_root_def ex_file_def)

section \<open>Reading back what was written\<close>

lemma row_of_eq:
  "row_of e = row_of e' \<Longrightarrow> inode e = inode e' \<and> parentId e = parentId e' \<and> versionId e = versionId e' \<and>
     entry_type e = entry_type e' \<and> entry_name e = entry_name e' \<and> entry_length e = entry_length e' \<and>
     extentVersionId e = extentVersionId e'"
  by (simp add: row_of_def) (metis type_round_trip)

lemma inj_row_of_extent: "inj row_of_extent"
  by (rule injI) (simp add: row_of_extent_def)

lemma abs_extents_eq: "abs_extents e = abs_extents e' \<longleftrightarrow> mset (extents e) = mset (extents e')"
  by (simp add: abs_extents_def inj_eq [OF multiset.inj_map [OF inj_row_of_extent]])

lemma abs_entry_eq:
  assumes "abs_entry e' = abs_entry e" "settled e'"
  shows "mset (extents e') = mset (extents e)"
    and "e' = e\<lparr>extents := extents e', isNew := False, extentsUpdated := False\<rparr>"
proof -
  from assms(1) have r: "row_of e' = row_of e" and x: "abs_extents e' = abs_extents e"
    by (simp_all add: abs_entry_def)
  from x show "mset (extents e') = mset (extents e)" by (simp add: abs_extents_eq)
  from row_of_eq [OF r] assms(2)
  show "e' = e\<lparr>extents := extents e', isNew := False, extentsUpdated := False\<rparr>"
    by (intro Entry.equality) (simp_all add: settled_def)
qed

context sql_store
begin

text \<open>Looking up an inode that the catalog has: the object agrees with the catalog.\<close>

lemma find_present:
  assumes inv: "fs_inv ents exts good fs" and find: "findByInode db i fs = (q, fs')"
    and c: "catalog_of ents exts (m_database fs) i = Some (abs_entry e)"
  obtains p e' where "q = Some p" "heap fs' p = Some e'" "settled e'" "abs_entry e' = abs_entry e"
proof -
  note spec = findByInode_spec [OF inv find]
  from spec(3) c obtain p e' where p: "q = Some p" "at_hand fs' i p e'" by (cases q) auto
  have "catalog_of ents exts (m_database fs') i = Some (abs_entry e)"
    using spec(2) c by (simp add: extends_def)
  with at_hand_settled [OF spec(1) p(2)] have "settled e'" "abs_entry e' = abs_entry e" by simp_all
  moreover have "heap fs' p = Some e'" using p(2) by (simp add: at_hand_def)
  ultimately show thesis using p(1) that by blast
qed

lemma reload:
  assumes "fs_inv_but {p} ents exts good fs" "pending ents exts fs p e" "updateEntry db p fs = Inr fs'"
    and find: "findByInode db (inode e) (init db (m_database fs')) = (q, fs2)"
  obtains r e' where "q = Some r" "heap fs2 r = Some e'" "settled e'" "abs_entry e' = abs_entry e"
proof -
  obtain fs1 where fs1: "updateEntry db p fs = Inr fs1" "fs_inv ents exts good fs1"
    "catalog_of ents exts (m_database fs1) = (catalog_of ents exts (m_database fs))(inode e \<mapsto> abs_entry e)"
    using updateEntry_spec [OF assms(1,2)] by blast
  then have d: "db_inv ents exts good (m_database fs')" and c:
    "catalog_of ents exts (m_database fs') (inode e) = Some (abs_entry e)"
    using assms(3) by (simp_all add: fs_inv_but_def)
  from c init_spec(2) [OF d]
  have "catalog_of ents exts (m_database (init db (m_database fs'))) (inode e) = Some (abs_entry e)" by simp
  with init_spec(1) [OF d] find obtain r e' where "q = Some r" "heap fs2 r = Some e'" "settled e'"
    "abs_entry e' = abs_entry e" by (rule find_present)
  then show thesis by (rule that)
qed

lemma find_twice:
  assumes inv: "fs_inv ents exts good fs" and find: "findByInode db i fs = (q, fs')"
  shows "findByInode db i fs' = (q, fs')"
proof (cases q)
  case None
  with findByInode_spec(3) [OF inv find] find show ?thesis by simp
next
  case (Some p)
  with findByInode_spec(3) [OF inv find] show ?thesis by (auto simp: findByInode_def at_hand_def)
qed

text \<open>The objects of a list of loaded rows.\<close>

lemma loaded_objects:
  "list_all2 (loaded fs) ps Rs \<Longrightarrow> \<exists>es. map (heap fs) ps = map Some es \<and> map inode es = map row_inode Rs \<and>
     map abs_entry es = map (\<lambda>R. (R, exts (m_database fs) (row_inode R))) Rs"
proof (induction rule: list_all2_induct)
  case (Cons p ps R Rs)
  then obtain e es where "heap fs p = Some e" "inode e = row_inode R"
    "abs_entry e = (R, exts (m_database fs) (row_inode R))"
    "map (heap fs) ps = map Some es" "map inode es = map row_inode Rs"
    "map abs_entry es = map (\<lambda>R. (R, exts (m_database fs) (row_inode R))) Rs"
    by (auto simp: loaded_def)
  then show ?case by (intro exI [of _ "e # es"]) simp
qed simp

lemma children_objects:
  assumes inv: "fs_inv ents exts good fs" and find: "findByParentInode db i fs = (ps, fs')"
  obtains es where "map (heap fs') ps = map Some es" "distinct (map inode es)"
    "abs_entry ` set es = {c. \<exists>j. catalog_of ents exts (m_database fs) j = Some c \<and> row_parent (fst c) = i}"
proof -
  let ?d = "m_database fs"
  note spec = findByParentInode_spec [OF inv find]
  note good = fs_inv_good [OF inv]
  have d: "m_database fs' = ?d" using spec(2) by (simp add: extends_def)
  from spec(3) obtain Rs where Rs: "list_all2 (loaded fs') ps Rs" "distinct Rs"
    "set Rs = {r. ents ?d (row_inode r) = Some r \<and> row_parent r = i}" by auto
  from loaded_objects [OF Rs(1)] obtain es where es: "map (heap fs') ps = map Some es"
    "map inode es = map row_inode Rs" "map abs_entry es = map (\<lambda>R. (R, exts ?d (row_inode R))) Rs"
    unfolding d by blast
  have "inj_on row_inode (set Rs)" by (rule inj_onI) (simp add: Rs(3))
  with Rs(2) have "distinct (map inode es)" unfolding es(2) by (simp add: distinct_map)
  moreover have "abs_entry ` set es = (\<lambda>R. (R, exts ?d (row_inode R))) ` set Rs"
    using arg_cong [OF es(3), of set] by simp
  moreover have "(\<lambda>R. (R, exts ?d (row_inode R))) ` set Rs =
      {c. \<exists>j. catalog_of ents exts ?d j = Some c \<and> row_parent (fst c) = i}"
  proof (intro subset_antisym subsetI)
    fix c assume "c \<in> (\<lambda>R. (R, exts ?d (row_inode R))) ` set Rs"
    then show "c \<in> {c. \<exists>j. catalog_of ents exts ?d j = Some c \<and> row_parent (fst c) = i}"
      by (auto simp: Rs(3) catalog_row [OF good])
  next
    fix c assume "c \<in> {c. \<exists>j. catalog_of ents exts ?d j = Some c \<and> row_parent (fst c) = i}"
    then obtain j where j: "catalog_of ents exts ?d j = Some c" "row_parent (fst c) = i" by auto
    then have "ents ?d j = Some (fst c)" "snd c = exts ?d j"
      by (metis catalog_row [OF good] prod.collapse)+
    with key [OF good] j(2) have "fst c \<in> set Rs" "snd c = exts ?d (row_inode (fst c))"
      by (auto simp: Rs(3))
    then show "c \<in> (\<lambda>R. (R, exts ?d (row_inode R))) ` set Rs"
      by (intro image_eqI [of _ _ "fst c"]) (simp_all add: prod_eq_iff)
  qed
  ultimately show thesis using es(1) that by simp
qed

end

section \<open>Properties\<close>

text \<open>
  C10. Storing an entry. On an object that is new and unknown, or cached, with changes not
  yet written, \<open>updateEntry\<close> does not fault, restores the agreement of cache and database,
  and is the update of the catalog at the inode of the entry; no other inode changes.
\<close>
theorem updateEntry_updates_catalog:
  assumes "sql_store db ents exts good"
    and "fs_inv_but {p} ents exts good fs" and "pending ents exts fs p e"
  shows "\<exists>fs'. updateEntry db p fs = Inr fs' \<and> fs_inv ents exts good fs' \<and>
    catalog_of ents exts (m_database fs') =
      (catalog_of ents exts (m_database fs))(inode e \<mapsto> abs_entry e)"
  using sql_store.updateEntry_spec [OF assms] by metis

theorem updateEntry_updates_catalog_witness:
  "\<exists>fs'. updateEntry mem_db 0 ex_pending = Inr fs' \<and> fs_inv mem_ents mem_exts mem_good fs' \<and>
    catalog_of mem_ents mem_exts (m_database fs') =
      (catalog_of mem_ents mem_exts (m_database ex_pending))(17 \<mapsto> abs_entry ex_entry)"
  using updateEntry_updates_catalog [OF mem.sql_store_axioms ex_pending_ok] by (simp add: ex_entry_def)

text \<open>
  C11. What is stored is found again. After \<open>updateEntry\<close>, a new process that opens the same
  database finds the entry under its inode with every field as it was stored (the \<open>int\<close>
  type survives its way through a 64-bit column) and with the same extents.
\<close>
theorem stored_entry_is_reloaded:
  assumes "sql_store db ents exts good"
    and "fs_inv_but {p} ents exts good fs" and "pending ents exts fs p e"
    and "updateEntry db p fs = Inr fs'"
    and "findByInode db (inode e) (init db (m_database fs')) = (q, fs2)"
  shows "\<exists>r e'. q = Some r \<and> heap fs2 r = Some e' \<and> mset (extents e') = mset (extents e) \<and>
    e' = e\<lparr>extents := extents e', isNew := False, extentsUpdated := False\<rparr>"
  using sql_store.reload [OF assms] abs_entry_eq by metis

theorem stored_entry_is_reloaded_witness:
  "\<exists>fs' r fs2 e'. updateEntry mem_db 0 ex_pending = Inr fs' \<and>
     findByInode mem_db 17 (init mem_db (m_database fs')) = (Some r, fs2) \<and>
     heap fs2 r = Some e' \<and> entry_name e' = [98] \<and> entry_type e' = 8"
proof -
  obtain fs' where fs': "updateEntry mem_db 0 ex_pending = Inr fs'"
    using mem.updateEntry_spec [OF ex_pending_ok] by blast
  obtain q fs2 where find: "findByInode mem_db (inode ex_entry) (init mem_db (m_database fs')) = (q, fs2)"
    by fastforce
  from stored_entry_is_reloaded [OF mem.sql_store_axioms ex_pending_ok fs' find]
  obtain r e' where r: "q = Some r" "heap fs2 r = Some e'"
    and e: "e' = ex_entry\<lparr>extents := extents e', isNew := False, extentsUpdated := False\<rparr>" by auto
  from arg_cong [OF e, of entry_name] arg_cong [OF e, of entry_type]
  have "entry_name e' = [98]" "entry_type e' = 8" by (simp_all add: ex_entry_def)
  moreover have "findByInode mem_db 17 (init mem_db (m_database fs')) = (Some r, fs2)"
    using find r(1) by (simp add: ex_entry_def)
  ultimately show ?thesis using fs' r(2) by blast
qed

text \<open>
  Looking up an inode. \<open>findByInode\<close> returns null exactly when the catalog has no such
  entry; otherwise it returns an object that agrees with the catalog, and every later lookup
  of the inode returns the same object (so a change made through one pointer is seen through
  the other). The database and the objects already there stay as they are.
\<close>
lemma findByInode_agrees_with_catalog:
  assumes "sql_store db ents exts good" and "fs_inv ents exts good fs"
    and "findByInode db i fs = (q, fs')"
  shows "fs_inv ents exts good fs' \<and> extends fs fs' \<and>
    map_option abs_entry (case q of None \<Rightarrow> None | Some p \<Rightarrow> heap fs' p) =
      catalog_of ents exts (m_database fs) i \<and>
    findByInode db i fs' = (q, fs')"
proof -
  note spec = sql_store.findByInode_spec [OF assms]
  have d: "m_database fs' = m_database fs" using spec(2) by (simp add: extends_def)
  have "map_option abs_entry (case q of None \<Rightarrow> None | Some p \<Rightarrow> heap fs' p) =
      catalog_of ents exts (m_database fs) i"
  proof (cases q)
    case None
    with spec(3) show ?thesis by simp
  next
    case (Some p)
    with spec(3) obtain e where e: "at_hand fs' i p e" by auto
    then have "heap fs' p = Some e" by (simp add: at_hand_def)
    with Some at_hand_settled(2) [OF spec(1) e] d show ?thesis by simp
  qed
  with spec(1,2) sql_store.find_twice [OF assms] show ?thesis by simp
qed

lemma findByInode_agrees_with_catalog_witness:
  "\<exists>p fs' e. findByInode mem_db 16 ex_fs = (Some p, fs') \<and> heap fs' p = Some e \<and> row_of e = ex_file"
proof -
  obtain q fs' where f: "findByInode mem_db 16 ex_fs = (q, fs')" by fastforce
  have "map_option abs_entry (case q of None \<Rightarrow> None | Some p \<Rightarrow> heap fs' p) = Some (ex_file, {#(0, 40, 4096)#})"
    using findByInode_agrees_with_catalog [OF mem.sql_store_axioms ex_fs_inv f] by (simp add: ex_catalog)
  with f show ?thesis by (auto simp: abs_entry_def split: option.splits)
qed

text \<open>
  Listing a directory. \<open>findByParentInode\<close> returns one object for each entry of the
  catalog whose parent is the given inode, each once and agreeing with the catalog, and no
  others.
\<close>
lemma findByParentInode_lists_children:
  assumes "sql_store db ents exts good" and "fs_inv ents exts good fs"
    and "findByParentInode db i fs = (ps, fs')"
  shows "fs_inv ents exts good fs' \<and> extends fs fs' \<and>
    (\<exists>es. map (heap fs') ps = map Some es \<and> distinct (map inode es) \<and>
       abs_entry ` set es =
         {c. \<exists>j. catalog_of ents exts (m_database fs) j = Some c \<and> row_parent (fst c) = i})"
proof -
  from assms obtain es where "map (heap fs') ps = map Some es" "distinct (map inode es)"
    "abs_entry ` set es = {c. \<exists>j. catalog_of ents exts (m_database fs) j = Some c \<and> row_parent (fst c) = i}"
    by (rule sql_store.children_objects)
  with sql_store.findByParentInode_spec(1,2) [OF assms] show ?thesis by blast
qed

lemma findByParentInode_lists_children_witness:
  "\<exists>p fs' e. findByParentInode mem_db 2 ex_fs = ([p], fs') \<and> heap fs' p = Some e \<and> row_of e = ex_file"
proof -
  obtain ps fs' where f: "findByParentInode mem_db 2 ex_fs = (ps, fs')" by fastforce
  have kids: "{c. \<exists>j. catalog_of mem_ents mem_exts ex_tables j = Some c \<and> row_parent (fst c) = 2} =
      {(ex_file, {#(0, 40, 4096)#})}"
    by (auto simp: ex_catalog ex_root_def ex_file_def split: if_splits intro: exI [of _ 16])
  from findByParentInode_lists_children [OF mem.sql_store_axioms ex_fs_inv f, unfolded ex_fs_select kids]
  obtain es where es: "map (heap fs') ps = map Some es" "distinct (map inode es)"
    "abs_entry ` set es = {(ex_file, {#(0, 40, 4096)#})}" by blast
  then have rows: "\<forall>e \<in> set es. row_of e = ex_file" by (auto simp: abs_entry_def)
  then have "\<forall>e \<in> set es. inode e = 16" by (metis ex_file_def entry_row.select_convs(1) row_inode_row_of)
  with es(2) have "length es \<le> 1"
    by (cases es; cases "tl es") auto
  moreover from es(3) have "es \<noteq> []" by auto
  ultimately obtain e where "es = [e]" by (cases es; cases "tl es") auto
  with es(1) rows f show ?thesis by (auto simp: map_eq_Cons_conv)
qed

text \<open>
  C12. Looking a path up. If the root directory (inode 2) is in the catalog, \<open>findByPath\<close> does
  not fault. The object it returns is one the names of the path lead to and agrees with the
  catalog; it returns null only if no entry has that path (when no directory has two entries
  of one name, so that there is nothing to choose from).
\<close>
theorem findByPath_follows_path:
  assumes "sql_store db ents exts good" and "fs_inv ents exts good fs"
    and "catalog_of ents exts (m_database fs) 2 \<noteq> None"
  shows "\<exists>q fs'. findByPath splitString db path fs = Inr (q, fs') \<and> fs_inv ents exts good fs' \<and>
    extends fs fs' \<and> resolves (catalog_of ents exts (m_database fs)) 2 (splitString path 47) fs' q"
  using sql_store.findByPath_spec [OF assms] by blast

text \<open>A \<open>splitString\<close> for the examples: the non-empty parts between the separators.\<close>

fun ex_parts :: "u8 \<Rightarrow> cpp_string \<Rightarrow> cpp_string \<Rightarrow> cpp_string list" where
  "ex_parts sep acc [] = [rev acc]"
| "ex_parts sep acc (c # s) = (if c = sep then rev acc # ex_parts sep [] s else ex_parts sep (c # acc) s)"

definition ex_split :: "cpp_string \<Rightarrow> u8 \<Rightarrow> cpp_string list" where
  "ex_split s sep = filter (\<lambda>p. p \<noteq> []) (ex_parts sep [] s)"

lemma ex_split_root [simp]: "ex_split [47] 47 = []" "ex_split [47, 97] 47 = [[97]]"
  by (simp_all add: ex_split_def)

lemma ex_unique_names: "unique_names (catalog_of mem_ents mem_exts ex_tables)"
  by (auto simp: unique_names_def ex_catalog ex_root_def ex_file_def split: if_splits)

lemma ex_path: "path_to (catalog_of mem_ents mem_exts ex_tables) 2 [[97]] k \<longleftrightarrow> k = 16"
  by (auto simp: path_to_Cons ex_catalog ex_root_def ex_file_def split: if_splits intro: exI [of _ 16])

theorem findByPath_follows_path_witness:
  "\<exists>p fs' e. findByPath ex_split mem_db [47, 97] ex_fs = Inr (Some p, fs') \<and> heap fs' p = Some e \<and>
     row_of e = ex_file"
proof -
  have root: "catalog_of mem_ents mem_exts (m_database ex_fs) 2 \<noteq> None" by (simp add: ex_catalog)
  from findByPath_follows_path [OF mem.sql_store_axioms ex_fs_inv root, of ex_split "[47, 97]"]
  obtain q fs' where f: "findByPath ex_split mem_db [47, 97] ex_fs = Inr (q, fs')"
    "resolves (catalog_of mem_ents mem_exts ex_tables) 2 [[97]] fs' q" by auto
  from f(2) ex_unique_names obtain p e where "q = Some p" "heap fs' p = Some e" "inode e = 16"
    "catalog_of mem_ents mem_exts ex_tables (inode e) = Some (abs_entry e)"
    by (cases q) (auto simp: resolves_def ex_path)
  with f(1) show ?thesis by (auto simp: ex_catalog abs_entry_def)
qed

text \<open>
  Without a root. When the catalog has no entry for inode 2 (nothing was recovered yet,
  or only a part of the tree), looking up any path with at least one name dereferences the
  null pointer.
\<close>
lemma findByPath_without_root:
  assumes "sql_store db ents exts good" and "fs_inv ents exts good fs"
    and "catalog_of ents exts (m_database fs) 2 = None" and "splitString path 47 \<noteq> []"
  shows "findByPath splitString db path fs = Inl NullDeref"
  using sql_store.findByPath_root_missing [OF assms(1,2,3)] assms(4) by simp

lemma findByPath_without_root_witness:
  "findByPath ex_split mem_db [47, 97] (init mem_db no_tables) = Inl NullDeref"
  by (rule findByPath_without_root [OF mem.sql_store_axioms mem.init_spec(1) [OF ex_no_tables]])
    (simp_all add: init_def mem_execute_def catalog_of_def mem_ents_def no_tables_def)

text \<open>
  C33. Clearing. On a file system with nothing cached, \<open>clear\<close> leaves the empty catalog and
  the invariant holds. The cache itself is not cleared: an entry that was cached before is
  not found in the database any more, and storing it, however changed, writes an update that
  matches no row, so the entry stays missing.
\<close>
theorem clear_empties_catalog:
  assumes "sql_store db ents exts good" and "fs_inv ents exts good fs"
  shows "catalog_of ents exts (m_database (clear db fs)) = Map.empty \<and>
    (m_diskEntries fs = [] \<longrightarrow> fs_inv ents exts good (clear db fs)) \<and>
    (\<forall>p e. \<not> isNew e \<longrightarrow> (\<exists>fs'. updateEntry db p (store p e (clear db fs)) = Inr fs' \<and>
       catalog_of ents exts (m_database fs') = Map.empty))"
proof (intro conjI impI allI)
  note spec = sql_store.clear_spec [OF assms(1) fs_inv_good [OF assms(2)]]
  show "catalog_of ents exts (m_database (clear db fs)) = Map.empty"
    using spec(2) by (simp add: catalog_of_def fun_eq_iff)
  show "fs_inv ents exts good (clear db fs)" if "m_diskEntries fs = []"
    using sql_store.clear_inv(1) [OF assms that] .
  show "\<exists>fs'. updateEntry db p (store p e (clear db fs)) = Inr fs' \<and>
       catalog_of ents exts (m_database fs') = Map.empty" if "\<not> isNew e" for p e
  proof -
    let ?fs = "store p e (clear db fs)"
    have "good (m_database ?fs)" "heap ?fs p = Some e" "ents (m_database ?fs) (inode e) = None"
      using spec(1,2) by simp_all
    with assms(1) that obtain fs' where "updateEntry db p ?fs = Inr fs'"
      "ents (m_database fs') = ents (m_database ?fs)"
      using sql_store.updateEntry_lost by metis
    then show ?thesis using spec(2) by (auto simp: catalog_of_def fun_eq_iff)
  qed
qed

theorem clear_empties_catalog_witness:
  "catalog_of mem_ents mem_exts (m_database (clear mem_db ex_fs)) = Map.empty \<and>
   fs_inv mem_ents mem_exts mem_good (clear mem_db ex_fs)"
  using clear_empties_catalog [OF mem.sql_store_axioms ex_fs_inv] by simp

text \<open>
  C26. Printing the tree ends. If the entries that can be reached from the root can be ranked so that each
  has a higher rank than its children (no cycle below the root; what other entries do to each other
  does not matter), then \<open>dumpTree\<close> with more
  fuel than the rank of the root returns, without a fault, having printed the title and the tree of the catalog below the
  root (each entry, its extents, then its children one level deeper, each child once), and
  changes neither the database nor any object.
\<close>
theorem dumpTree_terminates:
  assumes "sql_store db ents exts good" and "fs_inv ents exts good fs"
    and "\<And>i j. (child_of (catalog_of ents exts (m_database fs)))\<^sup>*\<^sup>* 2 i \<Longrightarrow>
      child_of (catalog_of ents exts (m_database fs)) i j \<Longrightarrow> rank j < (rank i :: nat)"
    and "rank 2 < fuel"
  shows "\<exists>ls fs'. dumpTree fuel db fs = Some (Inr (ls, fs')) \<and>
    prints_tree (catalog_of ents exts (m_database fs)) ls \<and> fs_inv ents exts good fs' \<and> extends fs fs'"
proof -
  have "\<not> runs_out (catalog_of ents exts (m_database fs)) fuel 2"
    using assms(3) rtranclp.rtrancl_refl assms(4) by (rule runs_out_ranked_below)
  then have "dumpTree fuel db fs \<noteq> None" by (simp add: sql_store.dumpTree_None [OF assms(1,2)])
  with sql_store.dumpTree_ok [OF assms(1,2), of fuel] show ?thesis
    by (auto simp: sql_store.dump_ok_def [OF assms(1)])
qed

text \<open>A catalog with two directories beside the root that are each other's parent.\<close>

definition ex_side_cycle :: tables where
  "ex_side_cycle = \<lparr>entry_rows = [ex_root, ex_file\<lparr>row_inode := 20, row_parent := 21\<rparr>, ex_file\<lparr>row_inode := 21, row_parent := 20\<rparr>],
     extent_rows = []\<rparr>"

lemma ex_side_cycle_inv: "db_inv mem_ents mem_exts mem_good ex_side_cycle"
  by (auto simp: db_inv_def mem_good_def mem_ents_def mem_exts_def ex_side_cycle_def ex_root_def ex_file_def
      split: if_splits)

theorem dumpTree_terminates_witness:
  "\<exists>ls fs'. dumpTree 1 mem_db (init mem_db ex_side_cycle) = Some (Inr (ls, fs')) \<and>
     ls = [TitleLine, EntryLine 0 2 (row_name ex_root) (ucast (row_type ex_root)) (row_length ex_root)]"
proof -
  let ?c = "catalog_of mem_ents mem_exts (m_database (init mem_db ex_side_cycle))"
  have c: "?c = [2 \<mapsto> (ex_root, {#}), 20 \<mapsto> (ex_file\<lparr>row_inode := 20, row_parent := 21\<rparr>, {#}),
      21 \<mapsto> (ex_file\<lparr>row_inode := 21, row_parent := 20\<rparr>, {#})]"
    by (auto simp: init_def mem_execute_def catalog_of_def mem_ents_def mem_exts_def ex_side_cycle_def
        ex_root_def ex_file_def fun_eq_iff)
  have none: "\<not> child_of ?c 2 j" for j
    unfolding c by (auto simp: child_of_def ex_root_def ex_file_def split: if_splits)
  have "i = 2" if "(child_of ?c)\<^sup>*\<^sup>* 2 i" for i
    using that none by (induction rule: rtranclp_induct) auto
  then have rank: "(0 :: nat) < 0" if "(child_of ?c)\<^sup>*\<^sup>* 2 i" "child_of ?c i j" for i j
    using that none by auto
  have "\<exists>ls fs'. dumpTree 1 mem_db (init mem_db ex_side_cycle) = Some (Inr (ls, fs')) \<and> prints_tree ?c ls \<and>
      fs_inv mem_ents mem_exts mem_good fs' \<and> extends (init mem_db ex_side_cycle) fs'"
    by (rule dumpTree_terminates [where rank = "\<lambda>_. 0", OF mem.sql_store_axioms mem.init_spec(1) [OF ex_side_cycle_inv]])
      (use rank in simp_all)
  then obtain ls fs' where t: "dumpTree 1 mem_db (init mem_db ex_side_cycle) = Some (Inr (ls, fs'))" "prints_tree ?c ls" by blast
  from t(2) obtain ls' where ls: "ls = TitleLine # ls'" "prints ?c 0 2 ls'" by (rule prints_treeE)
  have c2: "?c 2 = Some (ex_root, {#})" by (simp add: c)
  from ls(2) obtain ks lss where "set ks = {j. child_of ?c 2 j}" "list_all2 (prints ?c (Suc 0)) ks lss"
    "ls' = EntryLine 0 2 (row_name ex_root) (ucast (row_type ex_root)) (row_length ex_root) # concat lss"
    by (cases rule: prints.cases) (simp_all add: c2)
  with none have "ls' = [EntryLine 0 2 (row_name ex_root) (ucast (row_type ex_root)) (row_length ex_root)]" by simp
  with t(1) ls(1) show ?thesis by blast
qed

text \<open>
  C27. Printing a cyclic catalog does not end. If every entry of a set containing the root
  has a child in the set other than itself (two directories that are recorded as each other's
  parent, which stale blocks can produce), no amount of fuel is enough.
\<close>
theorem dumpTree_diverges_on_cycle:
  assumes "sql_store db ents exts good" and "fs_inv ents exts good fs"
    and "2 \<in> S" and "\<And>i. i \<in> S \<Longrightarrow> i \<noteq> 0 \<and> catalog_of ents exts (m_database fs) i \<noteq> None \<and>
      (\<exists>j \<in> S. child_of (catalog_of ents exts (m_database fs)) i j)"
  shows "dumpTree fuel db fs = None"
  using sql_store.dumpTree_None [OF assms(1,2)] runs_out_cycle [OF assms(4,3)] by simp

definition ex_cycle :: tables where
  "ex_cycle = \<lparr>entry_rows = [ex_root\<lparr>row_parent := 3\<rparr>, ex_file\<lparr>row_inode := 3, row_type := 4\<rparr>], extent_rows = []\<rparr>"

lemma ex_cycle_inv: "db_inv mem_ents mem_exts mem_good ex_cycle"
  by (auto simp: db_inv_def mem_good_def mem_ents_def mem_exts_def ex_cycle_def ex_root_def ex_file_def
      split: if_splits)

theorem dumpTree_diverges_on_cycle_witness:
  "\<forall>fuel. dumpTree fuel mem_db (init mem_db ex_cycle) = None"
proof
  fix fuel
  have c: "catalog_of mem_ents mem_exts (m_database (init mem_db ex_cycle)) =
      [2 \<mapsto> (ex_root\<lparr>row_parent := 3\<rparr>, {#}), 3 \<mapsto> (ex_file\<lparr>row_inode := 3, row_type := 4\<rparr>, {#})]"
    by (auto simp: init_def mem_execute_def catalog_of_def mem_ents_def mem_exts_def ex_cycle_def
        ex_root_def ex_file_def fun_eq_iff)
  show "dumpTree fuel mem_db (init mem_db ex_cycle) = None"
    by (rule dumpTree_diverges_on_cycle [OF mem.sql_store_axioms mem.init_spec(1) [OF ex_cycle_inv], of "{2, 3}"])
      (auto simp: c child_of_def ex_root_def ex_file_def)
qed

end
