(* ===== verification/Scanner_Example.thy ===== *)
theory Scanner_Example
  imports Scanner_Spec File_System_Theorems
begin

text \<open>
  A B-tree node as it lies on disk, of transaction 7, for the closed examples: a directory
  record of directory 2 that names file 16 \<open>a\<close>, the inode record of the file, with its
  length, and its one extent. The block is 300 bytes long and its checksum is valid.
\<close>

definition ex_node_body :: "u8 list" where
  "ex_node_body =
     le_bytes 8 (0x404 :: u64) @ le_bytes 8 (7 :: u64) @ le_bytes 4 (3 :: u32) @ le_bytes 4 (14 :: u32) @
     le_bytes 2 (2 :: u16) @ le_bytes 2 (0 :: u16) @ le_bytes 4 (3 :: u32) @
     le_bytes 2 (0 :: u16) @ le_bytes 2 (24 :: u16) @ [0, 0, 0, 0, 0, 0, 0, 0, 0, 0, 0, 0] @
     concat (map (le_bytes 2) [0, 14, 18, 18, 14, 8, 158, 140, 22, 16, 182, 24 :: u16]) @
     le_bytes 8 (0x9000000000000002 :: u64) @ le_bytes 4 (2 :: u32) @ [97, 0] @
     le_bytes 8 (0x3000000000000010 :: u64) @
     le_bytes 8 (0x8000000000000010 :: u64) @ le_bytes 8 (0 :: u64) @
     le_bytes 8 (4096 :: u64) @ le_bytes 8 (40 :: u64) @ le_bytes 8 (0 :: u64) @
     le_bytes 8 (2 :: u64) @ le_bytes 8 (16 :: u64) @ [0, 0, 0, 0, 0, 0, 0, 0, 0, 0, 0, 0, 0, 0, 0, 0, 0, 0, 0, 0, 0, 0, 0, 0, 0, 0, 0, 0, 0, 0,
      0, 0, 0, 0, 0, 0, 0, 0, 0, 0, 0, 0, 0, 0, 0, 0, 0, 0, 0, 0, 0, 0, 0, 0, 0, 0, 0, 0, 0, 0,
      0, 0, 0, 0, 0, 0, 0, 0, 0, 0, 0, 0, 0, 0, 0, 0] @
     le_bytes 2 (1 :: u16) @ le_bytes 2 (40 :: u16) @ [8, 0] @ le_bytes 2 (40 :: u16) @
     le_bytes 8 (5 :: u64) @ le_bytes 8 (4096 :: u64) @ [0, 0, 0, 0, 0, 0, 0, 0, 0, 0, 0, 0, 0, 0, 0, 0, 0, 0, 0, 0, 0, 0, 0, 0] @
     le_bytes 8 (16 :: u64) @ le_bytes 8 (0 :: u64) @ le_bytes 2 (8 :: u16)"

lemma le_bytes_simps:
  "le_bytes 2 w = [ucast w, ucast (drop_bit 8 w)]"
  "le_bytes 4 w = [ucast w, ucast (drop_bit 8 w), ucast (drop_bit 16 w), ucast (drop_bit 24 w)]"
  "le_bytes 8 w = [ucast w, ucast (drop_bit 8 w), ucast (drop_bit 16 w), ucast (drop_bit 24 w),
     ucast (drop_bit 32 w), ucast (drop_bit 40 w), ucast (drop_bit 48 w), ucast (drop_bit 56 w)]"
  by (simp_all add: numeral_eq_Suc drop_bit_drop_bit)

definition ex_node :: "u8 list" where
  "ex_node = le_bytes 8 (0x594CFE62F53E4B3C :: u64) @ ex_node_body"

text \<open>The checksum of the body, word by word.\<close>

fun words_of :: "u8 list \<Rightarrow> u32 list" where
  "words_of (a # b # c # d # bs) = le_word [a, b, c, d] # words_of bs"
| "words_of _ = []"

lemma words_of_4: "4 \<le> length bs \<Longrightarrow> words_of bs = le_word (take 4 bs) # words_of (drop 4 bs)"
  by (cases bs rule: words_of.cases) simp_all

lemma fletcher_loop_foldl:
  "k + 4 * n \<le> length mem \<Longrightarrow>
     fletcher_loop mem (int k) n s = Inr (foldl fletcher_step s (take n (words_of (drop k mem))))"
proof (induction n arbitrary: k s)
  case (Suc n)
  have "words_of (drop k mem) = le_word (take 4 (drop k mem)) # words_of (drop (k + 4) mem)"
    using Suc.prems words_of_4 [of "drop k mem"] by (simp add: add.commute)
  moreover have "rd32 mem (int k) = Inr (le_word (take 4 (drop k mem)))"
    using Suc.prems by (simp add: rd32_def rd_bytes_def)
  moreover have "int k + 4 = int (k + 4)" by simp
  ultimately show ?case using Suc.IH [of "k + 4"] Suc.prems by simp
qed simp

lemma length_ex_node: "length ex_node = 300"
  by (simp add: ex_node_def ex_node_body_def)

lemma ex_node_bytes: "ex_node =
  [60, 75, 62, 245, 98, 254, 76, 89, 4, 4, 0, 0, 0, 0, 0, 0, 7, 0, 0, 0, 0, 0, 0, 0, 3, 0, 0, 0,
   14, 0, 0, 0, 2, 0, 0, 0, 3, 0, 0, 0, 0, 0, 24, 0, 0, 0, 0, 0, 0, 0, 0, 0, 0, 0, 0, 0,
   0, 0, 14, 0, 18, 0, 18, 0, 14, 0, 8, 0, 158, 0, 140, 0, 22, 0, 16, 0, 182, 0, 24, 0, 2, 0, 0, 0,
   0, 0, 0, 144, 2, 0, 0, 0, 97, 0, 16, 0, 0, 0, 0, 0, 0, 48, 16, 0, 0, 0, 0, 0, 0, 128, 0, 0,
   0, 0, 0, 0, 0, 0, 0, 16, 0, 0, 0, 0, 0, 0, 40, 0, 0, 0, 0, 0, 0, 0, 0, 0, 0, 0, 0, 0,
   0, 0, 2, 0, 0, 0, 0, 0, 0, 0, 16, 0, 0, 0, 0, 0, 0, 0, 0, 0, 0, 0, 0, 0, 0, 0, 0, 0,
   0, 0, 0, 0, 0, 0, 0, 0, 0, 0, 0, 0, 0, 0, 0, 0, 0, 0, 0, 0, 0, 0, 0, 0, 0, 0, 0, 0,
   0, 0, 0, 0, 0, 0, 0, 0, 0, 0, 0, 0, 0, 0, 0, 0, 0, 0, 0, 0, 0, 0, 0, 0, 0, 0, 0, 0,
   0, 0, 0, 0, 0, 0, 0, 0, 0, 0, 1, 0, 40, 0, 8, 0, 40, 0, 5, 0, 0, 0, 0, 0, 0, 0, 0, 16,
   0, 0, 0, 0, 0, 0, 0, 0, 0, 0, 0, 0, 0, 0, 0, 0, 0, 0, 0, 0, 0, 0, 0, 0, 0, 0, 0, 0,
   0, 0, 16, 0, 0, 0, 0, 0, 0, 0, 0, 0, 0, 0, 0, 0, 0, 0, 8, 0]"
  by (simp add: ex_node_def ex_node_body_def le_bytes_simps)

lemmas read_simps = rd8_def rd16_def rd32_def rd64_def rd_bytes_def

lemma ex_node_sum:
  "fletcher_loop ex_node 8 73 (0, 0) = Inr (foldl fletcher_step (0, 0) (take 73 (words_of ex_node_body)))"
  using fletcher_loop_foldl [of 8 73 ex_node "(0, 0)"] length_ex_node by (simp add: ex_node_def)

lemma ex_node_cksum: "fletcher64 ex_node 8 292 = Inr 0x594CFE62F53E4B3C"
  unfolding fletcher64_def
  by (simp add: ex_node_sum) (simp add: ex_node_body_def le_bytes_simps fletcher_step_def fletcher_result_def Let_def)

lemma ex_node_head:
  "rd32 ex_node 24 = Inr 3" "rd64 ex_node 0 = Inr 0x594CFE62F53E4B3C" "rd64 ex_node 16 = Inr 7"
  by (simp_all add: ex_node_bytes read_simps)

lemma ex_node_valid: "block_valid 300 ex_node = Inr True"
  by (simp add: block_valid_def MAX_CKSUM_SIZE_def ex_node_cksum ex_node_head)

lemma ex_node_xid: "node_xid ex_node 0 = Inr 7"
  by (simp add: node_xid_def ex_node_head)

lemma ex_node_toc: "toc_variable ex_node 56 3 =
  Inr [\<lparr>k_off = 0, k_len = 14, v_off = 18, v_len = 18\<rparr>, \<lparr>k_off = 14, k_len = 8, v_off = 158, v_len = 140\<rparr>,
       \<lparr>k_off = 22, k_len = 16, v_off = 182, v_len = 24\<rparr>]"
proof -
  have "toc_variable ex_node 56 (Suc (Suc (Suc 0))) =
    Inr [\<lparr>k_off = 0, k_len = 14, v_off = 18, v_len = 18\<rparr>, \<lparr>k_off = 14, k_len = 8, v_off = 158, v_len = 140\<rparr>,
       \<lparr>k_off = 22, k_len = 16, v_off = 182, v_len = 24\<rparr>]"
    by (simp add: ex_node_bytes read_simps)
  then show ?thesis by (simp add: numeral_3_eq_3)
qed

lemma ex_node_fields:
  "rd16 ex_node 40 = Inr 0" "rd16 ex_node 42 = Inr 24" "rd16 ex_node 32 = Inr 2" "rd32 ex_node 36 = Inr 3"
  by (simp_all add: ex_node_bytes read_simps)

lemma ex_node_pairs: "node_pairs 300 ex_node =
  Inr [\<lparr>kv_key = 80, valueLength = 18, kv_value = 282\<rparr>, \<lparr>kv_key = 94, valueLength = 140, kv_value = 142\<rparr>,
       \<lparr>kv_key = 102, valueLength = 24, kv_value = 118\<rparr>]"
  by (simp add: node_pairs_def ex_node_fields ex_node_toc Let_def BTNODE_ROOT_def BTNODE_FIXED_KV_SIZE_def)

lemma ex_node_keys:
  "key_word ex_node 80 = Inr 0x9000000000000002" "key_word ex_node 94 = Inr 0x3000000000000010"
  "key_word ex_node 102 = Inr 0x8000000000000010"
  by (simp_all add: key_word_def ex_node_bytes read_simps)

lemma ex_node_values:
  "rd64 ex_node 282 = Inr 16" "rd_cstring ex_node 92 = Inr [97]" "rd16 ex_node 298 = Inr 8"
  "inode_size ex_node 140 142 = Inr (Some 5)" "rd64 ex_node 142 = Inr 2"
  "rd64 ex_node 118 = Inr 4096" "rd64 ex_node 110 = Inr 0" "rd64 ex_node 126 = Inr 40"
  by (simp_all add: ex_node_bytes read_simps rd_cstring_def inode_size_def Let_def align8_def
      INO_EXT_TYPE_DSTREAM_def)

lemmas key_simps =
  obj_type_def obj_id_def OBJ_ID_MASK_def OBJ_TYPE_SHIFT_def APFS_TYPE_INODE_def
  APFS_TYPE_FILE_EXTENT_def APFS_TYPE_DIR_REC_def DREC_TYPE_MASK_def J_FILE_EXTENT_LEN_MASK_def

definition ex_items :: "(u64 \<times> fs_record) list" where
  "ex_items = [(2, Dir_Rec 16 [97] 8), (16, Inode_Rec 16 2 (Some 5)), (16, Extent_Rec 0 40 4096)]"

lemma ex_node_items:
  "decode_items ex_node
     [\<lparr>kv_key = 80, valueLength = 18, kv_value = 282\<rparr>, \<lparr>kv_key = 94, valueLength = 140, kv_value = 142\<rparr>,
      \<lparr>kv_key = 102, valueLength = 24, kv_value = 118\<rparr>] = Inr ex_items"
  by (simp add: decode_pair_def ex_node_keys ex_node_values key_simps ex_items_def)

text \<open>What the node makes of the empty catalog: the file, with its name and its extent.\<close>

lemma ex_node_spec:
  "spec_node 7 ex_items Map.empty =
     [16 \<mapsto> (\<lparr>row_inode = 16, row_parent = 2, row_version = 7, row_type = 8, row_name = [97],
       row_length = 5, row_extver = 7\<rparr>, {#(0, 40, 4096)#})]"
  by (simp add: spec_node_def ex_items_def records_of_def spec_group_def spec_dirrec_def spec_inode_def
      spec_extent_def cat_get_def blank_row_def fun_eq_iff)

section \<open>Other blocks\<close>

lemma ex_block_valid:
  assumes "length mem = 8 + 4 * n" "unat (ucast (ucast bs - MAX_CKSUM_SIZE) :: u32) div 4 = n"
    "rd32 mem 24 = Inr w" "w \<noteq> 0"
    "rd64 mem 0 = Inr (fletcher_result (foldl fletcher_step (0, 0) (take n (words_of (drop 8 mem)))))"
  shows "block_valid bs mem = Inr True"
  using fletcher_loop_foldl [of 8 n mem "(0, 0)"] assms
  by (simp add: block_valid_def fletcher64_def MAX_CKSUM_SIZE_def)

text \<open>A container superblock whose block size is 8192.\<close>

definition ex_super :: "u8 list" where
  "ex_super =
  [228, 182, 5, 57, 198, 208, 166, 132, 1, 0, 0, 0, 0, 0, 0, 0, 5, 0, 0, 0, 0, 0, 0, 0, 1, 0, 0, 0,
   0, 0, 0, 0, 78, 88, 83, 66, 0, 32, 0, 0]"

lemma ex_super_valid: "block_valid 40 ex_super = Inr True"
proof -
  have "fletcher_result (foldl fletcher_step (0, 0) (take 8 (words_of (drop 8 ex_super)))) = 0x84a6d0c63905b6e4"
    by (simp add: ex_super_def fletcher_step_def fletcher_result_def Let_def)
  moreover have "rd32 ex_super 24 = Inr 1" "rd64 ex_super 0 = Inr 0x84a6d0c63905b6e4" "length ex_super = 40"
    by (simp_all add: ex_super_def read_simps)
  ultimately show ?thesis by (intro ex_block_valid [where n = 8 and w = 1]) (simp_all add: MAX_CKSUM_SIZE_def)
qed

lemma ex_super_fields: "rd32 ex_super 24 = Inr 1" "rd32 ex_super 32 = Inr NX_MAGIC_NO" "rd32 ex_super 36 = Inr 8192"
  by (simp_all add: ex_super_def read_simps NX_MAGIC_NO_def)

text \<open>A node whose only key lies 60000 bytes behind the table of contents.\<close>

definition ex_wild :: "u8 list" where
  "ex_wild =
  [129, 3, 173, 255, 255, 13, 66, 0, 4, 4, 0, 0, 0, 0, 0, 0, 7, 0, 0, 0, 0, 0, 0, 0, 3, 0, 0, 0,
   14, 0, 0, 0, 2, 0, 0, 0, 1, 0, 0, 0, 0, 0, 8, 0, 0, 0, 0, 0, 0, 0, 0, 0, 0, 0, 0, 0,
   96, 234, 8, 0, 0, 0, 0, 0]"

lemma ex_wild_valid: "block_valid 64 ex_wild = Inr True"
proof -
  have "fletcher_result (foldl fletcher_step (0, 0) (take 14 (words_of (drop 8 ex_wild)))) = 0x420dffffad0381"
    by (simp add: ex_wild_def fletcher_step_def fletcher_result_def Let_def)
  moreover have "rd32 ex_wild 24 = Inr 3" "rd64 ex_wild 0 = Inr 0x420dffffad0381" "length ex_wild = 64"
    by (simp_all add: ex_wild_def read_simps)
  ultimately show ?thesis by (intro ex_block_valid [where n = 14 and w = 3]) (simp_all add: MAX_CKSUM_SIZE_def)
qed

lemma ex_wild_pairs:
  "rd32 ex_wild 24 = Inr 3" "node_pairs 64 ex_wild = Inr [\<lparr>kv_key = 60064, valueLength = 0, kv_value = 64\<rparr>]"
proof -
  have "rd16 ex_wild 40 = Inr 0" "rd16 ex_wild 42 = Inr 8" "rd16 ex_wild 32 = Inr 2" "rd32 ex_wild 36 = Inr 1"
    "toc_variable ex_wild 56 (Suc 0) = Inr [\<lparr>k_off = 60000, k_len = 8, v_off = 0, v_len = 0\<rparr>]"
    by (simp_all add: ex_wild_def read_simps)
  then show "node_pairs 64 ex_wild = Inr [\<lparr>kv_key = 60064, valueLength = 0, kv_value = 64\<rparr>]"
    by (simp add: node_pairs_def Let_def BTNODE_ROOT_def BTNODE_FIXED_KV_SIZE_def)
  show "rd32 ex_wild 24 = Inr 3" by (simp add: ex_wild_def read_simps)
qed

end
