(* ===== verification/Scanner_Theorems.thy ===== *)
theory Scanner_Theorems
  imports Scanner_Example
begin

text \<open>
  The properties of \<open>APFSScanner\<close>: what a scanned block does to the catalog, how transaction
  numbers order what is recorded, and where the code goes wrong on blocks it can meet.
\<close>

section \<open>Valid nodes\<close>

text \<open>A block that passes the checksum, is a B-tree node, and whose items lie in the block.\<close>

definition node_block :: "u32 \<Rightarrow> u8 list \<Rightarrow> u64 \<Rightarrow> (u64 \<times> fs_record) list \<Rightarrow> bool" where
  "node_block blockSize mem xid items \<longleftrightarrow>
     block_valid blockSize mem = Inr True \<and>
     (\<exists>o_type. rd32 mem 24 = Inr o_type \<and>
        o_type AND 0xffff \<in> {OBJECT_TYPE_BTREE_NODE, OBJECT_TYPE_BTREE}) \<and>
     node_xid mem 0 = Inr xid \<and>
     and_then (node_pairs blockSize mem) (decode_items mem) = Inr items"

lemma ex_node_block: "node_block 300 ex_node 7 ex_items"
  by (simp add: node_block_def ex_node_valid ex_node_head ex_node_xid ex_node_pairs ex_node_items
      OBJECT_TYPE_BTREE_NODE_def del: decode_items.simps)

definition ex_scanner :: scanner where
  "ex_scanner = new_scanner\<lparr>m_currentBlockSize := 300\<rparr>"

lemma ex_scanner_size [simp]: "m_currentBlockSize ex_scanner = 300"
  by (simp add: ex_scanner_def)

lemma scanBlock_node:
  assumes "node_block (m_currentBlockSize sc) mem xid items"
  shows "scanBlock db pos mem (sc, fs) = scanBTreeBlock db mem (sc, fs)"
proof -
  from assms obtain o_type where "block_valid (m_currentBlockSize sc) mem = Inr True"
    "rd32 mem 24 = Inr o_type" "o_type AND 0xffff \<in> {OBJECT_TYPE_BTREE_NODE, OBJECT_TYPE_BTREE}"
    by (auto simp: node_block_def)
  then show ?thesis
    by (auto simp: scanBlock_def OBJECT_TYPE_NX_SUPERBLOCK_def OBJECT_TYPE_BTREE_NODE_def OBJECT_TYPE_BTREE_def)
qed

context sql_store
begin

lemma scanBlock_refines:
  assumes inv: "fs_inv ents exts good fs" and node: "node_block (m_currentBlockSize sc) mem xid items"
  obtains ids fs' where "scanBlock db pos mem (sc, fs) = Inr (sc\<lparr>m_objId2inode := ids\<rparr>, fs')"
    "fs_inv ents exts good fs'"
    "catalog_of ents exts (m_database fs') = spec_node xid items (catalog_of ents exts (m_database fs))"
proof -
  from node obtain pairs where "node_pairs (m_currentBlockSize sc) mem = Inr pairs"
    "decode_items mem pairs = Inr items" "node_xid mem 0 = Inr xid"
    by (auto simp: node_block_def and_then_eq_Inr)
  from scanBTreeBlock_refines [OF inv this] scanBlock_node [OF node] that show thesis by metis
qed

lemma scanBlock_result:
  assumes inv: "fs_inv ents exts good fs" and node: "node_block (m_currentBlockSize sc) mem xid items"
    and scan: "scanBlock db pos mem (sc, fs) = Inr (sc', fs')"
  shows "fs_inv ents exts good fs'" "m_currentBlockSize sc' = m_currentBlockSize sc"
    "catalog_of ents exts (m_database fs') = spec_node xid items (catalog_of ents exts (m_database fs))"
proof -
  from scanBlock_refines [OF inv node, of pos] obtain ids fs1 where
    "scanBlock db pos mem (sc, fs) = Inr (sc\<lparr>m_objId2inode := ids\<rparr>, fs1)" "fs_inv ents exts good fs1"
    "catalog_of ents exts (m_database fs1) = spec_node xid items (catalog_of ents exts (m_database fs))" .
  with scan show "fs_inv ents exts good fs'" "m_currentBlockSize sc' = m_currentBlockSize sc"
    "catalog_of ents exts (m_database fs') = spec_node xid items (catalog_of ents exts (m_database fs))"
    by auto
qed

end

section \<open>Steps of the specification\<close>

text \<open>A relation between catalogs that holds across a node when it holds across each step.\<close>

lemma spec_record_fold:
  assumes "P (snd a)"
    and "\<And>c i parent len. P c \<Longrightarrow> P (spec_inode xid i parent len c)"
    and "\<And>c cur la pb len. P c \<Longrightarrow> P (spec_extent xid cur la pb len c)"
    and "\<And>c cur i nam t. P c \<Longrightarrow> P (spec_dirrec xid cur i nam t c)"
  shows "P (snd (fold (spec_record xid) rs a))"
  using assms(1)
proof (induction rs arbitrary: a)
  case (Cons r rs)
  have "P (snd (spec_record xid r a))"
    using Cons.prems assms(2-4) by (cases a; cases r) simp_all
  then show ?case using Cons.IH by simp
qed simp

lemma spec_node_induct:
  assumes "P c"
    and "\<And>c i parent len. P c \<Longrightarrow> P (spec_inode xid i parent len c)"
    and "\<And>c cur la pb len. P c \<Longrightarrow> P (spec_extent xid cur la pb len c)"
    and "\<And>c cur i nam t. P c \<Longrightarrow> P (spec_dirrec xid cur i nam t c)"
  shows "P (spec_node xid items c)"
proof -
  have "P (fold (\<lambda>i. spec_group xid (records_of i items)) is c)" if "P c" for "is" c
    using that
  proof (induction "is" arbitrary: c)
    case (Cons i "is")
    have "P (spec_group xid (records_of i items) c)"
      unfolding spec_group_def
      by (rule spec_record_fold [where P = P]) (simp_all add: Cons.prems assms(2-4))
    then show ?case using Cons.IH by simp
  qed simp
  then show ?thesis unfolding spec_node_def using assms(1) by blast
qed

subsection \<open>Transactions only advance\<close>

definition not_older :: "catalog \<Rightarrow> catalog \<Rightarrow> bool" where
  "not_older c c' \<longleftrightarrow> (\<forall>i r x. c i = Some (r, x) \<longrightarrow>
     (\<exists>r' x'. c' i = Some (r', x') \<and> row_version r \<le> row_version r' \<and> row_extver r \<le> row_extver r'))"

lemma not_older_upd:
  assumes "not_older c0 c" "row_version (fst (cat_get c i)) \<le> row_version r'"
    "row_extver (fst (cat_get c i)) \<le> row_extver r'"
  shows "not_older c0 (c(i \<mapsto> (r', x')))"
  unfolding not_older_def
proof (intro allI impI)
  fix j r x assume "c0 j = Some (r, x)"
  with assms(1) obtain s y where "c j = Some (s, y)" "row_version r \<le> row_version s" "row_extver r \<le> row_extver s"
    unfolding not_older_def by blast
  with assms(2,3) show "\<exists>s y. (c(i \<mapsto> (r', x'))) j = Some (s, y) \<and> row_version r \<le> row_version s \<and>
      row_extver r \<le> row_extver s"
    by (cases "j = i") (auto simp: cat_get_def)
qed

lemma spec_node_not_older: "not_older c (spec_node xid items c)"
proof (rule spec_node_induct [where P = "not_older c"])
  show "not_older c c" by (simp add: not_older_def)
qed (auto simp: spec_inode_def spec_extent_def spec_dirrec_def split: prod.split option.split
      intro!: not_older_upd)

subsection \<open>Stale nodes\<close>

text \<open>An entry recorded by a later transaction keeps what that transaction recorded.\<close>

definition keeps_newer :: "u64 \<Rightarrow> catalog \<Rightarrow> catalog \<Rightarrow> bool" where
  "keeps_newer xid c c' \<longleftrightarrow> (\<forall>i r x. c i = Some (r, x) \<longrightarrow>
     (\<exists>r' x'. c' i = Some (r', x') \<and>
        (xid < row_version r \<longrightarrow> r' = r\<lparr>row_extver := row_extver r'\<rparr>) \<and>
        (xid < row_extver r \<longrightarrow> row_extver r' = row_extver r \<and> x' = x)))"

lemma keeps_newer_upd:
  assumes "keeps_newer xid c0 c"
    "xid < row_version (fst (cat_get c i)) \<Longrightarrow> r' = (fst (cat_get c i))\<lparr>row_extver := row_extver r'\<rparr>"
    "xid < row_extver (fst (cat_get c i)) \<Longrightarrow>
      row_extver r' = row_extver (fst (cat_get c i)) \<and> x' = snd (cat_get c i)"
  shows "keeps_newer xid c0 (c(i \<mapsto> (r', x')))"
  unfolding keeps_newer_def
proof (intro allI impI)
  fix j r x assume "c0 j = Some (r, x)"
  with assms(1) obtain s y where s: "c j = Some (s, y)" "xid < row_version r \<Longrightarrow> s = r\<lparr>row_extver := row_extver s\<rparr>"
    "xid < row_extver r \<Longrightarrow> row_extver s = row_extver r \<and> y = x"
    unfolding keeps_newer_def by blast
  show "\<exists>s y. (c(i \<mapsto> (r', x'))) j = Some (s, y) \<and>
      (xid < row_version r \<longrightarrow> s = r\<lparr>row_extver := row_extver s\<rparr>) \<and>
      (xid < row_extver r \<longrightarrow> row_extver s = row_extver r \<and> y = x)"
  proof (cases "j = i")
    case True
    with s(1) have get: "cat_get c i = (s, y)" by (simp add: cat_get_def)
    have "r' = r\<lparr>row_extver := row_extver r'\<rparr>" if v: "xid < row_version r"
    proof -
      from s(2) [OF v] have sr: "s = r\<lparr>row_extver := row_extver s\<rparr>" .
      from arg_cong [OF sr, of row_version] v have "xid < row_version s" by simp
      with assms(2) get have "r' = s\<lparr>row_extver := row_extver r'\<rparr>" by simp
      also have "\<dots> = r\<lparr>row_extver := row_extver r'\<rparr>" by (subst sr) simp
      finally show ?thesis .
    qed
    with True s(3) assms(3) get show ?thesis by auto
  next
    case False
    with s show ?thesis by auto
  qed
qed

lemma spec_node_keeps_newer: "keeps_newer xid c (spec_node xid items c)"
proof (rule spec_node_induct [where P = "keeps_newer xid c"])
  show "keeps_newer xid c c" by (simp add: keeps_newer_def)
next
  fix c' i parent len assume "keeps_newer xid c c'"
  then show "keeps_newer xid c (spec_inode xid i parent len c')"
    unfolding spec_inode_def by (cases "cat_get c' i") (auto intro!: keeps_newer_upd)
next
  fix c' cur la pb len assume k: "keeps_newer xid c c'"
  show "keeps_newer xid c (spec_extent xid cur la pb len c')"
  proof (cases cur)
    case (Some i)
    with k show ?thesis
      unfolding spec_extent_def by (cases "cat_get c' i") (auto intro!: keeps_newer_upd)
  qed (simp add: spec_extent_def k)
next
  fix c' cur i nam t assume "keeps_newer xid c c'"
  then show "keeps_newer xid c (spec_dirrec xid cur i nam t c')"
    unfolding spec_dirrec_def by (cases "cat_get c' i") (auto intro!: keeps_newer_upd)
qed

subsection \<open>Extents\<close>

text \<open>The transaction of the extents of an entry, and the extents.\<close>

definition cat_exts :: "catalog \<Rightarrow> u64 \<Rightarrow> u64 \<times> extent_row multiset" where
  "cat_exts c i = (row_extver (fst (cat_get c i)), snd (cat_get c i))"

text \<open>The extent records of a group that count: those after an inode record.\<close>

fun counted_extents :: "bool \<Rightarrow> fs_record list \<Rightarrow> extent_row list" where
  "counted_extents seen [] = []"
| "counted_extents seen (Inode_Rec i parent len # rs) = counted_extents True rs"
| "counted_extents seen (Extent_Rec la pb len # rs) =
     (if seen then (la, pb, len) # counted_extents seen rs else counted_extents seen rs)"
| "counted_extents seen (r # rs) = counted_extents seen rs"

text \<open>What a node of transaction \<open>xid\<close> makes of the extents of an entry.\<close>

definition exts_after ::
  "u64 \<Rightarrow> extent_row list \<Rightarrow> u64 \<times> extent_row multiset \<Rightarrow> u64 \<times> extent_row multiset" where
  "exts_after xid es vx =
     (if es = [] \<or> xid < fst vx then vx
      else (xid, mset es + (if fst vx = xid then snd vx else {#})))"

definition own_inodes :: "(u64 \<times> fs_record) list \<Rightarrow> bool" where
  "own_inodes items \<longleftrightarrow> (\<forall>i j parent len. (i, Inode_Rec j parent len) \<in> set items \<longrightarrow> j = i)"

lemma own_inodesD: "own_inodes items \<Longrightarrow> (i, Inode_Rec j parent len) \<in> set items \<Longrightarrow> j = i"
  unfolding own_inodes_def by blast

lemma cat_exts_upd: "cat_exts (c(i \<mapsto> (r, x))) j = (if j = i then (row_extver r, x) else cat_exts c j)"
  by (simp add: cat_exts_def cat_get_def)

lemma cat_exts_spec_inode [simp]: "cat_exts (spec_inode xid i parent len c) = cat_exts c"
  by (rule ext) (auto simp: spec_inode_def cat_exts_upd split: prod.split, auto simp: cat_exts_def)

lemma cat_exts_spec_dirrec [simp]: "cat_exts (spec_dirrec xid cur i nam t c) = cat_exts c"
  by (rule ext) (auto simp: spec_dirrec_def cat_exts_upd split: prod.split, auto simp: cat_exts_def)

lemma cat_exts_spec_extent:
  "cat_exts (spec_extent xid cur la pb len c) j =
     (if cur = Some j then exts_after xid [(la, pb, len)] (cat_exts c j) else cat_exts c j)"
proof (cases cur)
  case (Some i)
  obtain r x where get: "cat_get c i = (r, x)" by fastforce
  then have i: "cat_exts c i = (row_extver r, x)" by (simp add: cat_exts_def)
  show ?thesis
  proof (cases "i = j")
    case True
    consider "row_extver r < xid" | "row_extver r = xid" | "xid < row_extver r" by fastforce
    then show ?thesis using Some get i True
      by cases (auto simp: spec_extent_def cat_exts_upd exts_after_def)
  next
    case False
    with Some get show ?thesis by (simp add: spec_extent_def cat_exts_upd)
  qed
qed (simp add: spec_extent_def)

lemma exts_after_Cons: "exts_after xid es (exts_after xid [e] vx) = exts_after xid (e # es) vx"
  by (cases vx) (auto simp: exts_after_def)

text \<open>Extents without an inode record among the records of their object do not count.\<close>

lemma no_inode_no_extents: "\<forall>j p n. Inode_Rec j p n \<notin> set rs \<Longrightarrow> counted_extents False rs = []"
  by (induction "False" rs rule: counted_extents.induct) auto

lemma no_extents: "\<forall>la pb len. Extent_Rec la pb len \<notin> set rs \<Longrightarrow> counted_extents b rs = []"
  by (induction b rs rule: counted_extents.induct) auto

lemma exts_after_new: "fst vx < xid \<Longrightarrow> es \<noteq> [] \<Longrightarrow> exts_after xid es vx = (xid, mset es)"
  by (auto simp: exts_after_def)

lemma exts_after_Nil [simp]: "exts_after xid [] vx = vx"
  by (simp add: exts_after_def)

lemma fold_extents:
  assumes "\<forall>k parent len. Inode_Rec k parent len \<in> set rs \<longrightarrow> k = i"
  shows "cur \<in> {None, Some i} \<Longrightarrow>
    cat_exts (snd (fold (spec_record xid) rs (cur, c))) j =
      (if j = i then exts_after xid (counted_extents (cur = Some i) rs) (cat_exts c j) else cat_exts c j)"
  using assms
proof (induction rs arbitrary: cur c)
  case (Cons r rs)
  have own: "\<forall>k parent len. Inode_Rec k parent len \<in> set rs \<longrightarrow> k = i" using Cons.prems(2) by simp
  show ?case
  proof (cases r)
    case (Inode_Rec k parent len)
    with Cons.prems(2) have "k = i" by simp
    with Inode_Rec Cons.IH [OF _ own, of "Some i"] show ?thesis by simp
  next
    case (Extent_Rec la pb len)
    with Cons.IH [OF Cons.prems(1) own] Cons.prems(1) show ?thesis
      by (auto simp: cat_exts_spec_extent exts_after_Cons)
  next
    case (Dir_Rec k nam t)
    with Cons.IH [OF Cons.prems(1) own] show ?thesis by simp
  next
    case Other_Rec
    with Cons.IH [OF Cons.prems(1) own] show ?thesis by simp
  qed
qed simp

lemma spec_group_extents:
  assumes "own_inodes items"
  shows "cat_exts (spec_group xid (records_of i items) c) j =
    (if j = i then exts_after xid (counted_extents False (records_of i items)) (cat_exts c j) else cat_exts c j)"
proof -
  have "\<forall>k parent len. Inode_Rec k parent len \<in> set (records_of i items) \<longrightarrow> k = i"
    by (auto simp: records_of_def dest: own_inodesD [OF assms])
  from fold_extents [OF this, of None] show ?thesis by (simp add: spec_group_def)
qed

lemma spec_groups_extents:
  assumes "own_inodes items" "distinct is"
  shows "cat_exts (fold (\<lambda>i. spec_group xid (records_of i items)) is c) j =
    (if j \<in> set is then exts_after xid (counted_extents False (records_of j items)) (cat_exts c j) else cat_exts c j)"
  using assms(2)
proof (induction "is" arbitrary: c)
  case (Cons i "is")
  then show ?case by (auto simp: spec_group_extents [OF assms(1)])
qed simp

lemma spec_node_extents:
  assumes "own_inodes items"
  shows "cat_exts (spec_node xid items c) j =
    exts_after xid (counted_extents False (records_of j items)) (cat_exts c j)"
proof (cases "j \<in> set (sort (remdups (map fst items)))")
  case False
  then have "records_of j items = []" by (auto simp: records_of_def filter_empty_conv)
  with False show ?thesis by (simp add: spec_node_def spec_groups_extents [OF assms] del: set_sort)
qed (simp add: spec_node_def spec_groups_extents [OF assms] del: set_sort)

lemma decode_own_inodes: "decode_items mem pairs = Inr items \<Longrightarrow> own_inodes items"
proof (induction pairs arbitrary: items)
  case (Cons p pairs)
  then obtain w r items' where w: "key_word mem (kv_key p) = Inr w" "decode_pair mem p = Inr r"
    "decode_items mem pairs = Inr items'" "items = (obj_id w, r) # items'" by (auto simp: and_then_eq_Inr)
  have "j = obj_id w" if "r = Inode_Rec j parent len" for j parent len
    using w(1,2) that by (auto simp: decode_pair_def and_then_eq_Inr split: if_splits)
  with w(4) Cons.IH [OF w(3)] show ?case
    unfolding own_inodes_def by (metis Pair_inject set_ConsD)
qed (simp add: own_inodes_def)

lemma node_block_own: "node_block bs mem xid items \<Longrightarrow> own_inodes items"
  by (auto simp: node_block_def and_then_eq_Inr decode_own_inodes)

section \<open>Faults\<close>

lemma ex_byte_count:
  assumes "unat (w :: u32) < 8 \<or> 4100 \<le> unat w"
  shows "4092 \<le> unat (ucast (ucast w - MAX_CKSUM_SIZE) :: u32)"
proof -
  have b: "(ucast (ucast w - MAX_CKSUM_SIZE) :: u32) = w - 8"
    unfolding MAX_CKSUM_SIZE_def by transfer (simp add: take_bit_eq_mod mod_mod_cancel mod_diff_left_eq)
  show ?thesis unfolding b using assms unat_u32_bound [of w]
    by (simp add: unat_sub_if' unat_word_ariths) linarith
qed

lemma rd64_fault: "rd64 mem p = Inl f \<Longrightarrow> f = OutOfBounds"
  by (cases "in_buf mem p 8") (simp_all add: rd_in_buf rd_not_in_buf)

lemma group_pair_fault: "group_pair mem p s = Inl f \<Longrightarrow> f = OutOfBounds"
  by (cases s) (auto simp: group_pair_def key_word_def and_then_eq_Inl rd64_fault split: if_splits)

lemma for_each_group_fault:
  assumes "p \<in> set pairs" "\<not> in_buf mem (kv_key p) 8"
  shows "for_each (group_pair mem) pairs s = Inl OutOfBounds"
  using assms(1)
proof (induction pairs arbitrary: s)
  case (Cons q pairs)
  show ?case
  proof (cases "group_pair mem q s")
    case (Inl f)
    then show ?thesis using group_pair_fault [OF Inl] by simp
  next
    case (Inr s')
    have "q \<noteq> p"
    proof
      assume "q = p"
      with assms(2) have "group_pair mem q s = Inl OutOfBounds"
        by (cases s) (simp add: group_pair_def key_word_def rd_not_in_buf)
      with Inr show False by simp
    qed
    with Cons Inr show ?thesis by simp
  qed
qed simp

section \<open>Properties\<close>

text \<open>
  C5. Scanning a node. A valid B-tree node whose items lie in the block is scanned without a
  fault; it changes the catalog exactly as the specification says: object by object in
  ascending order, record by record in the order of the node, each record guarded by the
  transaction of the node. Cache, objects and database agree again afterwards.
\<close>
theorem scanBlock_refines_node:
  assumes "sql_store db ents exts good" and "fs_inv ents exts good fs"
    and "node_block (m_currentBlockSize sc) mem xid items"
  shows "\<exists>ids fs'. scanBlock db pos mem (sc, fs) = Inr (sc\<lparr>m_objId2inode := ids\<rparr>, fs') \<and>
    fs_inv ents exts good fs' \<and>
    catalog_of ents exts (m_database fs') = spec_node xid items (catalog_of ents exts (m_database fs))"
  using sql_store.scanBlock_refines [OF assms] by blast

lemma ex_empty_inv: "fs_inv mem_ents mem_exts mem_good (init mem_db no_tables)"
  by (rule mem.init_spec(1) [OF ex_no_tables])

lemma ex_empty_catalog [simp]:
  "catalog_of mem_ents mem_exts (m_database (init mem_db no_tables)) = Map.empty"
  by (simp add: mem.init_spec(2) [OF ex_no_tables])
    (simp add: catalog_of_def mem_ents_def no_tables_def fun_eq_iff)

lemma ex_scan:
  assumes "fs_inv mem_ents mem_exts mem_good fs" "m_currentBlockSize sc = 300"
  obtains ids fs' where "scanBlock mem_db pos ex_node (sc, fs) = Inr (sc\<lparr>m_objId2inode := ids\<rparr>, fs')"
    "fs_inv mem_ents mem_exts mem_good fs'"
proof -
  have "node_block (m_currentBlockSize sc) ex_node 7 ex_items" using assms(2) by (simp add: ex_node_block)
  from mem.scanBlock_refines [OF assms(1) this, of pos] that show thesis by metis
qed

theorem scanBlock_refines_node_witness:
  "\<exists>sc fs'. scanBlock mem_db 0 ex_node (ex_scanner, init mem_db no_tables) = Inr (sc, fs') \<and>
     catalog_of mem_ents mem_exts (m_database fs') =
     [16 \<mapsto> (\<lparr>row_inode = 16, row_parent = 2, row_version = 7, row_type = 8, row_name = [97],
       row_length = 5, row_extver = 7\<rparr>, {#(0, 40, 4096)#})]"
  using scanBlock_refines_node [OF mem.sql_store_axioms ex_empty_inv, of ex_scanner ex_node 7 ex_items 0]
    ex_node_block by (auto simp: ex_node_spec)

text \<open>
  Grouping. The items of a node are grouped by the object of their keys: the groups are
  visited in ascending order of the object, each object once, and a group holds the items of
  its object in the order of the node.
\<close>
lemma items_grouped_by_object:
  assumes "for_each (group_pair mem) pairs (ids, []) = Inr (ids', entries)"
  shows "map fst entries = sort (remdups (map (pair_id mem) pairs)) \<and>
    (\<forall>x \<in> set entries. keyValues (snd x) = filter (\<lambda>p. pair_id mem p = fst x) pairs)"
proof -
  have "grouped mem [] []" by (simp add: grouped_def cmap.ok_empty cmap.find_empty)
  from for_each_grouped [OF assms this] have "grouped mem pairs entries" by simp
  then show ?thesis using grouped_entries by blast
qed

lemma items_grouped_by_object_witness:
  "\<exists>pairs ids entries. node_pairs 300 ex_node = Inr pairs \<and>
     for_each (group_pair ex_node) pairs ([], []) = Inr (ids, entries) \<and> map fst entries = [2, 16]"
proof -
  let ?pairs = "[\<lparr>kv_key = 80, valueLength = 18, kv_value = 282\<rparr>, \<lparr>kv_key = 94, valueLength = 140, kv_value = 142\<rparr>,
       \<lparr>kv_key = 102, valueLength = 24, kv_value = 118\<rparr>]"
  from for_each_group_total [OF ex_node_items] obtain ids entries where
    g: "for_each (group_pair ex_node) ?pairs ([], []) = Inr (ids, entries)" by fastforce
  have "map (pair_id ex_node) ?pairs = [2, 16, 16]"
    by (simp add: pair_id_def ex_node_keys obj_id_def OBJ_ID_MASK_def)
  with items_grouped_by_object [OF g] have "map fst entries = [2, 16]" by simp
  with g ex_node_pairs show ?thesis by (intro exI conjI)
qed

text \<open>
  C23. Damaged blocks. If one 32-bit word of a valid block is damaged (other than an exchange
  of the two encodings of zero, which the checksum cannot see), the block is ignored: neither
  the scanner nor the file system changes.
\<close>
theorem damaged_block_ignored:
  fixes mem mem' :: "u8 list" and sc :: scanner
  defines "n \<equiv> unat (ucast (ucast (m_currentBlockSize sc) - MAX_CKSUM_SIZE) :: u32) div 4"
  assumes "block_valid (m_currentBlockSize sc) mem = Inr True" and "length mem' = length mem"
    and "rd64 mem' 0 = rd64 mem 0" and "i < n" and "words_at mem' 8 n = (words_at mem 8 n)[i := v]"
    and "words_at mem 8 n ! i \<noteq> v" and "{words_at mem 8 n ! i, v} \<noteq> {0, 0xFFFFFFFF}"
  shows "scanBlock db pos mem' (sc, fs) = Inr (sc, fs)"
proof -
  let ?b = "ucast (ucast (m_currentBlockSize sc) - MAX_CKSUM_SIZE) :: u32"
  have n: "n = unat ?b div 4" by (simp add: n_def)
  from assms(2) obtain w ck where w: "fletcher64 mem 8 ?b = Inr ck" "rd32 mem 24 = Inr w" "rd64 mem 0 = Inr ck"
    by (auto simp: block_valid_def and_then_eq_Inr MAX_CKSUM_SIZE_def split: if_splits)
  have buf: "in_buf mem 8 (4 * n)"
  proof (rule ccontr)
    assume "\<not> in_buf mem 8 (4 * n)"
    moreover have "4 \<le> unat ?b" using assms(5) n by (cases "unat ?b < 4") auto
    ultimately show False using fletcher64_fault [of mem 8 ?b] w(1) n by simp
  qed
  then have buf': "in_buf mem' 8 (4 * n)" using assms(3) by (simp add: in_buf_def)
  have "in_buf mem' 24 4" using rd_ok(3) [of mem 24] w(2) assms(3) by (auto simp: in_buf_def)
  then obtain w' where w': "rd32 mem' 24 = Inr w'" using rd_in_buf(3) by blast
  obtain ck' where ck': "fletcher64 mem' 8 ?b = Inr ck'"
    using fletcher64_reference [of mem' 8 ?b] buf' n by blast
  have "fletcher64 mem' 8 ?b \<noteq> fletcher64 mem 8 ?b"
    using fletcher64_eq_iff [of mem' 8 ?b mem 8 ?b] buf buf' fl_reference_update [of i "words_at mem 8 n" v]
      assms(5-8) by (simp add: n [symmetric])
  with ck' w assms(4) have "block_valid (m_currentBlockSize sc) mem' = Inr False"
    by (auto simp: block_valid_def MAX_CKSUM_SIZE_def w')
  then show ?thesis by (simp add: scanBlock_def)
qed

lemma words_at_words_of: "k + 4 * n \<le> length mem \<Longrightarrow> words_at mem (int k) n = take n (words_of (drop k mem))"
proof (induction n arbitrary: k)
  case (Suc n)
  have "words_of (drop k mem) = le_word (take 4 (drop k mem)) # words_of (drop (k + 4) mem)"
    using Suc.prems words_of_4 [of "drop k mem"] by (simp add: add.commute)
  with Suc.IH [of "k + 4"] Suc.prems show ?case by (simp add: words_at_Suc add.commute)
qed (simp add: words_at_def)

definition ex_damaged :: "u8 list" where
  "ex_damaged = le_bytes 8 (0x594CFE62F53E4B3C :: u64) @ [5, 4, 0, 0] @ drop 4 ex_node_body"

theorem damaged_block_ignored_witness:
  "scanBlock mem_db 0 ex_damaged (ex_scanner, ex_fs) = Inr (ex_scanner, ex_fs)"
proof -
  have l: "length ex_damaged = 300" by (simp add: ex_damaged_def ex_node_body_def)
  have n: "unat (ucast (ucast (m_currentBlockSize ex_scanner) - MAX_CKSUM_SIZE) :: u32) div 4 = 73"
    by (simp add: MAX_CKSUM_SIZE_def)
  have body: "ex_node_body = [4, 4, 0, 0] @ drop 4 ex_node_body"
    by (simp add: ex_node_body_def le_bytes_simps)
  have d: "drop 8 ex_damaged = [5, 4, 0, 0] @ drop 4 ex_node_body" "drop 8 ex_node = [4, 4, 0, 0] @ drop 4 ex_node_body"
    using body by (simp_all add: ex_damaged_def ex_node_def)
  have w: "words_at ex_damaged 8 73 = 1029 # take 72 (words_of (drop 4 ex_node_body))"
    "words_at ex_node 8 73 = 1028 # take 72 (words_of (drop 4 ex_node_body))"
    using words_at_words_of [of 8 73 ex_damaged] words_at_words_of [of 8 73 ex_node] l length_ex_node
    by (simp_all add: d)
  have h: "rd64 ex_damaged 0 = rd64 ex_node 0"
    by (simp add: ex_damaged_def ex_node_def rd64_def rd_bytes_def)
  have "block_valid (m_currentBlockSize ex_scanner) ex_node = Inr True" by (simp add: ex_node_valid)
  moreover have "words_at ex_damaged 8 73 = (words_at ex_node 8 73)[0 := 1029]" by (simp add: w)
  moreover have "words_at ex_node 8 73 ! 0 \<noteq> 1029" "{words_at ex_node 8 73 ! 0, 1029} \<noteq> {0, 0xFFFFFFFF}"
    by (simp_all add: w doubleton_eq_iff)
  ultimately show ?thesis
    using damaged_block_ignored [of ex_scanner ex_node ex_damaged 0 1029, unfolded n] h l length_ex_node by simp
qed

text \<open>
  C14. Transactions only advance. Scanning a node removes no entry from the catalog and never
  lowers the transaction number of an entry or of its extents.
\<close>
theorem transactions_only_advance:
  assumes "sql_store db ents exts good" and "fs_inv ents exts good fs"
    and "node_block (m_currentBlockSize sc) mem xid items"
    and "scanBlock db pos mem (sc, fs) = Inr (sc', fs')"
  shows "not_older (catalog_of ents exts (m_database fs)) (catalog_of ents exts (m_database fs'))"
  unfolding sql_store.scanBlock_result(3) [OF assms] by (rule spec_node_not_older)

theorem transactions_only_advance_witness:
  "\<exists>sc fs' r x. scanBlock mem_db 0 ex_node (ex_scanner, ex_fs) = Inr (sc, fs') \<and>
     catalog_of mem_ents mem_exts (m_database fs') 2 = Some (r, x) \<and> 7 \<le> row_version r"
proof -
  obtain ids fs' where s: "scanBlock mem_db 0 ex_node (ex_scanner, ex_fs) = Inr (ex_scanner\<lparr>m_objId2inode := ids\<rparr>, fs')"
    by (rule ex_scan [OF ex_fs_inv ex_scanner_size])
  have "catalog_of mem_ents mem_exts (m_database ex_fs) 2 = Some (ex_root, {#})" by (simp add: ex_catalog)
  moreover have "row_version ex_root = 7" by (simp add: ex_root_def)
  ultimately have "\<exists>r x. catalog_of mem_ents mem_exts (m_database fs') 2 = Some (r, x) \<and> 7 \<le> row_version r"
    using transactions_only_advance [OF mem.sql_store_axioms ex_fs_inv _ s, of 7 ex_items] ex_node_block
    unfolding not_older_def by fastforce
  with s show ?thesis by blast
qed

text \<open>
  C20. Stale blocks. What a later transaction has recorded of an entry is not touched by an older
  node: the parent, name, type, length and version of an entry with a later version stay, and
  extents of a later transaction stay.
\<close>
theorem stale_block_keeps_newer:
  assumes "sql_store db ents exts good" and "fs_inv ents exts good fs"
    and "node_block (m_currentBlockSize sc) mem xid items"
    and "scanBlock db pos mem (sc, fs) = Inr (sc', fs')"
  shows "keeps_newer xid (catalog_of ents exts (m_database fs)) (catalog_of ents exts (m_database fs'))"
  unfolding sql_store.scanBlock_result(3) [OF assms] by (rule spec_node_keeps_newer)

text \<open>A database in which the file of the example has been seen by transaction 9, without a name.\<close>

definition ex_newer :: tables where
  "ex_newer = \<lparr>entry_rows = [ex_file\<lparr>row_version := 9, row_name := []\<rparr>], extent_rows = []\<rparr>"

lemma ex_newer_inv: "db_inv mem_ents mem_exts mem_good ex_newer"
  by (auto simp: db_inv_def mem_good_def mem_ents_def mem_exts_def ex_newer_def ex_file_def split: if_splits)

theorem stale_block_keeps_newer_witness:
  "\<exists>sc fs' r x. scanBlock mem_db 0 ex_node (ex_scanner, init mem_db ex_newer) = Inr (sc, fs') \<and>
     catalog_of mem_ents mem_exts (m_database fs') 16 = Some (r, x) \<and> row_name r = []"
proof -
  let ?fs = "init mem_db ex_newer" and ?r = "ex_file\<lparr>row_version := 9, row_name := []\<rparr>"
  note inv = mem.init_spec(1) [OF ex_newer_inv]
  obtain ids fs' where s: "scanBlock mem_db 0 ex_node (ex_scanner, ?fs) = Inr (ex_scanner\<lparr>m_objId2inode := ids\<rparr>, fs')"
    by (rule ex_scan [OF inv ex_scanner_size])
  have "catalog_of mem_ents mem_exts (m_database ?fs) 16 = Some (?r, {#})"
    unfolding mem.init_spec(2) [OF ex_newer_inv]
    by (simp add: catalog_of_def mem_ents_def mem_exts_def ex_newer_def ex_file_def)
  then obtain r x where r: "catalog_of mem_ents mem_exts (m_database fs') 16 = Some (r, x)"
    "r = ?r\<lparr>row_extver := row_extver r\<rparr>"
    using stale_block_keeps_newer [OF mem.sql_store_axioms inv _ s, of 7 ex_items] ex_node_block
    unfolding keeps_newer_def by fastforce
  from arg_cong [OF r(2), of row_name] s r(1) show ?thesis by auto
qed

text \<open>
  C21. Extents. After a node of transaction \<open>xid\<close> the extents of an entry are those of the extent
  records that follow its inode record in the node, added to the extents it had from the same
  transaction and in place of those from older ones; without such records, or when it has
  extents of a later transaction, nothing changes.
\<close>
theorem extents_after_block:
  assumes "sql_store db ents exts good" and "fs_inv ents exts good fs"
    and "node_block (m_currentBlockSize sc) mem xid items"
    and "scanBlock db pos mem (sc, fs) = Inr (sc', fs')"
  shows "cat_exts (catalog_of ents exts (m_database fs')) i =
    exts_after xid (counted_extents False (records_of i items)) (cat_exts (catalog_of ents exts (m_database fs)) i)"
  unfolding sql_store.scanBlock_result(3) [OF assms] by (rule spec_node_extents [OF node_block_own [OF assms(3)]])

theorem extents_after_block_witness:
  "\<exists>sc fs'. scanBlock mem_db 0 ex_node (ex_scanner, init mem_db no_tables) = Inr (sc, fs') \<and>
     cat_exts (catalog_of mem_ents mem_exts (m_database fs')) 16 = (7, {#(0, 40, 4096)#})"
proof -
  obtain ids fs' where s: "scanBlock mem_db 0 ex_node (ex_scanner, init mem_db no_tables) =
      Inr (ex_scanner\<lparr>m_objId2inode := ids\<rparr>, fs')"
    by (rule ex_scan [OF ex_empty_inv ex_scanner_size])
  have "cat_exts (catalog_of mem_ents mem_exts (m_database fs')) 16 = (7, {#(0, 40, 4096)#})"
    using extents_after_block [OF mem.sql_store_axioms ex_empty_inv _ s, of 7 ex_items 16] ex_node_block
    by (simp add: ex_items_def records_of_def exts_after_def cat_exts_def cat_get_def blank_row_def)
  with s show ?thesis by blast
qed

text \<open>
  The same node twice. A node that is met a second time (a copy elsewhere on the disk, or
  the same image scanned again into the database) records its extents twice.
\<close>
lemma second_scan_duplicates_extents:
  assumes "sql_store db ents exts good" and "fs_inv ents exts good fs"
    and "node_block (m_currentBlockSize sc) mem xid items"
    and "scanBlock db pos mem (sc, fs) = Inr (sc1, fs1)"
    and "scanBlock db pos' mem (sc1, fs1) = Inr (sc2, fs2)"
    and "es = counted_extents False (records_of i items)" and "es \<noteq> []"
    and "fst (cat_exts (catalog_of ents exts (m_database fs)) i) < xid"
  shows "cat_exts (catalog_of ents exts (m_database fs1)) i = (xid, mset es) \<and>
    cat_exts (catalog_of ents exts (m_database fs2)) i = (xid, mset es + mset es)"
proof -
  note one = sql_store.scanBlock_result [OF assms(1-4)]
  note own = node_block_own [OF assms(3)]
  have "node_block (m_currentBlockSize sc1) mem xid items" using assms(3) one(2) by simp
  note two = sql_store.scanBlock_result [OF assms(1) one(1) this assms(5)]
  have "cat_exts (catalog_of ents exts (m_database fs1)) i = (xid, mset es)"
    unfolding one(3) spec_node_extents [OF own] using assms(6-8) by (simp add: exts_after_new)
  then show ?thesis
    unfolding two(3) spec_node_extents [OF own] using assms(6,7) by (simp add: exts_after_def)
qed

lemma second_scan_duplicates_extents_witness:
  "\<exists>sc1 fs1 sc2 fs2. scanBlock mem_db 0 ex_node (ex_scanner, init mem_db no_tables) = Inr (sc1, fs1) \<and>
     scanBlock mem_db 4096 ex_node (sc1, fs1) = Inr (sc2, fs2) \<and>
     snd (cat_exts (catalog_of mem_ents mem_exts (m_database fs2)) 16) = {#(0, 40, 4096), (0, 40, 4096)#}"
proof -
  have node: "node_block (m_currentBlockSize ex_scanner) ex_node 7 ex_items" by (simp add: ex_node_block)
  obtain ids fs1 where s1: "scanBlock mem_db 0 ex_node (ex_scanner, init mem_db no_tables) =
      Inr (ex_scanner\<lparr>m_objId2inode := ids\<rparr>, fs1)" and inv1: "fs_inv mem_ents mem_exts mem_good fs1"
    by (rule ex_scan [OF ex_empty_inv ex_scanner_size])
  let ?sc = "ex_scanner\<lparr>m_objId2inode := ids\<rparr>"
  obtain ids' fs2 where s2: "scanBlock mem_db 4096 ex_node (?sc, fs1) = Inr (?sc\<lparr>m_objId2inode := ids'\<rparr>, fs2)"
    by (rule ex_scan [OF inv1, of ?sc]) simp
  have "cat_exts (catalog_of mem_ents mem_exts (m_database fs2)) 16 =
      (7, mset [(0, 40, 4096)] + mset [(0, 40, 4096)])"
    using second_scan_duplicates_extents [OF mem.sql_store_axioms ex_empty_inv node s1 s2, of "[(0, 40, 4096)]" 16]
    by (simp add: ex_items_def records_of_def cat_exts_def cat_get_def blank_row_def)
  with s1 s2 show ?thesis by auto
qed

text \<open>
  C32. Superblocks. A valid container superblock sets the block size to the one it names and
  records its position as the start of the container, unless a start other than 0 is known
  already (so a superblock at position 0 is forgotten for the next one). After a superblock
  with blocks larger than the 4096 bytes that are read at a time (or smaller than the object
  header), every further block is read beyond its end.
\<close>
theorem superblock_sets_block_size:
  assumes "block_valid (m_currentBlockSize sc) mem = Inr True" and "rd32 mem 24 = Inr o_type"
    and "o_type AND 0xffff = OBJECT_TYPE_NX_SUPERBLOCK" and "rd32 mem 32 = Inr NX_MAGIC_NO"
    and "rd32 mem 36 = Inr w"
  shows "scanBlock db pos mem (sc, fs) = Inr (sc\<lparr>m_currentBlockSize := w,
      m_fsOffset := (if m_fsOffset sc = 0 then pos else m_fsOffset sc)\<rparr>, fs) \<and>
    (unat w < 8 \<or> 4100 \<le> unat w \<longrightarrow>
      (\<forall>pos' mem' fs' ids start. length mem' = 4096 \<longrightarrow>
        scanBlock db pos' mem' (\<lparr>m_objId2inode = ids, m_currentBlockSize = w, m_fsOffset = start\<rparr>, fs') =
          Inl OutOfBounds))"
proof (intro conjI impI allI)
  show "scanBlock db pos mem (sc, fs) = Inr (sc\<lparr>m_currentBlockSize := w,
      m_fsOffset := (if m_fsOffset sc = 0 then pos else m_fsOffset sc)\<rparr>, fs)"
    using assms by (cases sc) (simp add: scanBlock_def scan_superblock_def OBJECT_TYPE_NX_SUPERBLOCK_def)
next
  fix pos' fs' ids start and mem' :: "u8 list"
  assume w: "unat w < 8 \<or> 4100 \<le> unat w" and l: "length mem' = 4096"
  let ?b = "ucast (ucast w - MAX_CKSUM_SIZE) :: u32"
  have "4092 \<le> unat ?b" by (rule ex_byte_count [OF w])
  then have "fletcher64 mem' 8 ?b = Inl OutOfBounds"
    using l by (intro fletcher64_fault) (auto simp: in_buf_def)
  then show "scanBlock db pos' mem' (\<lparr>m_objId2inode = ids, m_currentBlockSize = w, m_fsOffset = start\<rparr>, fs') =
      Inl OutOfBounds"
    by (simp add: scanBlock_def block_valid_def MAX_CKSUM_SIZE_def)
qed

theorem superblock_sets_block_size_witness:
  "\<exists>sc. scanBlock mem_db 20480 ex_super (new_scanner\<lparr>m_currentBlockSize := 40\<rparr>, ex_fs) = Inr (sc, ex_fs) \<and>
     m_fsOffset sc = 20480 \<and> scanBlock mem_db 24576 (replicate 4096 0) (sc, ex_fs) = Inl OutOfBounds"
proof -
  let ?sc = "new_scanner\<lparr>m_currentBlockSize := 40\<rparr>"
  have v: "block_valid (m_currentBlockSize ?sc) ex_super = Inr True" by (simp add: ex_super_valid)
  have t: "(1 :: u32) AND 0xffff = OBJECT_TYPE_NX_SUPERBLOCK" by (simp add: OBJECT_TYPE_NX_SUPERBLOCK_def)
  from superblock_sets_block_size [OF v ex_super_fields(1) t ex_super_fields(2,3), of mem_db 20480 ex_fs]
  show ?thesis by (auto simp: new_scanner_def)
qed

text \<open>
  C39. Unchecked offsets. The offsets of the table of contents are followed without a test: a
  valid node with a key that does not lie in the block is an access outside the block.
\<close>
theorem key_outside_block_faults:
  assumes "block_valid (m_currentBlockSize sc) mem = Inr True" and "rd32 mem 24 = Inr o_type"
    and "o_type AND 0xffff \<in> {OBJECT_TYPE_BTREE_NODE, OBJECT_TYPE_BTREE}"
    and "node_pairs (m_currentBlockSize sc) mem = Inr pairs" and "p \<in> set pairs"
    and "\<not> in_buf mem (kv_key p) 8"
  shows "scanBlock db pos mem (sc, fs) = Inl OutOfBounds"
proof -
  have "scanBlock db pos mem (sc, fs) = scanBTreeBlock db mem (sc, fs)"
    using assms(1-3)
    by (auto simp: scanBlock_def OBJECT_TYPE_NX_SUPERBLOCK_def OBJECT_TYPE_BTREE_NODE_def OBJECT_TYPE_BTREE_def)
  then show ?thesis using assms(4) for_each_group_fault [OF assms(5,6)] by (simp add: scanBTreeBlock_def)
qed

theorem key_outside_block_faults_witness:
  "scanBlock mem_db 0 ex_wild (new_scanner\<lparr>m_currentBlockSize := 64\<rparr>, ex_fs) = Inl OutOfBounds"
proof -
  let ?sc = "new_scanner\<lparr>m_currentBlockSize := 64\<rparr>"
  have "block_valid (m_currentBlockSize ?sc) ex_wild = Inr True" by (simp add: ex_wild_valid)
  moreover have "node_pairs (m_currentBlockSize ?sc) ex_wild =
      Inr [\<lparr>kv_key = 60064, valueLength = 0, kv_value = 64\<rparr>]" by (simp add: ex_wild_pairs)
  moreover have "(3 :: u32) AND 0xffff \<in> {OBJECT_TYPE_BTREE_NODE, OBJECT_TYPE_BTREE}"
    by (simp add: OBJECT_TYPE_BTREE_NODE_def)
  moreover have "\<not> in_buf ex_wild 60064 8" by (simp add: in_buf_def ex_wild_def)
  ultimately show ?thesis
    using key_outside_block_faults [of ?sc ex_wild 3 "[\<lparr>kv_key = 60064, valueLength = 0, kv_value = 64\<rparr>]"
        "\<lparr>kv_key = 60064, valueLength = 0, kv_value = 64\<rparr>"] ex_wild_pairs(1) by simp
qed

end
