(* ===== verification/Disk_Scanner.thy ===== *)
theory Disk_Scanner
  imports Scanner_Theorems
begin

text \<open>
  The class \<open>DiskScanner\<close> of \<open>src/libsbb/diskscanner.cpp\<close> and the interface
  \<open>FileSystemScanner\<close> of \<open>include/scanner.h\<close>. \<open>scan\<close> reads the disk in blocks of 4096 bytes
  and hands each to every scanner, while a signal handler may call \<open>stop\<close> at any time, so it
  is a state machine whose events are the call of \<open>scan\<close>, an iteration of its loop with what
  \<open>read\<close> returns, and \<open>stop\<close>. The interface is the locale \<open>block_scanner\<close>: a scanner that
  is handed a block it understands changes the catalog as the block says. Every database that
  keeps the contract \<open>sql_store\<close> makes \<open>APFSScanner::scanBlock\<close> such a scanner.
\<close>

section \<open>State and operations\<close>

record 'd disk_scanner =
  m_fd :: int
  m_fileSystem :: "'d filesystem"
  m_scanners :: "scanner list"
  m_running :: bool

text \<open>
  The constructor leaves no scanner and no file system; \<open>m_fd\<close> is not set, so \<open>fd\<close> and \<open>fs\<close> are
  what happens to be there. The paths of the image and the database are arguments of \<open>disk_open\<close>.
\<close>

definition new_DiskScanner :: "int \<Rightarrow> 'd filesystem \<Rightarrow> 'd disk_scanner" where
  "new_DiskScanner fd fs = \<lparr>m_fd = fd, m_fileSystem = fs, m_scanners = [], m_running = False\<rparr>"

lemma new_DiskScanner_scanners [simp]: "m_scanners (new_DiskScanner fd fs) = []"
  by (simp add: new_DiskScanner_def)

text \<open>
  \<open>open\<close>: the file system on its database, one APFS scanner, and the disk; \<open>fd\<close> is what
  \<open>::open\<close> returns. \<open>APFSScanner::init\<close> is not called.
\<close>

definition disk_open :: "('d, 'r) database \<Rightarrow> 'd \<Rightarrow> int \<Rightarrow> 'd disk_scanner \<Rightarrow> bool \<times> 'd disk_scanner" where
  "disk_open db d fd ds =
     (let ds = ds\<lparr>m_fileSystem := init db d, m_scanners := m_scanners ds @ [new_scanner], m_fd := fd\<rparr>
      in (\<not> fd < 0, ds))"

definition stop :: "'d disk_scanner \<Rightarrow> 'd disk_scanner" where
  "stop ds = ds\<lparr>m_running := False\<rparr>"

text \<open>The range-based loop over the scanners, which share the file system.\<close>

fun scan_all ::
  "(u64 \<Rightarrow> u8 list \<Rightarrow> 's \<times> 'f \<Rightarrow> ('s \<times> 'f) res) \<Rightarrow> u64 \<Rightarrow> u8 list \<Rightarrow> 's list \<Rightarrow> 'f
     \<Rightarrow> ('s list \<times> 'f) res" where
  "scan_all scan pos block [] fs = Inr ([], fs)"
| "scan_all scan pos block (s # ss) fs =
     and_then (scan pos block (s, fs)) (\<lambda>(s, fs).
     and_then (scan_all scan pos block ss fs) (\<lambda>(ss, fs). Inr (s # ss, fs)))"

text \<open>
  What \<open>::read\<close> does to \<open>block[4096]\<close>: an error, or the bytes it has read, followed by the rest
  of the array, which the language leaves indeterminate. No bytes is the end of the disk.
\<close>

datatype read_result = Read_Error | Read_Bytes "u8 list" "u8 list"

text \<open>The body of the loop: whether it goes on, the next position, and the state.\<close>

definition scan_body ::
  "('d, 'r) database \<Rightarrow> read_result \<Rightarrow> u64 \<Rightarrow> 'd disk_scanner
     \<Rightarrow> (bool \<times> u64 \<times> 'd disk_scanner) res" where
  "scan_body db r pos ds =
     (case r of
        Read_Error \<Rightarrow> Inr (False, pos, ds)
      | Read_Bytes bs rest \<Rightarrow>
          if bs = [] then Inr (False, pos, ds)
          else
            (let fs = m_fileSystem ds;
                 fs = fs\<lparr>m_database := startTransaction db (m_database fs)\<rparr>
             in and_then (scan_all (scanBlock db) pos (bs @ rest) (m_scanners ds) fs) (\<lambda>(scs, fs).
                let fs = fs\<lparr>m_database := endTransaction db (m_database fs)\<rparr>
                in Inr (True, pos + 4096, ds\<lparr>m_scanners := scs, m_fileSystem := fs\<rparr>))))"

text \<open>
  Where the thread that scans is: before the call of \<open>scan\<close>, at the head of the loop with its
  position, or past the return, with the value \<open>scan\<close> returns.
\<close>

datatype scan_pc = Not_Called | At_Loop u64 | Returned bool

datatype scan_event = Call_Scan | Iterate read_result | Call_Stop

fun disk_step ::
  "('d, 'r) database \<Rightarrow> scan_event \<Rightarrow> scan_pc \<times> 'd disk_scanner
     \<Rightarrow> (scan_pc \<times> 'd disk_scanner) res" where
  "disk_step db Call_Scan (Not_Called, ds) =
     Inr (At_Loop 0, ds\<lparr>m_fileSystem := clear db (m_fileSystem ds), m_running := True\<rparr>)"
| "disk_step db (Iterate r) (At_Loop pos, ds) =
     (if m_running ds
      then and_then (scan_body db r pos ds) (\<lambda>(more, pos, ds).
             Inr (if more then At_Loop pos else Returned False, ds))
      else Inr (Returned False, ds))"
| "disk_step db Call_Stop (pc, ds) = Inr (pc, stop ds)"
| "disk_step db ev s = Inr s"

text \<open>A run of \<open>scan\<close> without a signal on a disk that yields the results \<open>rs\<close>.\<close>

definition scan_disk ::
  "('d, 'r) database \<Rightarrow> read_result list \<Rightarrow> 'd disk_scanner \<Rightarrow> (scan_pc \<times> 'd disk_scanner) res" where
  "scan_disk db rs ds = for_each (disk_step db) (Call_Scan # map Iterate rs) (Not_Called, ds)"

section \<open>The interface of a scanner\<close>

text \<open>
  \<open>effect block f\<close> says that the block is one the scanner understands and \<open>f\<close> what it makes of
  the catalog; \<open>view\<close> is the catalog of the shared file system.
\<close>

locale block_scanner =
  fixes scan :: "u64 \<Rightarrow> u8 list \<Rightarrow> 's \<times> 'f \<Rightarrow> ('s \<times> 'f) res"
    and ready :: "'s \<Rightarrow> bool"
    and ok :: "'f \<Rightarrow> bool"
    and view :: "'f \<Rightarrow> catalog"
    and effect :: "u8 list \<Rightarrow> (catalog \<Rightarrow> catalog) \<Rightarrow> bool"
  assumes understands: "ready s \<Longrightarrow> ok fs \<Longrightarrow> effect block f \<Longrightarrow>
    \<exists>s' fs'. scan pos block (s, fs) = Inr (s', fs') \<and> ready s' \<and> ok fs' \<and> view fs' = f (view fs)"
begin

lemma scan_all_understands:
  assumes "ok fs" "\<forall>s \<in> set ss. ready s" "effect block f"
  shows "\<exists>ss' fs'. scan_all scan pos block ss fs = Inr (ss', fs') \<and> length ss' = length ss \<and>
    (\<forall>s \<in> set ss'. ready s) \<and> ok fs' \<and> view fs' = (f ^^ length ss) (view fs)"
  using assms(1,2)
proof (induction ss arbitrary: fs)
  case (Cons s ss)
  then obtain s1 fs1 where s1: "scan pos block (s, fs) = Inr (s1, fs1)" "ready s1" "ok fs1"
    "view fs1 = f (view fs)"
    using understands [of s fs block f pos] assms(3) by auto
  with Cons.IH [OF s1(3)] Cons.prems(2) obtain ss' fs' where
    "scan_all scan pos block ss fs1 = Inr (ss', fs')" "length ss' = length ss"
    "\<forall>s \<in> set ss'. ready s" "ok fs'" "view fs' = (f ^^ length ss) (f (view fs))" by auto
  with s1 show ?case by (simp add: funpow_swap1)
qed simp

end

section \<open>The APFS scanner keeps the interface\<close>

text \<open>
  The blocks it understands, for blocks of \<open>bs\<close> bytes: a node in bounds, a superblock of the
  same block size, and everything it ignores.
\<close>

inductive clean_block :: "u32 \<Rightarrow> u8 list \<Rightarrow> (catalog \<Rightarrow> catalog) \<Rightarrow> bool" for bs mem where
  node: "node_block bs mem xid items \<Longrightarrow> clean_block bs mem (spec_node xid items)"
| invalid: "block_valid bs mem = Inr False \<Longrightarrow> clean_block bs mem (\<lambda>c. c)"
| superblock: "block_valid bs mem = Inr True \<Longrightarrow> rd32 mem 24 = Inr o_type \<Longrightarrow>
    o_type AND 0xffff = OBJECT_TYPE_NX_SUPERBLOCK \<Longrightarrow> rd32 mem 32 = Inr magic \<Longrightarrow>
    rd32 mem 36 = Inr bs \<Longrightarrow> clean_block bs mem (\<lambda>c. c)"
| other: "block_valid bs mem = Inr True \<Longrightarrow> rd32 mem 24 = Inr o_type \<Longrightarrow>
    o_type AND 0xffff \<notin> {OBJECT_TYPE_NX_SUPERBLOCK, OBJECT_TYPE_BTREE_NODE, OBJECT_TYPE_BTREE} \<Longrightarrow>
    clean_block bs mem (\<lambda>c. c)"

context sql_store
begin

lemma scanBlock_clean:
  assumes "m_currentBlockSize sc = bs" "fs_inv ents exts good fs" "clean_block bs mem f"
  shows "\<exists>sc' fs'. scanBlock db pos mem (sc, fs) = Inr (sc', fs') \<and> m_currentBlockSize sc' = bs \<and>
    fs_inv ents exts good fs' \<and>
    catalog_of ents exts (m_database fs') = f (catalog_of ents exts (m_database fs))"
  using assms(3)
proof cases
  case (node xid items)
  with assms(1) have "node_block (m_currentBlockSize sc) mem xid items" by simp
  from scanBlock_refines [OF assms(2) this, of pos] obtain ids fs' where
    "scanBlock db pos mem (sc, fs) = Inr (sc\<lparr>m_objId2inode := ids\<rparr>, fs')" "fs_inv ents exts good fs'"
    "catalog_of ents exts (m_database fs') = spec_node xid items (catalog_of ents exts (m_database fs))" .
  with node(1) assms(1) show ?thesis by simp
next
  case invalid
  with assms(1,2) show ?thesis by (auto simp: scanBlock_def)
next
  case (superblock o_type magic)
  then have "\<exists>sc'. scanBlock db pos mem (sc, fs) = Inr (sc', fs) \<and> m_currentBlockSize sc' = bs"
    using assms(1) by (auto simp: scanBlock_def scan_superblock_def OBJECT_TYPE_NX_SUPERBLOCK_def Let_def)
  with superblock(1) assms(2) show ?thesis by auto
next
  case (other o_type)
  with assms(1,2) show ?thesis by (auto simp: scanBlock_def)
qed

end

sublocale sql_store \<subseteq> apfs: block_scanner "scanBlock db" "\<lambda>sc. m_currentBlockSize sc = bs"
  "fs_inv ents exts good" "\<lambda>fs. catalog_of ents exts (m_database fs)" "clean_block bs" for bs
  by unfold_locales (rule scanBlock_clean)

interpretation mem_apfs: block_scanner "scanBlock mem_db" "\<lambda>sc. m_currentBlockSize sc = bs"
  "fs_inv mem_ents mem_exts mem_good" "\<lambda>fs. catalog_of mem_ents mem_exts (m_database fs)"
  "clean_block bs" for bs
  by unfold_locales (rule mem.scanBlock_clean)

end
