(* ===== verification/Scan_Example.thy ===== *)
theory Scan_Example
  imports Disk_Scanner
begin

text \<open>
  The example node as a block of 4096 bytes, for a scan of a whole disk: the same three items,
  the values at the end of the block, zeros between the keys and the values.
\<close>

definition ex_head :: "u8 list" where
  "ex_head =
  [211, 95, 119, 35, 204, 233, 19, 43, 4, 4, 0, 0, 0, 0, 0, 0, 7, 0, 0, 0, 0, 0, 0, 0, 3, 0, 0, 0,
   14, 0, 0, 0, 2, 0, 0, 0, 3, 0, 0, 0, 0, 0, 24, 0, 0, 0, 0, 0, 0, 0, 0, 0, 0, 0, 0, 0,
   0, 0, 14, 0, 18, 0, 18, 0, 14, 0, 8, 0, 158, 0, 140, 0, 22, 0, 16, 0, 182, 0, 24, 0, 2, 0, 0, 0,
   0, 0, 0, 144, 2, 0, 0, 0, 97, 0, 16, 0, 0, 0, 0, 0, 0, 48, 16, 0, 0, 0, 0, 0, 0, 128, 0, 0,
   0, 0, 0, 0, 0, 0]"

definition ex_tail :: "u8 list" where
  "ex_tail =
  [0, 16, 0, 0, 0, 0, 0, 0, 40, 0, 0, 0, 0, 0, 0, 0, 0, 0, 0, 0, 0, 0, 0, 0, 2, 0, 0, 0,
   0, 0, 0, 0, 16, 0, 0, 0, 0, 0, 0, 0, 0, 0, 0, 0, 0, 0, 0, 0, 0, 0, 0, 0, 0, 0, 0, 0,
   0, 0, 0, 0, 0, 0, 0, 0, 0, 0, 0, 0, 0, 0, 0, 0, 0, 0, 0, 0, 0, 0, 0, 0, 0, 0, 0, 0,
   0, 0, 0, 0, 0, 0, 0, 0, 0, 0, 0, 0, 0, 0, 0, 0, 0, 0, 0, 0, 0, 0, 0, 0, 0, 0, 0, 0,
   0, 0, 0, 0, 1, 0, 40, 0, 8, 0, 40, 0, 5, 0, 0, 0, 0, 0, 0, 0, 0, 16, 0, 0, 0, 0, 0, 0,
   0, 0, 0, 0, 0, 0, 0, 0, 0, 0, 0, 0, 0, 0, 0, 0, 0, 0, 0, 0, 0, 0, 0, 0, 16, 0, 0, 0,
   0, 0, 0, 0, 0, 0, 0, 0, 0, 0, 0, 0, 8, 0]"

definition ex_block :: "u8 list" where
  "ex_block = ex_head @ replicate 3796 0 @ ex_tail"

lemma length_ex_block [simp]: "length ex_head = 118" "length ex_tail = 182" "length ex_block = 4096"
  by (simp_all add: ex_head_def ex_tail_def ex_block_def)

section \<open>The checksum\<close>

lemma fl_sums_zero: "fl_sum1 (replicate n 0) = 0" "fl_sum2 (replicate n 0) = 0"
  by (induction n) simp_all

lemma words_of_append: "length xs = 4 * k \<Longrightarrow> words_of (xs @ ys) = words_of xs @ words_of ys"
proof (induction k arbitrary: xs)
  case (Suc k)
  then obtain a b c d zs where "xs = a # b # c # d # zs" "length zs = 4 * k"
    by (auto simp: length_Suc_conv numeral_eq_Suc)
  with Suc.IH show ?case by simp
qed simp

lemma words_of_zero: "words_of (replicate (4 * k) 0) = replicate k 0"
proof (induction k)
  case (Suc k)
  have "replicate (4 * Suc k) 0 = [0, 0, 0, 0 :: u8] @ replicate (4 * k) 0"
    by (simp add: numeral_eq_Suc)
  with Suc show ?case by simp
qed simp

lemma ex_block_body:
  "drop 8 ex_block = (drop 8 ex_head @ [0, 0]) @ replicate 3792 0 @ ([0, 0] @ ex_tail)"
proof -
  have "replicate 3796 (0 :: u8) = replicate (2 + 3792 + 2) 0" by simp
  also have "\<dots> = [0, 0] @ replicate 3792 0 @ [0, 0]" by (simp only: replicate_add) (simp add: numeral_2_eq_2)
  finally show ?thesis by (simp add: ex_block_def)
qed

lemma ex_block_words:
  "words_at ex_block 8 1022 = words_of (drop 8 ex_head @ [0, 0]) @ replicate 948 0 @ words_of ([0, 0] @ ex_tail)"
proof -
  have z: "words_of (replicate 3792 0) = replicate 948 0" using words_of_zero [of 948] by simp
  have "words_of (drop 8 ex_block) =
      words_of (drop 8 ex_head @ [0, 0]) @ words_of (replicate 3792 0 @ ([0, 0] @ ex_tail))"
    unfolding ex_block_body by (rule words_of_append [where k = 28]) simp
  also have "words_of (replicate 3792 0 @ ([0, 0] @ ex_tail)) =
      words_of (replicate 3792 0) @ words_of ([0, 0] @ ex_tail)"
    by (rule words_of_append [where k = 948]) simp
  finally show ?thesis
    using words_at_words_of [of 8 1022 ex_block] z by (simp add: ex_head_def ex_tail_def)
qed

lemma ex_block_cksum: "fletcher64 ex_block 8 4088 = Inr 0x2b13e9cc23775fd3"
proof -
  have "in_buf ex_block 8 (4 * (unat (4088 :: u32) div 4))" by (simp add: in_buf_def)
  then obtain r where r: "fletcher64 ex_block 8 4088 = Inr r" "unat r = fl_reference (words_at ex_block 8 1022)"
    using fletcher64_reference [of ex_block 8 4088] by auto
  have s: "fl_sum1 (words_of (drop 8 ex_head @ [0, 0])) = 2434053648" "fl_sum2 (words_of (drop 8 ex_head @ [0, 0])) = 21976381592"
     "fl_sum1 (words_of ([0, 0] @ ex_tail)) = 543162448" "fl_sum2 (words_of ([0, 0] @ ex_tail)) = 16018310360"
     "length (words_of ([0, 0] @ ex_tail)) = 46"
    by (simp_all add: ex_head_def ex_tail_def)
  have "fl_sum1 (words_at ex_block 8 1022) = 2977216096" "fl_sum2 (words_at ex_block 8 1022) = 2457444018064"
    unfolding ex_block_words by (simp_all only: fl_sum1_append fl_sum2_append fl_sums_zero s length_append length_replicate) simp_all
  then have "fl_reference (words_at ex_block 8 1022) = 3104081631166029779"
    by (simp add: fl_reference_def fl_check2_def fl_check1_def fl_mod_def)
  with r show ?thesis by (simp add: word_unat_eq_iff)
qed

section \<open>The items\<close>

lemmas ex_block_bytes = ex_block_def ex_head_def ex_tail_def

lemma ex_block_head:
  "rd32 ex_block 24 = Inr 3" "rd64 ex_block 0 = Inr 0x2b13e9cc23775fd3" "rd64 ex_block 16 = Inr 7"
  "rd16 ex_block 40 = Inr 0" "rd16 ex_block 42 = Inr 24" "rd16 ex_block 32 = Inr 2" "rd32 ex_block 36 = Inr 3"
  by (simp_all add: ex_block_bytes read_simps)

lemma ex_block_toc: "toc_variable ex_block 56 (Suc (Suc (Suc 0))) =
  Inr [\<lparr>k_off = 0, k_len = 14, v_off = 18, v_len = 18\<rparr>, \<lparr>k_off = 14, k_len = 8, v_off = 158, v_len = 140\<rparr>,
       \<lparr>k_off = 22, k_len = 16, v_off = 182, v_len = 24\<rparr>]"
  by (simp add: ex_block_bytes read_simps)

lemma ex_block_pairs: "node_pairs 4096 ex_block =
  Inr [\<lparr>kv_key = 80, valueLength = 18, kv_value = 4078\<rparr>, \<lparr>kv_key = 94, valueLength = 140, kv_value = 3938\<rparr>,
       \<lparr>kv_key = 102, valueLength = 24, kv_value = 3914\<rparr>]"
  using ex_block_toc [folded numeral_3_eq_3]
  by (simp add: node_pairs_def ex_block_head Let_def BTNODE_ROOT_def BTNODE_FIXED_KV_SIZE_def)

lemma ex_block_keys:
  "key_word ex_block 80 = Inr 0x9000000000000002" "key_word ex_block 94 = Inr 0x3000000000000010"
  "key_word ex_block 102 = Inr 0x8000000000000010"
  by (simp_all add: key_word_def ex_block_bytes read_simps)

lemma ex_block_values:
  "rd64 ex_block 4078 = Inr 16" "rd_cstring ex_block 92 = Inr [97]" "rd16 ex_block 4094 = Inr 8"
  "inode_size ex_block 140 3938 = Inr (Some 5)" "rd64 ex_block 3938 = Inr 2"
  "rd64 ex_block 3914 = Inr 4096" "rd64 ex_block 110 = Inr 0" "rd64 ex_block 3922 = Inr 40"
  by (simp_all add: ex_block_bytes read_simps rd_cstring_def inode_size_def Let_def align8_def
      INO_EXT_TYPE_DSTREAM_def)

lemma ex_block_items:
  "decode_items ex_block
     [\<lparr>kv_key = 80, valueLength = 18, kv_value = 4078\<rparr>, \<lparr>kv_key = 94, valueLength = 140, kv_value = 3938\<rparr>,
      \<lparr>kv_key = 102, valueLength = 24, kv_value = 3914\<rparr>] = Inr ex_items"
  by (simp add: decode_pair_def ex_block_keys ex_block_values key_simps ex_items_def)

lemma ex_block_node: "node_block 4096 ex_block 7 ex_items"
proof -
  have "block_valid 4096 ex_block = Inr True"
    by (simp add: block_valid_def MAX_CKSUM_SIZE_def ex_block_cksum ex_block_head)
  moreover have "node_xid ex_block 0 = Inr 7" by (simp add: node_xid_def ex_block_head)
  ultimately show ?thesis
    by (simp add: node_block_def ex_block_head ex_block_pairs ex_block_items OBJECT_TYPE_BTREE_NODE_def
        del: decode_items.simps)
qed

lemma ex_block_clean: "clean_block 4096 ex_block (spec_node 7 ex_items)"
  by (rule clean_block.node [OF ex_block_node])

text \<open>A block of zeros is ignored.\<close>

lemma le_word_zero: "le_word (replicate n 0) = 0"
  by (induction n) simp_all

lemma ex_zero_clean: "clean_block 4096 (replicate 4096 0) (\<lambda>c. c)"
proof -
  have "in_buf (replicate 4096 0) 8 (4 * (unat (4088 :: u32) div 4))" by (simp add: in_buf_def)
  then obtain r where "fletcher64 (replicate 4096 0) 8 4088 = Inr r"
    using fletcher64_reference [of "replicate 4096 0" 8 4088] by auto
  moreover have "rd32 (replicate 4096 0) 24 = Inr 0"
    by (simp add: rd32_def rd_bytes_def le_word_zero)
  ultimately have "block_valid 4096 (replicate 4096 0) = Inr False"
    by (simp add: block_valid_def MAX_CKSUM_SIZE_def)
  then show ?thesis by (rule clean_block.invalid)
qed

end
