(* ===== verification/Disk_Theorems.thy ===== *)
theory Disk_Theorems
  imports Scan_Example
begin

text \<open>
  The properties of \<open>DiskScanner\<close>: what a scan of a whole disk records, that it is safe under
  any interleaving with the signal handler, and how it ends.
\<close>

section \<open>Runs\<close>

text \<open>The states a program can reach by events that are \<open>allowed\<close>.\<close>

inductive runs ::
  "('d, 'r) database \<Rightarrow> (scan_event \<Rightarrow> bool) \<Rightarrow> scan_pc \<times> 'd disk_scanner
     \<Rightarrow> scan_pc \<times> 'd disk_scanner \<Rightarrow> bool" for db allowed s where
  start: "runs db allowed s s"
| step: "runs db allowed s t \<Longrightarrow> allowed ev \<Longrightarrow> disk_step db ev t = Inr u \<Longrightarrow> runs db allowed s u"

text \<open>An event whose block, if it reads one, the scanner understands.\<close>

fun clean_event :: "scan_event \<Rightarrow> bool" where
  "clean_event (Iterate (Read_Bytes bs rest)) = (bs = [] \<or> (\<exists>f. clean_block 4096 (bs @ rest) f))"
| "clean_event _ = True"

text \<open>What \<open>disk_open\<close> establishes and every step keeps.\<close>

definition disk_inv ::
  "('d \<Rightarrow> u64 \<rightharpoonup> entry_row) \<Rightarrow> ('d \<Rightarrow> u64 \<Rightarrow> extent_row multiset) \<Rightarrow> ('d \<Rightarrow> bool)
     \<Rightarrow> scan_pc \<times> 'd disk_scanner \<Rightarrow> bool" where
  "disk_inv E X good s \<longleftrightarrow>
     fs_inv E X good (m_fileSystem (snd s)) \<and>
     (\<forall>sc \<in> set (m_scanners (snd s)). m_currentBlockSize sc = 4096) \<and>
     (case fst s of
        Not_Called \<Rightarrow> m_diskEntries (m_fileSystem (snd s)) = []
      | At_Loop pos \<Rightarrow> 4096 dvd unat pos
      | Returned b \<Rightarrow> b = False)"

lemma dvd_step: "4096 dvd unat (pos :: u64) \<Longrightarrow> 4096 dvd unat (pos + 4096)"
proof -
  assume a: "4096 dvd unat pos"
  have "unat (pos + 4096) = (unat pos + 4096) mod 2 ^ 64" by (simp add: unat_word_ariths)
  moreover have "4096 dvd (2 :: nat) ^ 64" by simp
  ultimately show ?thesis using a by (simp add: dvd_mod)
qed

context sql_store
begin

lemma transaction_inv:
  assumes "fs_inv ents exts good fs"
  shows "fs_inv ents exts good (fs\<lparr>m_database := startTransaction db (m_database fs)\<rparr>)"
    "catalog_of ents exts (startTransaction db (m_database fs)) = catalog_of ents exts (m_database fs)"
    "fs_inv ents exts good (fs\<lparr>m_database := endTransaction db (m_database fs)\<rparr>)"
    "catalog_of ents exts (endTransaction db (m_database fs)) = catalog_of ents exts (m_database fs)"
proof -
  note t = transaction [OF fs_inv_good [OF assms]]
  then show c: "catalog_of ents exts (startTransaction db (m_database fs)) = catalog_of ents exts (m_database fs)"
    "catalog_of ents exts (endTransaction db (m_database fs)) = catalog_of ents exts (m_database fs)"
    by (simp_all add: catalog_of_def fun_eq_iff)
  show "fs_inv ents exts good (fs\<lparr>m_database := startTransaction db (m_database fs)\<rparr>)"
    "fs_inv ents exts good (fs\<lparr>m_database := endTransaction db (m_database fs)\<rparr>)"
    using assms t c by (simp_all add: fs_inv_but_def db_inv_def)
qed

text \<open>The body of the loop on a block the scanner understands.\<close>

lemma scan_body_clean:
  assumes inv: "fs_inv ents exts good (m_fileSystem ds)"
    and sc: "\<forall>sc \<in> set (m_scanners ds). m_currentBlockSize sc = 4096"
    and bs: "bs \<noteq> []" "clean_block 4096 (bs @ rest) f"
  obtains ds' where "scan_body db (Read_Bytes bs rest) pos ds = Inr (True, pos + 4096, ds')"
    "fs_inv ents exts good (m_fileSystem ds')" "\<forall>sc \<in> set (m_scanners ds'). m_currentBlockSize sc = 4096"
    "length (m_scanners ds') = length (m_scanners ds)" "m_running ds' = m_running ds"
    "catalog_of ents exts (m_database (m_fileSystem ds')) =
      (f ^^ length (m_scanners ds)) (catalog_of ents exts (m_database (m_fileSystem ds)))"
proof -
  let ?fs = "(m_fileSystem ds)\<lparr>m_database := startTransaction db (m_database (m_fileSystem ds))\<rparr>"
  note t = transaction_inv [OF inv]
  from apfs.scan_all_understands [OF t(1) sc bs(2), of pos] obtain scs fs' where
    s: "scan_all (scanBlock db) pos (bs @ rest) (m_scanners ds) ?fs = Inr (scs, fs')"
    "length scs = length (m_scanners ds)" "\<forall>sc \<in> set scs. m_currentBlockSize sc = 4096"
    "fs_inv ents exts good fs'"
    "catalog_of ents exts (m_database fs') = (f ^^ length (m_scanners ds)) (catalog_of ents exts (m_database ?fs))"
    by auto
  note u = transaction_inv [OF s(4)]
  let ?ds = "ds\<lparr>m_scanners := scs, m_fileSystem := fs'\<lparr>m_database := endTransaction db (m_database fs')\<rparr>\<rparr>"
  have "scan_body db (Read_Bytes bs rest) pos ds = Inr (True, pos + 4096, ?ds)"
    using bs(1) s(1) by (simp add: scan_body_def Let_def)
  then show thesis
    using s u t by (intro that [of ?ds]) simp_all
qed

lemma disk_step_safe:
  assumes inv: "disk_inv ents exts good s" and ev: "clean_event ev"
  obtains s' where "disk_step db ev s = Inr s'" "disk_inv ents exts good s'"
proof -
  obtain pc ds where s: "s = (pc, ds)" by fastforce
  have fs: "fs_inv ents exts good (m_fileSystem ds)"
    and sc: "\<forall>sc \<in> set (m_scanners ds). m_currentBlockSize sc = 4096"
    using inv by (simp_all add: disk_inv_def s)
  have "\<exists>s'. disk_step db ev s = Inr s' \<and> disk_inv ents exts good s'"
  proof (cases ev)
    case Call_Scan
    show ?thesis
    proof (cases pc)
      case Not_Called
      with inv have "m_diskEntries (m_fileSystem ds) = []" by (simp add: disk_inv_def s)
      with clear_inv(1) [OF fs] Call_Scan Not_Called sc show ?thesis by (simp add: disk_inv_def s)
    qed (use inv Call_Scan s in simp_all)
  next
    case Call_Stop
    with inv show ?thesis by (cases pc) (simp_all add: disk_inv_def s stop_def)
  next
    case (Iterate r)
    show ?thesis
    proof (cases pc)
      case (At_Loop pos)
      have pos: "4096 dvd unat pos" using inv by (simp add: disk_inv_def s At_Loop)
      show ?thesis
      proof (cases "m_running ds \<and> (\<exists>bs rest. r = Read_Bytes bs rest \<and> bs \<noteq> [])")
        case True
        then obtain bs rest where r: "r = Read_Bytes bs rest" "bs \<noteq> []" and run: "m_running ds" by blast
        with ev Iterate obtain f where "clean_block 4096 (bs @ rest) f" by auto
        from scan_body_clean [OF fs sc r(2) this] obtain ds' where
          ds': "scan_body db (Read_Bytes bs rest) pos ds = Inr (True, pos + 4096, ds')"
          "fs_inv ents exts good (m_fileSystem ds')" "\<forall>sc \<in> set (m_scanners ds'). m_currentBlockSize sc = 4096"
          by blast
        with Iterate r run At_Loop dvd_step [OF pos] show ?thesis by (simp add: disk_inv_def s)
      next
        case False
        with Iterate At_Loop fs sc show ?thesis
          by (cases r) (auto simp: disk_inv_def s scan_body_def)
      qed
    qed (use inv Iterate s in simp_all)
  qed
  then show thesis using that by blast
qed

lemma runs_inv: "runs db clean_event s t \<Longrightarrow> disk_inv ents exts good s \<Longrightarrow> disk_inv ents exts good t"
proof (induction rule: runs.induct)
  case (step t ev u)
  then have inv: "disk_inv ents exts good t" by simp
  from inv step.hyps(2) obtain s' where "disk_step db ev t = Inr s'" "disk_inv ents exts good s'"
    by (rule disk_step_safe)
  with step.hyps(3) show ?case by simp
qed

lemma disk_open_inv:
  assumes "db_inv ents exts good d" "m_scanners ds = []"
  shows "disk_inv ents exts good (Not_Called, snd (disk_open db d fd ds))"
  using init_spec [OF assms(1)] assms(2) by (simp add: disk_inv_def disk_open_def new_scanner_def)

text \<open>The iterations of an undisturbed scan, and its end.\<close>

lemma iterations:
  assumes "list_all2 (\<lambda>b f. b \<noteq> [] \<and> clean_block 4096 b f) blocks fs"
    and "disk_inv ents exts good (At_Loop pos, ds)" "m_running ds" "length (m_scanners ds) = 1"
  shows "\<exists>pos' ds'. for_each (disk_step db) (map (\<lambda>b. Iterate (Read_Bytes b [])) blocks) (At_Loop pos, ds) =
      Inr (At_Loop pos', ds') \<and> disk_inv ents exts good (At_Loop pos', ds') \<and> m_running ds' \<and>
    catalog_of ents exts (m_database (m_fileSystem ds')) =
      fold (\<lambda>f c. f c) fs (catalog_of ents exts (m_database (m_fileSystem ds)))"
  using assms
proof (induction blocks fs arbitrary: pos ds rule: list_all2_induct)
  case (Cons b bs f fs)
  have inv: "fs_inv ents exts good (m_fileSystem ds)" "\<forall>sc \<in> set (m_scanners ds). m_currentBlockSize sc = 4096"
    and pos: "4096 dvd unat pos"
    using Cons.prems(1) by (simp_all add: disk_inv_def)
  from Cons.hyps(1) have b: "b \<noteq> []" "clean_block 4096 (b @ []) f" by simp_all
  from scan_body_clean [OF inv b, of pos] obtain ds1 where
    ds1: "scan_body db (Read_Bytes b []) pos ds = Inr (True, pos + 4096, ds1)"
    "fs_inv ents exts good (m_fileSystem ds1)" "\<forall>sc \<in> set (m_scanners ds1). m_currentBlockSize sc = 4096"
    "length (m_scanners ds1) = length (m_scanners ds)" "m_running ds1 = m_running ds"
    "catalog_of ents exts (m_database (m_fileSystem ds1)) =
      (f ^^ length (m_scanners ds)) (catalog_of ents exts (m_database (m_fileSystem ds)))" .
  have "disk_inv ents exts good (At_Loop (pos + 4096), ds1)"
    using ds1(2,3) dvd_step [OF pos] by (simp add: disk_inv_def)
  with Cons.IH [of "pos + 4096" ds1] ds1 Cons.prems(2,3) show ?case by simp
qed simp

lemma scan_iterations:
  assumes inv: "disk_inv ents exts good (Not_Called, ds)" and one: "length (m_scanners ds) = 1"
    and blocks: "list_all2 (\<lambda>b f. b \<noteq> [] \<and> clean_block 4096 b f) blocks fs"
  obtains pos' ds' where "for_each (disk_step db) (Call_Scan # map (\<lambda>b. Iterate (Read_Bytes b [])) blocks)
      (Not_Called, ds) = Inr (At_Loop pos', ds')"
    "disk_inv ents exts good (At_Loop pos', ds')" "m_running ds'"
    "catalog_of ents exts (m_database (m_fileSystem ds')) = fold (\<lambda>f c. f c) fs Map.empty"
proof -
  have fs: "fs_inv ents exts good (m_fileSystem ds)" "m_diskEntries (m_fileSystem ds) = []"
    using inv by (simp_all add: disk_inv_def)
  let ?ds = "ds\<lparr>m_fileSystem := clear db (m_fileSystem ds), m_running := True\<rparr>"
  have inv': "disk_inv ents exts good (At_Loop 0, ?ds)"
    using inv clear_inv(1) [OF fs] by (simp add: disk_inv_def)
  from iterations [OF blocks inv'] one obtain pos' ds' where
    loop: "for_each (disk_step db) (map (\<lambda>b. Iterate (Read_Bytes b [])) blocks) (At_Loop 0, ?ds) =
      Inr (At_Loop pos', ds')" "disk_inv ents exts good (At_Loop pos', ds')" "m_running ds'"
    "catalog_of ents exts (m_database (m_fileSystem ds')) =
      fold (\<lambda>f c. f c) fs (catalog_of ents exts (m_database (clear db (m_fileSystem ds))))" by auto
  with clear_inv(2) [OF fs] show thesis by (intro that) simp_all
qed

lemma scan_disk_spec:
  assumes inv: "disk_inv ents exts good (Not_Called, ds)" and one: "length (m_scanners ds) = 1"
    and blocks: "list_all2 (\<lambda>b f. b \<noteq> [] \<and> clean_block 4096 b f) blocks fs"
    and last: "r = Read_Error \<or> (\<exists>rest. r = Read_Bytes [] rest)"
  obtains ds' where "scan_disk db (map (\<lambda>b. Read_Bytes b []) blocks @ [r]) ds = Inr (Returned False, ds')"
    "fs_inv ents exts good (m_fileSystem ds')"
    "catalog_of ents exts (m_database (m_fileSystem ds')) = fold (\<lambda>f c. f c) fs Map.empty"
proof -
  from scan_iterations [OF inv one blocks] obtain pos' ds' where
    loop: "for_each (disk_step db) (Call_Scan # map (\<lambda>b. Iterate (Read_Bytes b [])) blocks) (Not_Called, ds) =
      Inr (At_Loop pos', ds')" "disk_inv ents exts good (At_Loop pos', ds')" "m_running ds'"
    "catalog_of ents exts (m_database (m_fileSystem ds')) = fold (\<lambda>f c. f c) fs Map.empty" .
  have "disk_step db (Iterate r) (At_Loop pos', ds') = Inr (Returned False, ds')"
    using last loop(3) by (auto simp: scan_body_def)
  then have "for_each (disk_step db) ((Call_Scan # map (\<lambda>b. Iterate (Read_Bytes b [])) blocks) @ [Iterate r])
      (Not_Called, ds) = Inr (Returned False, ds')"
    unfolding for_each_append loop(1) by simp
  then have "scan_disk db (map (\<lambda>b. Read_Bytes b []) blocks @ [r]) ds = Inr (Returned False, ds')"
    by (simp add: scan_disk_def comp_def)
  with loop(2,4) show thesis by (intro that) (simp_all add: disk_inv_def)
qed

end

section \<open>Properties\<close>

text \<open>
  C7. A whole scan. A disk whose blocks are all blocks the scanner understands is scanned to its
  end (or to a read error) without a fault, and the catalog is then the effect of the blocks
  in their order on the empty catalog, whatever the database held before. \<open>scan\<close> returns
  false, as it always does.
\<close>
theorem scan_records_disk:
  assumes "sql_store db ents exts good" and "db_inv ents exts good d" and "m_scanners ds0 = []"
    and "disk_open db d fd ds0 = (ok, ds)"
    and "list_all2 (\<lambda>b f. b \<noteq> [] \<and> clean_block 4096 b f) blocks fs"
    and "r = Read_Error \<or> (\<exists>rest. r = Read_Bytes [] rest)"
  shows "\<exists>ds'. scan_disk db (map (\<lambda>b. Read_Bytes b []) blocks @ [r]) ds = Inr (Returned False, ds') \<and>
    fs_inv ents exts good (m_fileSystem ds') \<and>
    catalog_of ents exts (m_database (m_fileSystem ds')) = fold (\<lambda>f c. f c) fs Map.empty"
proof -
  have "disk_inv ents exts good (Not_Called, ds)"
    using sql_store.disk_open_inv [OF assms(1-3), of fd] assms(4) by simp
  moreover have "length (m_scanners ds) = 1" using assms(3,4) by (auto simp: disk_open_def)
  ultimately obtain ds' where "scan_disk db (map (\<lambda>b. Read_Bytes b []) blocks @ [r]) ds = Inr (Returned False, ds')"
    "fs_inv ents exts good (m_fileSystem ds')"
    "catalog_of ents exts (m_database (m_fileSystem ds')) = fold (\<lambda>f c. f c) fs Map.empty"
    by (rule sql_store.scan_disk_spec [OF assms(1) _ _ assms(5,6)])
  then show ?thesis by blast
qed

definition ex_disk :: "tables disk_scanner" where
  "ex_disk = new_DiskScanner 0 ex_fs"

theorem scan_records_disk_witness:
  "\<exists>ds'. scan_disk mem_db (map (\<lambda>b. Read_Bytes b []) [replicate 4096 0, ex_block] @ [Read_Bytes [] []])
       (snd (disk_open mem_db ex_tables 3 ex_disk)) = Inr (Returned False, ds') \<and>
     catalog_of mem_ents mem_exts (m_database (m_fileSystem ds')) =
     [16 \<mapsto> (\<lparr>row_inode = 16, row_parent = 2, row_version = 7, row_type = 8, row_name = [97],
       row_length = 5, row_extver = 7\<rparr>, {#(0, 40, 4096)#})]"
proof -
  have "ex_block \<noteq> []" using length_ex_block(3) by fastforce
  then have blocks: "list_all2 (\<lambda>b f. b \<noteq> [] \<and> clean_block 4096 b f) [replicate 4096 0, ex_block]
      [(\<lambda>c. c), spec_node 7 ex_items]"
    using ex_zero_clean ex_block_clean by simp
  have s: "m_scanners ex_disk = []" by (simp add: ex_disk_def)
  have o: "disk_open mem_db ex_tables 3 ex_disk = (True, snd (disk_open mem_db ex_tables 3 ex_disk))"
    by (simp add: disk_open_def)
  have r: "Read_Bytes [] [] = Read_Error \<or> (\<exists>rest. Read_Bytes [] [] = Read_Bytes [] rest)" by simp
  show ?thesis
    using scan_records_disk [OF mem.sql_store_axioms ex_db_inv s o blocks r] by (auto simp: ex_node_spec)
qed

text \<open>
  C8. Safety of the scan. From the opened state, whatever the interleaving of the call, of signals, of read errors
  and of iterations whose block the scanner understands (\<open>clean_event\<close>: the block is no valid object,
  a node in bounds, a superblock of the same block size, or of a type that is ignored), the
  state keeps the invariant: no
  step faults, the file system agrees with its database, the position is a multiple of the
  block size, and a call that has returned has returned false. Other blocks can make the scan fault:
  \<open>superblock_sets_block_size\<close> and \<open>key_outside_block_faults\<close> say which.
\<close>
theorem scan_safe:
  assumes "sql_store db ents exts good" and "db_inv ents exts good d" and "m_scanners ds0 = []"
    and "runs db clean_event (Not_Called, snd (disk_open db d fd ds0)) s" and "clean_event ev"
  shows "disk_inv ents exts good s \<and> (\<exists>s'. disk_step db ev s = Inr s' \<and> disk_inv ents exts good s')"
proof -
  have "disk_inv ents exts good s"
    by (rule sql_store.runs_inv [OF assms(1,4) sql_store.disk_open_inv [OF assms(1-3)]])
  then show ?thesis using sql_store.disk_step_safe [OF assms(1) _ assms(5)] by blast
qed

theorem scan_safe_witness:
  "\<exists>s. disk_step mem_db (Iterate (Read_Bytes ex_block []))
       (At_Loop 0, (snd (disk_open mem_db ex_tables 3 ex_disk))\<lparr>
          m_fileSystem := clear mem_db (init mem_db ex_tables), m_running := True\<rparr>) = Inr s \<and>
     disk_inv mem_ents mem_exts mem_good s"
proof -
  let ?ds = "snd (disk_open mem_db ex_tables 3 ex_disk)"
  let ?ds' = "?ds\<lparr>m_fileSystem := clear mem_db (init mem_db ex_tables), m_running := True\<rparr>"
  have "disk_step mem_db Call_Scan (Not_Called, ?ds) = Inr (At_Loop 0, ?ds')"
    by (simp add: disk_open_def)
  then have r: "runs mem_db clean_event (Not_Called, ?ds) (At_Loop 0, ?ds')"
    by (intro runs.step [OF runs.start, of clean_event Call_Scan]) simp_all
  have s: "m_scanners ex_disk = []" by (simp add: ex_disk_def)
  have e: "clean_event (Iterate (Read_Bytes ex_block []))" using ex_block_clean by auto
  from scan_safe [OF mem.sql_store_axioms ex_db_inv s r e] show ?thesis by blast
qed

text \<open>
  Stopping. Once \<open>stop\<close> has been called during a scan, the next iteration returns without
  reading or recording anything. But a stop before the scan is lost: \<open>scan\<close> sets the flag
  again when it starts.
\<close>
lemma stop_ends_scan:
  "for_each (disk_step db) [Call_Stop, Iterate r] (At_Loop pos, ds) = Inr (Returned False, stop ds) \<and>
   m_fileSystem (stop ds) = m_fileSystem ds \<and>
   for_each (disk_step db) [Call_Stop, Call_Scan] (Not_Called, ds) = disk_step db Call_Scan (Not_Called, ds)"
  by (simp add: stop_def)

text \<open>
  Short reads. What \<open>read\<close> returns is not passed on: after a short read the whole array of
  4096 bytes is scanned, with whatever it holds behind the bytes that were read, exactly as if
  all of it had been on the disk.
\<close>
lemma short_read_scanned_as_block:
  assumes "bs \<noteq> []"
  shows "disk_step db (Iterate (Read_Bytes bs rest)) (At_Loop pos, ds) =
    disk_step db (Iterate (Read_Bytes (bs @ rest) [])) (At_Loop pos, ds)"
  using assms by (simp add: scan_body_def)

lemma short_read_scanned_as_block_witness:
  "\<exists>ds'. disk_step mem_db (Iterate (Read_Bytes (take 1 ex_block) (drop 1 ex_block)))
       (At_Loop 0, (snd (disk_open mem_db no_tables 3 ex_disk))\<lparr>m_running := True\<rparr>) = Inr (At_Loop 4096, ds') \<and>
     catalog_of mem_ents mem_exts (m_database (m_fileSystem ds')) 16 \<noteq> None"
proof -
  let ?ds = "(snd (disk_open mem_db no_tables 3 ex_disk))\<lparr>m_running := True\<rparr>"
  have ne: "ex_block \<noteq> []" using length_ex_block(3) by fastforce
  have fs: "m_fileSystem ?ds = init mem_db no_tables" "m_scanners ?ds = [new_scanner]" "m_running ?ds"
    by (simp_all add: disk_open_def ex_disk_def)
  have inv: "fs_inv mem_ents mem_exts mem_good (m_fileSystem ?ds)"
    "\<forall>sc \<in> set (m_scanners ?ds). m_currentBlockSize sc = 4096"
    unfolding fs using ex_empty_inv by (simp_all add: new_scanner_def)
  have clean: "clean_block 4096 (ex_block @ []) (spec_node 7 ex_items)" using ex_block_clean by simp
  from mem.scan_body_clean [OF inv ne clean, of 0] obtain ds' where
    s: "scan_body mem_db (Read_Bytes ex_block []) 0 ?ds = Inr (True, 0 + 4096, ds')"
    "catalog_of mem_ents mem_exts (m_database (m_fileSystem ds')) =
      (spec_node 7 ex_items ^^ length (m_scanners ?ds)) (catalog_of mem_ents mem_exts (m_database (m_fileSystem ?ds)))" .
  have "catalog_of mem_ents mem_exts (m_database (m_fileSystem ds')) 16 \<noteq> None"
    unfolding s(2) fs by (simp add: ex_node_spec)
  moreover have "disk_step mem_db (Iterate (Read_Bytes ex_block [])) (At_Loop 0, ?ds) = Inr (At_Loop 4096, ds')"
    using s(1) fs(3) by simp
  moreover have "take 1 ex_block \<noteq> []" using ne by simp
  ultimately show ?thesis
    using short_read_scanned_as_block [of "take 1 ex_block" mem_db "drop 1 ex_block" 0 ?ds]
    by (metis append_take_drop_id)
qed

end
