(* ===== verification/Filehunter.thy ===== *)
theory Filehunter
  imports Disk_Theorems
begin

text \<open>
  The program \<open>src/filehunter/main.cpp\<close>: it scans an image into a database and prints the tree
  it has recovered, while the handler of \<open>SIGINT\<close> stops the scan. The command line, what
  \<open>::open\<close> returns for the image and the database that lies under the given path are
  parameters, and so is the order of iterations and signals.
\<close>

section \<open>The program\<close>

text \<open>\<open>g_fileHunter\<close>, which is null until the scanner has been made.\<close>

definition signalHandler :: "'d disk_scanner option \<Rightarrow> 'd disk_scanner option" where
  "signalHandler g_fileHunter = (case g_fileHunter of None \<Rightarrow> None | Some ds \<Rightarrow> Some (stop ds))"

text \<open>
  \<open>main\<close>: \<open>raw\<close> is the object as its constructor leaves it, with no scanner yet and everything
  else indeterminate. The result is the exit status, the lines printed and the database left
  on the disk. None is a program that has not returned: the events do not take \<open>scan\<close> to its
  return, or the fuel does not suffice for the tree. What \<open>open\<close> and \<open>scan\<close> return is ignored.
\<close>

definition filehunter_main ::
  "('d, 'r) database \<Rightarrow> (cpp_string \<Rightarrow> int) \<Rightarrow> (cpp_string \<Rightarrow> 'd) \<Rightarrow> 'd disk_scanner \<Rightarrow> nat
     \<Rightarrow> scan_event list \<Rightarrow> cpp_string list \<Rightarrow> (int \<times> tree_line list \<times> 'd option) res option" where
  "filehunter_main db open_disk open_db raw fuel events argv =
     (if length argv < 3 then Some (Inr (- 1, [], None))
      else
        (let image = argv ! 1; dbPath = argv ! 2;
             (_, ds) = disk_open db (open_db dbPath) (open_disk image) raw
         in case for_each (disk_step db) events (Not_Called, ds) of
              Inl f \<Rightarrow> Some (Inl f)
            | Inr (Returned _, ds) \<Rightarrow>
                (case dumpTree fuel db (m_fileSystem ds) of
                   None \<Rightarrow> None
                 | Some (Inl f) \<Rightarrow> Some (Inl f)
                 | Some (Inr (ls, fs)) \<Rightarrow> Some (Inr (0, ls, Some (m_database fs))))
            | Inr _ \<Rightarrow> None))"

text \<open>The event \<open>Call_Stop\<close> is the handler at work; before there is a scanner it does nothing.\<close>

lemma signal_is_stop:
  "disk_step db Call_Stop (pc, ds) = Inr (pc, the (signalHandler (Some ds)))" "signalHandler None = None"
  by (simp_all add: signalHandler_def)

text \<open>How a scan ends: at the end of the disk, at a read error, or at a signal.\<close>

inductive scan_end :: "scan_event list \<Rightarrow> bool" where
  end_of_disk: "scan_end [Iterate (Read_Bytes [] rest)]"
| read_error: "scan_end [Iterate Read_Error]"
| signal: "scan_end [Call_Stop, Iterate r]"

text \<open>Once \<open>scan\<close> has returned, no event changes the file system or the returned value.\<close>

lemma events_after_return:
  "\<exists>ds'. for_each (disk_step db) events (Returned b, ds) = Inr (Returned b, ds') \<and>
     m_fileSystem ds' = m_fileSystem ds"
proof (induction events arbitrary: ds)
  case (Cons ev events)
  have "\<exists>ds'. disk_step db ev (Returned b, ds) = Inr (Returned b, ds') \<and> m_fileSystem ds' = m_fileSystem ds"
    by (cases ev) (simp_all add: stop_def)
  then obtain ds1 where "disk_step db ev (Returned b, ds) = Inr (Returned b, ds1)"
    "m_fileSystem ds1 = m_fileSystem ds" by blast
  with Cons.IH [of ds1] show ?case by simp
qed simp

text \<open>Signals that come while the program waits for the next block, or before the scan.\<close>

lemma signals:
  "\<exists>ds'. for_each (disk_step db) (replicate n Call_Stop) (pc, ds) = Inr (pc, ds') \<and>
     m_fileSystem ds' = m_fileSystem ds \<and> m_scanners ds' = m_scanners ds \<and> m_fd ds' = m_fd ds"
proof (induction n arbitrary: ds)
  case (Suc n)
  from Suc.IH [of "stop ds"] show ?case by (simp add: stop_def)
qed simp

context sql_store
begin

text \<open>The rest of \<open>main\<close> when the scan has returned.\<close>

lemma main_after_scan:
  assumes "\<not> length argv < 3"
    and "for_each (disk_step db) events
      (Not_Called, snd (disk_open db (open_db (argv ! 2)) (open_disk (argv ! 1)) raw)) = Inr (Returned b, ds)"
    and inv: "fs_inv ents exts good (m_fileSystem ds)"
    and c: "catalog_of ents exts (m_database (m_fileSystem ds)) = c"
    and fuel: "\<not> runs_out c fuel 2"
  obtains ls d where
    "filehunter_main db open_disk open_db raw fuel events argv = Some (Inr (0, ls, Some d))"
    "catalog_of ents exts d = c" "prints_tree c ls" "db_inv ents exts good d"
proof -
  from fuel have "dumpTree fuel db (m_fileSystem ds) \<noteq> None" by (simp add: dumpTree_None [OF inv] c)
  moreover have "dump_ok (prints_tree c) (m_fileSystem ds) (dumpTree fuel db (m_fileSystem ds))"
    using dumpTree_ok [OF inv] by (simp add: c)
  ultimately obtain ls fs where t: "dumpTree fuel db (m_fileSystem ds) = Some (Inr (ls, fs))" "prints_tree c ls"
    "fs_inv ents exts good fs" "extends (m_fileSystem ds) fs"
    by (metis dump_okE)
  have "filehunter_main db open_disk open_db raw fuel events argv = Some (Inr (0, ls, Some (m_database fs)))"
    using assms(1,2) t(1) by (simp add: filehunter_main_def Let_def split_beta)
  moreover have "catalog_of ents exts (m_database fs) = c" using t(4) c by (simp add: extends_def)
  moreover have "db_inv ents exts good (m_database fs)" using t(3) by (simp add: fs_inv_but_def)
  ultimately show thesis using t(2) by (intro that)
qed

text \<open>A scan that a signal ends as well as one that reaches the end of the disk.\<close>

lemma scan_until_end:
  assumes "db_inv ents exts good d" "m_scanners raw = []"
    and blocks: "list_all2 (\<lambda>b f. b \<noteq> [] \<and> clean_block 4096 b f) blocks fs" and "scan_end ending"
  obtains ds where "for_each (disk_step db) (Call_Scan # map (\<lambda>b. Iterate (Read_Bytes b [])) blocks @ ending)
      (Not_Called, snd (disk_open db d fd raw)) = Inr (Returned False, ds)"
    "fs_inv ents exts good (m_fileSystem ds)"
    "catalog_of ents exts (m_database (m_fileSystem ds)) = fold (\<lambda>f c. f c) fs Map.empty"
proof -
  have "length (m_scanners (snd (disk_open db d fd raw))) = 1" using assms(2) by (simp add: disk_open_def)
  from scan_iterations [OF disk_open_inv [OF assms(1,2)] this blocks] obtain pos ds where
    loop: "for_each (disk_step db) (Call_Scan # map (\<lambda>b. Iterate (Read_Bytes b [])) blocks)
      (Not_Called, snd (disk_open db d fd raw)) = Inr (At_Loop pos, ds)"
    "disk_inv ents exts good (At_Loop pos, ds)" "m_running ds"
    "catalog_of ents exts (m_database (m_fileSystem ds)) = fold (\<lambda>f c. f c) fs Map.empty" .
  from assms(4) obtain ds' where last: "for_each (disk_step db) ending (At_Loop pos, ds) = Inr (Returned False, ds')"
    "m_fileSystem ds' = m_fileSystem ds"
    using loop(3) by cases (auto simp: scan_body_def stop_def)
  have "for_each (disk_step db) ((Call_Scan # map (\<lambda>b. Iterate (Read_Bytes b [])) blocks) @ ending)
      (Not_Called, snd (disk_open db d fd raw)) = Inr (Returned False, ds')"
    unfolding for_each_append loop(1) using last(1) by simp
  with loop(2,4) last(2) show thesis by (intro that [of ds']) (simp_all add: disk_inv_def)
qed

lemma main_recovers:
  assumes "db_inv ents exts good (open_db (argv ! 2))" "m_scanners raw = []" "2 < length argv"
    and "list_all2 (\<lambda>b f. b \<noteq> [] \<and> clean_block 4096 b f) blocks fs" "scan_end ending"
    and "fold (\<lambda>f c. f c) fs Map.empty = c"
    and "\<not> runs_out c fuel 2"
  obtains ls d where "filehunter_main db open_disk open_db raw fuel
      (Call_Scan # map (\<lambda>b. Iterate (Read_Bytes b [])) blocks @ ending) argv = Some (Inr (0, ls, Some d))"
    "catalog_of ents exts d = c" "prints_tree c ls" "db_inv ents exts good d"
proof -
  from scan_until_end [OF assms(1,2,4,5)] obtain ds where
    scan: "for_each (disk_step db) (Call_Scan # map (\<lambda>b. Iterate (Read_Bytes b [])) blocks @ ending)
      (Not_Called, snd (disk_open db (open_db (argv ! 2)) (open_disk (argv ! 1)) raw)) = Inr (Returned False, ds)"
    "fs_inv ents exts good (m_fileSystem ds)"
    "catalog_of ents exts (m_database (m_fileSystem ds)) = c" unfolding assms(6) .
  have "\<not> length argv < 3" using assms(3) by simp
  from main_after_scan [where open_db = open_db and open_disk = open_disk and argv = argv
      and c = c, OF this scan assms(7)] that show thesis by blast
qed

text \<open>A scan that cannot read anything.\<close>

lemma scan_unreadable:
  assumes "db_inv ents exts good d" "m_scanners raw = []"
  obtains ds where "for_each (disk_step db)
      (replicate m Call_Stop @ Call_Scan # replicate n Call_Stop @ Iterate Read_Error # rest)
      (Not_Called, snd (disk_open db d fd raw)) = Inr (Returned False, ds)"
    "fs_inv ents exts good (m_fileSystem ds)"
    "catalog_of ents exts (m_database (m_fileSystem ds)) = Map.empty"
proof -
  let ?ds = "snd (disk_open db d fd raw)"
  note inv = disk_open_inv [OF assms, of fd]
  have fs: "fs_inv ents exts good (m_fileSystem ?ds)" "m_diskEntries (m_fileSystem ?ds) = []"
    using inv by (simp_all add: disk_inv_def)
  from signals [of db m Not_Called ?ds] obtain ds1 where
    d1: "for_each (disk_step db) (replicate m Call_Stop) (Not_Called, ?ds) = Inr (Not_Called, ds1)"
      "m_fileSystem ds1 = m_fileSystem ?ds" by blast
  let ?ds2 = "ds1\<lparr>m_fileSystem := clear db (m_fileSystem ds1), m_running := True\<rparr>"
  from signals [of db n "At_Loop 0" ?ds2] obtain ds3 where
    d3: "for_each (disk_step db) (replicate n Call_Stop) (At_Loop 0, ?ds2) = Inr (At_Loop 0, ds3)"
      "m_fileSystem ds3 = clear db (m_fileSystem ?ds)" using d1(2) by auto
  have d4: "disk_step db (Iterate Read_Error) (At_Loop 0, ds3) = Inr (Returned False, ds3)"
    by (simp add: scan_body_def)
  from events_after_return [of db rest False ds3] obtain ds where
    d5: "for_each (disk_step db) rest (Returned False, ds3) = Inr (Returned False, ds)"
      "m_fileSystem ds = m_fileSystem ds3" by blast
  have "for_each (disk_step db)
      (replicate m Call_Stop @ Call_Scan # replicate n Call_Stop @ Iterate Read_Error # rest)
      (Not_Called, ?ds) = Inr (Returned False, ds)"
    using d1(1) d3(1) d4 d5(1) by (simp add: for_each_append)
  then show thesis
    using clear_inv [OF fs] d3(2) d5(2) by (intro that [of ds]) simp_all
qed

end

section \<open>Properties\<close>

text \<open>
  C15. The whole program. Called with an image and a database, on an image whose blocks the
  scanner understands, up to the end of the disk, a read error or the signal that ends the scan,
  \<open>filehunter\<close> returns 0; whatever the database held, it then holds the effect of the blocks
  that were read, in their order, on the empty catalog, and what the program has printed is the
  tree of that catalog. The recovered directories must form a tree, and the fuel exceed its
  height.
\<close>
theorem filehunter_recovers:
  assumes "sql_store db ents exts good" and "db_inv ents exts good (open_db (argv ! 2))"
    and "m_scanners raw = []" and "2 < length argv"
    and "list_all2 (\<lambda>b f. b \<noteq> [] \<and> clean_block 4096 b f) blocks fs" and "scan_end ending"
    and "\<And>i j. child_of (fold (\<lambda>f c. f c) fs Map.empty) i j \<Longrightarrow> rank j < (rank i :: nat)"
    and "rank 2 < fuel"
  shows "\<exists>ls d. filehunter_main db open_disk open_db raw fuel
      (Call_Scan # map (\<lambda>b. Iterate (Read_Bytes b [])) blocks @ ending) argv = Some (Inr (0, ls, Some d)) \<and>
    catalog_of ents exts d = fold (\<lambda>f c. f c) fs Map.empty \<and>
    prints_tree (fold (\<lambda>f c. f c) fs Map.empty) ls \<and> db_inv ents exts good d"
proof -
  obtain ls d where "filehunter_main db open_disk open_db raw fuel
      (Call_Scan # map (\<lambda>b. Iterate (Read_Bytes b [])) blocks @ ending) argv = Some (Inr (0, ls, Some d))"
    "catalog_of ents exts d = fold (\<lambda>f c. f c) fs Map.empty"
    "prints_tree (fold (\<lambda>f c. f c) fs Map.empty) ls" "db_inv ents exts good d"
    by (rule sql_store.main_recovers [where open_db = open_db and open_disk = open_disk,
      OF assms(1-6) refl runs_out_ranked [where rank = rank, OF assms(7,8)]])
  then show ?thesis by blast
qed

theorem filehunter_recovers_witness:
  "\<exists>d. filehunter_main mem_db (\<lambda>_. 3) (\<lambda>_. ex_tables) ex_disk 2
       [Call_Scan, Iterate (Read_Bytes (replicate 4096 0) []), Iterate (Read_Bytes ex_block []), Call_Stop, Iterate Read_Error]
       [[102], [105], [100]] = Some (Inr (0, [TitleLine, NotFoundLine 0 2], Some d)) \<and>
     catalog_of mem_ents mem_exts d 16 = Some (\<lparr>row_inode = 16, row_parent = 2, row_version = 7, row_type = 8,
       row_name = [97], row_length = 5, row_extver = 7\<rparr>, {#(0, 40, 4096)#})"
proof -
  let ?fs = "[(\<lambda>c. c), spec_node 7 ex_items]"
  have "ex_block \<noteq> []" using length_ex_block(3) by fastforce
  then have blocks: "list_all2 (\<lambda>b f. b \<noteq> [] \<and> clean_block 4096 b f) [replicate 4096 0, ex_block] ?fs"
    using ex_zero_clean ex_block_clean by simp
  have d: "db_inv mem_ents mem_exts mem_good ((\<lambda>_. ex_tables) ([[102], [105], [100]] ! 2))"
    using ex_db_inv by simp
  have n: "m_scanners ex_disk = []" "2 < length [[102], [105], [100 :: u8]]" by (simp_all add: ex_disk_def)
  have fold: "fold (\<lambda>f c. f c) ?fs Map.empty = [16 \<mapsto> (\<lparr>row_inode = 16, row_parent = 2, row_version = 7,
      row_type = 8, row_name = [97], row_length = 5, row_extver = 7\<rparr>, {#(0, 40, 4096)#})]"
    by (simp add: ex_node_spec)
  define rank :: "u64 \<Rightarrow> nat" where "rank = (\<lambda>i. if i = 2 then 1 else 0)"
  have rank: "rank j < rank i" if "child_of (fold (\<lambda>f c. f c) ?fs Map.empty) i j" for i j
    using that unfolding fold by (auto simp: child_of_def rank_def split: if_splits)
  have fuel: "rank 2 < 2" by (simp add: rank_def)
  have p: "ls = [TitleLine, NotFoundLine 0 2]" if "prints_tree (fold (\<lambda>f c. f c) ?fs Map.empty) ls" for ls
    using that unfolding fold by (auto elim!: prints_treeE elim: printsE)
  from filehunter_recovers [where open_db = "\<lambda>_. ex_tables" and open_disk = "\<lambda>_. 3" and rank = rank
      and argv = "[[102], [105], [100]]" and fs = ?fs,
      OF mem.sql_store_axioms d n blocks scan_end.signal [of Read_Error] rank fuel]
  show ?thesis using p fold by auto
qed

text \<open>
  C34. When the image cannot be opened. \<open>main\<close> ignores what \<open>open\<close> returns, so the scan starts, and
  it clears the database before it reads; as every read from the invalid descriptor fails, the
  program prints that there is no root, returns 0, and all that the database held is lost.
\<close>
theorem filehunter_failed_open:
  assumes "sql_store db ents exts good" and "db_inv ents exts good (open_db (argv ! 2))"
    and "m_scanners raw = []" and "2 < length argv" and "0 < fuel"
  shows "fst (disk_open db (open_db (argv ! 2)) (- 1) raw) = False \<and>
    (\<exists>d. filehunter_main db (\<lambda>_. - 1) open_db raw fuel
       (replicate m Call_Stop @ Call_Scan # replicate n Call_Stop @ Iterate Read_Error # rest) argv =
         Some (Inr (0, [TitleLine, NotFoundLine 0 2], Some d)) \<and> catalog_of ents exts d = Map.empty)"
proof
  from sql_store.scan_unreadable [OF assms(1,2,3)] obtain ds where
    scan: "for_each (disk_step db)
        (replicate m Call_Stop @ Call_Scan # replicate n Call_Stop @ Iterate Read_Error # rest)
        (Not_Called, snd (disk_open db (open_db (argv ! 2)) ((\<lambda>_. - 1) (argv ! 1)) raw)) = Inr (Returned False, ds)"
      "fs_inv ents exts good (m_fileSystem ds)"
      "catalog_of ents exts (m_database (m_fileSystem ds)) = Map.empty" by metis
  have args: "\<not> length argv < 3" using assms(4) by simp
  have fuel: "\<not> runs_out Map.empty fuel 2" using assms(5) by (cases fuel) simp_all
  obtain ls d where
    "filehunter_main db (\<lambda>_. - 1) open_db raw fuel
       (replicate m Call_Stop @ Call_Scan # replicate n Call_Stop @ Iterate Read_Error # rest) argv = Some (Inr (0, ls, Some d))"
    "catalog_of ents exts d = Map.empty" "prints_tree Map.empty ls"
    by (rule sql_store.main_after_scan [where open_db = open_db and open_disk = "\<lambda>_. - 1" and argv = argv
      and c = Map.empty, OF assms(1) args scan fuel])
  then show "\<exists>d. filehunter_main db (\<lambda>_. - 1) open_db raw fuel
       (replicate m Call_Stop @ Call_Scan # replicate n Call_Stop @ Iterate Read_Error # rest) argv =
         Some (Inr (0, [TitleLine, NotFoundLine 0 2], Some d)) \<and> catalog_of ents exts d = Map.empty"
    by (auto elim!: prints_treeE elim: printsE)
qed (simp add: disk_open_def)

theorem filehunter_failed_open_witness:
  "\<exists>d. filehunter_main mem_db (\<lambda>_. - 1) (\<lambda>_. ex_tables) ex_disk 1 [Call_Scan, Iterate Read_Error]
       [[102], [105], [100]] = Some (Inr (0, [TitleLine, NotFoundLine 0 2], Some d)) \<and>
     catalog_of mem_ents mem_exts ex_tables 16 \<noteq> None \<and> catalog_of mem_ents mem_exts d 16 = None"
proof -
  have d: "db_inv mem_ents mem_exts mem_good ((\<lambda>_. ex_tables) ([[102], [105], [100]] ! 2))"
    using ex_db_inv by simp
  have n: "m_scanners ex_disk = []" "2 < length [[102], [105], [100 :: u8]]" "0 < (1 :: nat)"
    by (simp_all add: ex_disk_def)
  from filehunter_failed_open [where open_db = "\<lambda>_. ex_tables" and argv = "[[102], [105], [100]]", OF mem.sql_store_axioms d n, of 0 0 "[]"] show ?thesis
    by (auto simp: ex_catalog)
qed

end
