(* ===== verification/File_Read.thy ===== *)
theory File_Read
  imports File_System_Theorems
begin

text \<open>
  \<open>FileSystem::read\<close> of \<open>src/libsbb/filesystem.cpp\<close>: the whole file is assembled from its
  extents in a heap buffer, and the requested range is copied out of it. The buffer of
  \<open>new uint8_t[n]\<close> is uninitialised, which the model keeps visible: a byte of the buffer is
  \<open>None\<close> until it is written. \<open>pread\<close> on the disk image is a parameter (its file descriptor is
  fixed): \<open>pread off n\<close> is \<open>None\<close> for an error, otherwise the bytes it has read. What the code
  relies on is stated as two locales: a device returns at most what it is asked for
  (\<open>pread_device\<close>), and a device with a readable image returns the bytes of the image
  (\<open>image_device\<close>).
\<close>

section \<open>The code\<close>

type_synonym file_buffer = "u8 option list"

text \<open>The kernel stores the bytes it has read at \<open>fileBuffer + k\<close>.\<close>

definition put_bytes :: "file_buffer \<Rightarrow> nat \<Rightarrow> u8 list \<Rightarrow> file_buffer res" where
  "put_bytes buf k bs =
     (if k + length bs \<le> length buf then Inr (take k buf @ map Some bs @ drop (k + length bs) buf)
      else Inl OutOfBounds)"

text \<open>
  The address of an extent in the image. The start of the container is the constant of the
  code, not the offset the scanner has found.
\<close>

definition image_offset :: "EntryExtent \<Rightarrow> u64" where
  "image_offset x = 0xc805000 + physicalBlock x * 4096"

text \<open>
  The loop over the extents: \<open>readLen\<close> is an \<open>int\<close>, so the smaller of the two lengths is cut
  to 32 bits and extended with its sign when it is passed to \<open>pread\<close> as a \<open>size_t\<close>. The
  result \<open>None\<close> is the early \<open>return 0\<close>.
\<close>

fun read_loop ::
  "(u64 \<Rightarrow> u64 \<Rightarrow> u8 list option) \<Rightarrow> EntryExtent list \<Rightarrow> u64 \<Rightarrow> file_buffer
     \<Rightarrow> file_buffer option res" where
  "read_loop pread [] remaining fileBuffer = Inr (Some fileBuffer)"
| "read_loop pread (x # xs) remaining fileBuffer =
     (let readLen = (ucast (if extent_length x < remaining then extent_length x else remaining) :: u32)
      in case pread (image_offset x) (scast readLen) of
           None \<Rightarrow> Inr None
         | Some bs \<Rightarrow>
             if bs = [] then Inr None
             else and_then (put_bytes fileBuffer (unat (logicalAddress x)) bs)
                    (read_loop pread xs (remaining - of_nat (length bs))))"

definition copy_out ::
  "file_buffer \<Rightarrow> u64 \<Rightarrow> u64 \<Rightarrow> u64 \<Rightarrow> (u64 \<times> file_buffer) res" where
  "copy_out fileBuffer len offset sz =
     (if offset < len
      then let sz = (if offset + sz > len then len - offset else sz)
           in if unat offset + unat sz \<le> length fileBuffer
              then Inr (sz, take (unat sz) (drop (unat offset) fileBuffer))
              else Inl OutOfBounds
      else Inr (0, []))"

text \<open>
  \<open>std::sort\<close> orders the extents of the object in place by \<open>compareOffsets\<close>; \<open>sort_key\<close> is one order
  it may choose, the only one when no two extents have the same logical address.
\<close>

definition compareOffsets :: "EntryExtent \<Rightarrow> EntryExtent \<Rightarrow> bool" where
  "compareOffsets e1 e2 \<longleftrightarrow> logicalAddress e1 < logicalAddress e2"

definition sorts :: "EntryExtent list \<Rightarrow> EntryExtent list \<Rightarrow> bool" where
  "sorts xs ys \<longleftrightarrow> mset ys = mset xs \<and> sorted_wrt (\<lambda>x y. \<not> compareOffsets y x) ys"

definition read ::
  "(u64 \<Rightarrow> u64 \<Rightarrow> u8 list option) \<Rightarrow> nat \<Rightarrow> u64 \<Rightarrow> u64 \<Rightarrow> 'd filesystem
     \<Rightarrow> ((u64 \<times> file_buffer) \<times> 'd filesystem) res" where
  "read pread entry offset sz fs =
     and_then (deref fs entry) (\<lambda>e.
       let xs = sort_key logicalAddress (extents e);
           fs = store entry (e\<lparr>extents := xs\<rparr>) fs;
           fileBuffer = replicate (unat (entry_length e)) None
       in and_then (read_loop pread xs (entry_length e) fileBuffer) (\<lambda>r.
            case r of
              None \<Rightarrow> Inr ((0, []), fs)
            | Some fileBuffer \<Rightarrow>
                and_then (copy_out fileBuffer (entry_length e) offset sz) (\<lambda>res. Inr (res, fs))))"

lemma read_at:
  "heap fs p = Some e \<Longrightarrow> read pread p offset sz fs =
     and_then (read_loop pread (sort_key logicalAddress (extents e)) (entry_length e)
         (replicate (unat (entry_length e)) None)) (\<lambda>r.
       case r of
         None \<Rightarrow> Inr ((0, []), store p (e\<lparr>extents := sort_key logicalAddress (extents e)\<rparr>) fs)
       | Some fileBuffer \<Rightarrow>
           and_then (copy_out fileBuffer (entry_length e) offset sz)
             (\<lambda>res. Inr (res, store p (e\<lparr>extents := sort_key logicalAddress (extents e)\<rparr>) fs)))"
  by (simp add: read_def deref_def Let_def)

lemma sorts_sort_key: "sorts xs (sort_key logicalAddress xs)"
proof -
  have "sorted_wrt (\<lambda>x y. logicalAddress x \<le> logicalAddress y) (sort_key logicalAddress xs)"
    using sorted_sort_key [of logicalAddress xs] by (simp only: sorted_wrt_map)
  then show ?thesis by (simp add: sorts_def compareOffsets_def not_less)
qed

lemma sort_unique:
  assumes "distinct (map logicalAddress xs)" "sorts xs ys"
  shows "ys = sort_key logicalAddress xs"
proof (rule properties_for_sort_key [symmetric])
  have m: "mset ys = mset xs" using assms(2) by (simp add: sorts_def)
  show "sorted (map logicalAddress ys)" using assms(2) by (simp add: sorted_wrt_map sorts_def compareOffsets_def not_less)
  fix k assume k: "k \<in> set ys"
  have d: "distinct (map logicalAddress ys)"
    using assms(1) m by (metis mset_map mset_eq_imp_distinct_iff)
  have one: "filter (\<lambda>x. logicalAddress k = logicalAddress x) zs = [k]"
    if "distinct (map logicalAddress zs)" "k \<in> set zs" for zs
    using that by (induction zs) (auto simp: filter_empty_conv image_iff)
  from k m have "k \<in> set xs" by (metis set_mset_mset)
  with one [OF d k] one [OF assms(1)]
  show "filter (\<lambda>x. logicalAddress k = logicalAddress x) ys = filter (\<lambda>x. logicalAddress k = logicalAddress x) xs"
    by simp
qed (use assms(2) in \<open>simp add: sorts_def\<close>)

lemma sint_small:
  assumes "unat (n :: u64) < 2 ^ 31"
  shows "sint (ucast n :: u32) = int (unat n)"
proof -
  have "unat (ucast n :: u32) = unat n"
    using assms by (simp add: unsigned_ucast_eq take_bit_nat_eq_self)
  then have u: "uint (ucast n :: u32) = int (unat n)" by (simp only: uint_nat)
  have b: "int (unat n) < 2 ^ 31"
    using assms by (simp only: of_nat_less_numeral_power_cancel_iff)
  have z: "- (2 ^ 31) \<le> int (unat n)" by (rule order_trans [OF _ of_nat_0_le_iff]) simp
  have "signed_take_bit 31 (int (unat n)) = int (unat n)" using z b by (rule signed_take_bit_int_eq_self)
  then show ?thesis unfolding sint_uint u by simp
qed

section \<open>Devices\<close>

locale pread_device =
  fixes pread :: "u64 \<Rightarrow> u64 \<Rightarrow> u8 list option"
  assumes at_most: "pread off n = Some bs \<Longrightarrow> length bs \<le> unat n"

locale image_device = pread_device +
  fixes img :: "u8 list"
  assumes reads: "unat off + unat n \<le> length img \<Longrightarrow> unat off < 2 ^ 63 \<Longrightarrow> unat n < 2 ^ 63 \<Longrightarrow>
    pread off n = Some (take (unat n) (drop (unat off) img))"

text \<open>The device of a regular file with the bytes \<open>img\<close>: negative offsets and counts are errors.\<close>

definition image_pread :: "u8 list \<Rightarrow> u64 \<Rightarrow> u64 \<Rightarrow> u8 list option" where
  "image_pread img off n =
     (if 2 ^ 63 \<le> unat off \<or> 2 ^ 63 \<le> unat n then None
      else Some (take (unat n) (drop (unat off) img)))"

interpretation image: image_device "image_pread img" img for img
  by unfold_locales (auto simp: image_pread_def split: if_splits)

section \<open>What a file holds\<close>

definition extent_bytes :: "u8 list \<Rightarrow> EntryExtent \<Rightarrow> u8 list" where
  "extent_bytes img x = take (unat (extent_length x)) (drop (unat (image_offset x)) img)"

text \<open>An extent the image has, of a length that fits an \<open>int\<close>.\<close>

definition readable :: "u8 list \<Rightarrow> EntryExtent \<Rightarrow> bool" where
  "readable img x \<longleftrightarrow> 0 < unat (extent_length x) \<and> unat (extent_length x) < 2 ^ 31 \<and>
     unat (image_offset x) < 2 ^ 63 \<and> unat (image_offset x) + unat (extent_length x) \<le> length img"

text \<open>Extents that follow each other without a hole, from the logical address \<open>a\<close>.\<close>

fun contiguous :: "nat \<Rightarrow> EntryExtent list \<Rightarrow> bool" where
  "contiguous a [] = True"
| "contiguous a (x # xs) =
     (unat (logicalAddress x) = a \<and> contiguous (a + unat (extent_length x)) xs)"

text \<open>
  A file of length \<open>n\<close> whose extents lie without a hole in the image, cover the length, and
  all start before its end.
\<close>

definition well_mapped :: "u8 list \<Rightarrow> nat \<Rightarrow> EntryExtent list \<Rightarrow> bool" where
  "well_mapped img n xs \<longleftrightarrow> contiguous 0 xs \<and>
     n \<le> (\<Sum>x\<leftarrow>xs. unat (extent_length x)) \<and>
     (\<forall>x \<in> set xs. readable img x \<and> unat (logicalAddress x) < n)"

definition file_content :: "u8 list \<Rightarrow> nat \<Rightarrow> EntryExtent list \<Rightarrow> u8 list" where
  "file_content img n xs = take n (concat (map (extent_bytes img) xs))"

lemma contiguous_cons_first:
  "contiguous a (x # xs) \<Longrightarrow> unat (logicalAddress x) = a" by simp

lemma length_extent_bytes: "readable img x \<Longrightarrow> length (extent_bytes img x) = unat (extent_length x)"
  unfolding extent_bytes_def readable_def by simp linarith

section \<open>The loop\<close>

lemma narrow_small:
  assumes "unat (w :: u64) < 2 ^ 31"
  shows "scast (ucast w :: u32) = w"
proof -
  have "take_bit 31 w = w"
    using assms by (intro word_unat_eq_iff [THEN iffD2]) (simp add: unsigned_take_bit_eq take_bit_nat_eq_self)
  then have high: "bit w k \<longleftrightarrow> k < 31 \<and> bit w k" for k by (metis bit_take_bit_iff)
  show ?thesis
  proof (rule bit_word_eqI)
    fix k assume "k < LENGTH(64)"
    then show "bit (scast (ucast w :: u32) :: u64) k = bit w k"
      using high [of k] high [of 31] by (auto simp: bit_signed_iff bit_ucast_iff min_def)
  qed
qed

lemma put_bytes_at_end:
  assumes "length pre = k" "length bs \<le> m"
  shows "put_bytes (map Some pre @ replicate m None) k bs =
    Inr (map Some (pre @ bs) @ replicate (m - length bs) None)"
  using assms by (simp add: put_bytes_def)

lemma put_bytes_length: "put_bytes buf k bs = Inr buf' \<Longrightarrow> length buf' = length buf"
  by (auto simp: put_bytes_def split: if_splits)

lemma read_loop_length: "read_loop pread xs remaining buf = Inr (Some buf') \<Longrightarrow> length buf' = length buf"
  by (induction pread xs remaining buf rule: read_loop.induct)
    (auto simp: Let_def and_then_eq_Inr put_bytes_length split: option.splits if_splits)

context image_device
begin

lemma pread_extent:
  assumes "readable img x" "0 < m" and n: "n = (if extent_length x < m then extent_length x else m)"
  shows "pread (image_offset x) (scast (ucast n :: u32)) =
      Some (take (unat m) (extent_bytes img x))" and "take (unat m) (extent_bytes img x) \<noteq> []"
proof -
  have le: "unat n \<le> unat (extent_length x)" "unat n = min (unat (extent_length x)) (unat m)"
    by (auto simp: n word_less_nat_alt)
  from assms(1) have "unat (extent_length x) < 2 ^ 31" by (simp add: readable_def)
  with le(1) have "unat n < 2 ^ 31" by (rule order_le_less_trans)
  then have "scast (ucast n :: u32) = n" by (rule narrow_small)
  moreover have "pread (image_offset x) n = Some (take (unat n) (drop (unat (image_offset x)) img))"
    using assms(1) le(1) by (intro reads) (auto simp: readable_def)
  moreover have "take (unat n) (drop (unat (image_offset x)) img) = take (unat m) (extent_bytes img x)"
    unfolding extent_bytes_def le(2) by (simp add: min.commute)
  ultimately show "pread (image_offset x) (scast (ucast n :: u32)) =
      Some (take (unat m) (extent_bytes img x))" by simp
  show "take (unat m) (extent_bytes img x) \<noteq> []"
    using assms(1,2) length_extent_bytes [OF assms(1)] by (auto simp: readable_def word_less_nat_alt)
qed

lemma read_loop_contiguous:
  assumes "contiguous (length pre) xs" "length pre \<le> unat n"
    "unat n \<le> length pre + (\<Sum>x\<leftarrow>xs. unat (extent_length x))"
    "\<forall>x \<in> set xs. readable img x \<and> unat (logicalAddress x) < unat n"
  shows "read_loop pread (xs @ ys) (n - of_nat (length pre))
      (map Some pre @ replicate (unat n - length pre) None) =
    read_loop pread ys 0 (map Some (take (unat n) (pre @ concat (map (extent_bytes img) xs))))"
  using assms
proof (induction xs arbitrary: pre)
  case (Cons x xs)
  let ?a = "length pre" and ?m = "n - of_nat (length pre) :: u64"
  let ?bs = "take (unat ?m) (extent_bytes img x)"
  have x: "readable img x" "unat (logicalAddress x) = ?a" "?a < unat n" using Cons.prems(1,4) by auto
  have len: "length (extent_bytes img x) = unat (extent_length x)" by (rule length_extent_bytes [OF x(1)])
  have a: "unat (of_nat ?a :: u64) = ?a"
    using x(3) unat_u64_bound [of n] by (intro of_nat_inverse) simp_all
  then have m: "unat ?m = unat n - ?a"
    using x(3) by (subst unat_sub) (simp_all add: word_le_nat_alt)
  then have "0 < ?m" using x(3) by (simp add: word_less_nat_alt)
  note pread = pread_extent [OF x(1) this refl]
  have bs: "length ?bs = min (unat (extent_length x)) (unat n - ?a)" by (simp add: len m min.commute)
  have put: "put_bytes (map Some pre @ replicate (unat n - ?a) None) (unat (logicalAddress x)) ?bs =
      Inr (map Some (pre @ ?bs) @ replicate (unat n - ?a - length ?bs) None)"
    using x(2) bs by (intro put_bytes_at_end) simp_all
  have step: "read_loop pread ((x # xs) @ ys) ?m (map Some pre @ replicate (unat n - ?a) None) =
      read_loop pread (xs @ ys) (n - of_nat (length (pre @ ?bs)))
        (map Some (pre @ ?bs) @ replicate (unat n - length (pre @ ?bs)) None)"
    using pread put by (simp add: Let_def diff_diff_eq add.commute)
  show ?case
  proof (cases "unat (extent_length x) \<le> unat n - ?a")
    case True
    then have whole: "?bs = extent_bytes img x" using len m by simp
    have "read_loop pread (xs @ ys) (n - of_nat (length (pre @ ?bs)))
        (map Some (pre @ ?bs) @ replicate (unat n - length (pre @ ?bs)) None) =
      read_loop pread ys 0 (map Some (take (unat n) ((pre @ ?bs) @ concat (map (extent_bytes img) xs))))"
      using Cons.prems x(3) True len by (intro Cons.IH) (auto simp: whole)
    then show ?thesis using step whole by simp
  next
    case False
    have "xs = []"
    proof (cases xs)
      case (Cons y zs)
      with Cons.prems(1,4) False show ?thesis by auto
    qed simp
    have l: "length (pre @ ?bs) = unat n" using bs False x(3) by simp
    have all: "pre @ ?bs = take (unat n) (pre @ concat (map (extent_bytes img) (x # xs)))"
      using \<open>xs = []\<close> x(3) m by simp
    from step have "read_loop pread ((x # xs) @ ys) ?m (map Some pre @ replicate (unat n - ?a) None) =
        read_loop pread ys 0 (map Some (pre @ ?bs))"
      unfolding l by (simp add: \<open>xs = []\<close>)
    then show ?thesis unfolding all .
  qed
next
  case Nil
  then have len: "length pre = unat n" by simp
  show ?case unfolding len by simp (simp flip: len)
qed

text \<open>The whole buffer of a well-mapped file is its content.\<close>

lemma read_loop_file:
  assumes "well_mapped img (unat n) xs"
  shows "read_loop pread (xs @ ys) n (replicate (unat n) None) =
    read_loop pread ys 0 (map Some (file_content img (unat n) xs))"
  using read_loop_contiguous [of "[]" xs n ys] assms by (simp add: well_mapped_def file_content_def)

text \<open>A read of nothing ends the loop.\<close>

lemma read_loop_stops:
  assumes "(ucast (if extent_length x < n then extent_length x else n) :: u32) = 0"
  shows "read_loop pread (x # xs) n buf = Inr None"
proof (cases "pread (image_offset x) 0")
  case None
  with assms show ?thesis by (simp add: Let_def)
next
  case (Some bs)
  with at_most [OF this] assms show ?thesis by (simp add: Let_def)
qed

text \<open>Two extents with a hole between them: the second is stored beyond the buffer.\<close>

lemma read_loop_hole:
  assumes "readable img x" "readable img y" "unat (logicalAddress x) = 0"
    and "unat (extent_length x) < unat n" "unat n < unat (logicalAddress y) +
      min (unat (extent_length y)) (unat n - unat (extent_length x))"
  shows "read_loop pread [x, y] n (replicate (unat n) None) = Inl OutOfBounds"
proof -
  let ?b = "extent_bytes img x" and ?m = "n - extent_length x"
  have m: "unat ?m = unat n - unat (extent_length x)"
    using assms(4) by (subst unat_sub) (simp_all add: word_le_nat_alt)
  have x: "length ?b = unat (extent_length x)" "take (unat n) ?b = ?b"
    using length_extent_bytes [OF assms(1)] assms(4) by simp_all
  have y: "length (extent_bytes img y) = unat (extent_length y)" by (rule length_extent_bytes [OF assms(2)])
  have "0 < n" "0 < ?m" using assms(4) m by (simp_all add: word_less_nat_alt)
  note px = pread_extent [OF assms(1) \<open>0 < n\<close> refl, unfolded x(2)]
    and py = pread_extent [OF assms(2) \<open>0 < ?m\<close> refl]
  have "put_bytes (replicate (unat n) None) (unat (logicalAddress x)) ?b =
      Inr (map Some ?b @ replicate (unat n - unat (extent_length x)) None)"
    using put_bytes_at_end [of "[]" 0 ?b "unat n"] x assms(3,4) by simp
  moreover have "put_bytes (map Some ?b @ replicate (unat n - unat (extent_length x)) None)
      (unat (logicalAddress y)) (take (unat ?m) (extent_bytes img y)) = Inl OutOfBounds"
    using assms(4,5) x y m by (simp add: put_bytes_def min.commute)
  ultimately show ?thesis using px py x(1) by (simp add: Let_def)
qed

end

lemma sum_extent_bytes:
  "\<forall>x \<in> set xs. readable img x \<Longrightarrow>
     length (concat (map (extent_bytes img) xs)) = (\<Sum>x\<leftarrow>xs. unat (extent_length x))"
  by (induction xs) (simp_all add: length_extent_bytes)

lemma length_file_content: "well_mapped img n xs \<Longrightarrow> length (file_content img n xs) = n"
  using sum_extent_bytes [of xs img] by (simp add: well_mapped_def file_content_def)

text \<open>A contiguous list is in the order \<open>std::sort\<close> gives, so sorting does not disturb it.\<close>

lemma contiguous_sorted: "contiguous a xs \<Longrightarrow> sorted (map (\<lambda>x. unat (logicalAddress x)) xs) \<and>
    (\<forall>x \<in> set xs. a \<le> unat (logicalAddress x))"
  by (induction xs arbitrary: a) force+

lemma copy_out_cut:
  assumes "length buf = unat len" "unat len \<le> unat offset \<or> unat offset + unat sz < 2 ^ 64"
  shows "\<exists>n. copy_out buf len offset sz = Inr (n, take (unat n) (drop (unat offset) buf)) \<and>
    unat n = min (unat sz) (unat len - unat offset)"
proof (cases "offset < len")
  case True
  then have o: "unat offset < unat len" "unat (len - offset) = unat len - unat offset"
    by (simp_all add: word_less_nat_alt unat_sub word_le_nat_alt)
  with assms(2) have "unat (offset + sz) = unat offset + unat sz"
    by (intro unat_add_lem [THEN iffD1]) simp
  then have over: "offset + sz > len \<longleftrightarrow> unat len < unat offset + unat sz" by (simp add: word_less_nat_alt)
  show ?thesis
  proof (cases "offset + sz > len")
    case True
    with over have "unat len - unat offset \<le> unat sz" by linarith
    with True \<open>offset < len\<close> o assms(1) show ?thesis by (simp add: copy_out_def Let_def)
  next
    case False
    with over have "unat offset + unat sz \<le> unat len" "unat sz \<le> unat len - unat offset" by linarith+
    with False \<open>offset < len\<close> assms(1) show ?thesis by (simp add: copy_out_def Let_def)
  qed
qed (simp add: copy_out_def word_less_nat_alt)

text \<open>When the sum wraps, it is less than the offset, and the size stays.\<close>

lemma copy_out_wrapped:
  assumes "length buf = unat len" "unat offset < unat len" "2 ^ 64 \<le> unat offset + unat sz"
  shows "copy_out buf len offset sz = Inl OutOfBounds"
proof -
  have "unat (offset + sz) < unat offset"
    using assms(3) unat_bound [of sz] unat_bound [of offset] by (simp add: unat_word_ariths mod_if) linarith
  with assms(2) have "\<not> offset + sz > len" "offset < len" by (simp_all add: word_less_nat_alt)
  moreover have "\<not> unat offset + unat sz \<le> unat len" using assms(3) unat_bound [of len] by simp
  ultimately show ?thesis using assms(1) by (simp add: copy_out_def)
qed

lemma copy_out_content:
  assumes "length c = unat len" "unat offset + unat sz < 2 ^ 64"
  shows "copy_out (map Some c) len offset sz =
    Inr (if offset < len then min sz (len - offset) else 0,
         map Some (take (unat sz) (drop (unat offset) c)))"
proof (cases "offset < len")
  case True
  then have o: "unat offset < unat len" "unat (len - offset) = unat len - unat offset"
    by (simp_all add: word_less_nat_alt unat_sub word_le_nat_alt)
  have s: "unat (offset + sz) = unat offset + unat sz"
    using assms(2) by (intro unat_add_lem [THEN iffD1]) simp
  show ?thesis
  proof (cases "offset + sz > len")
    case True
    then have "unat len < unat offset + unat sz" using s by (simp add: word_less_nat_alt)
    then have le: "unat len - unat offset \<le> unat sz" using o by linarith
    then have "min sz (len - offset) = len - offset"
      using o by (intro min_absorb2) (simp add: word_le_nat_alt)
    then show ?thesis using True le \<open>offset < len\<close> o assms(1) by (simp add: copy_out_def Let_def take_map drop_map)
  next
    case False
    then have "unat offset + unat sz \<le> unat len" using s by (simp add: word_less_nat_alt)
    then have "unat offset + unat sz \<le> unat len" "unat sz \<le> unat len - unat offset" by linarith+
    then have "min sz (len - offset) = sz" using o by (intro min_absorb1) (simp add: word_le_nat_alt)
    then show ?thesis using False \<open>offset < len\<close> o assms(1) \<open>unat offset + unat sz \<le> unat len\<close>
      by (simp add: copy_out_def Let_def take_map drop_map)
  qed
next
  case False
  then have "unat len \<le> unat offset" by (simp add: word_less_nat_alt)
  with False assms(1) show ?thesis by (simp add: copy_out_def)
qed

lemma read_range:
  assumes "image_device pread img" and "heap fs p = Some e"
    and "well_mapped img (unat (entry_length e)) (sort_key logicalAddress (extents e))"
    and "unat offset + unat sz < 2 ^ 64"
  shows "\<exists>n fs'. read pread p offset sz fs = Inr ((n, map Some (take (unat sz) (drop (unat offset)
      (file_content img (unat (entry_length e)) (sort_key logicalAddress (extents e)))))), fs') \<and>
    unat n = min (unat sz) (unat (entry_length e) - unat offset)"
proof -
  let ?n = "entry_length e" and ?xs = "sort_key logicalAddress (extents e)"
  let ?c = "file_content img (unat ?n) ?xs"
  have loop: "read_loop pread ?xs ?n (replicate (unat ?n) None) = Inr (Some (map Some ?c))"
    using image_device.read_loop_file [OF assms(1,3), of "[]"] by simp
  note copy = copy_out_content [OF length_file_content [OF assms(3)] assms(4)]
  have "unat (if offset < ?n then min sz (?n - offset) else 0) = min (unat sz) (unat ?n - unat offset)"
    by (auto simp: word_less_nat_alt min_def word_le_nat_alt unat_sub)
  with loop copy show ?thesis by (simp add: read_at [OF assms(2)])
qed

text \<open>Of a file without extents the buffer is handed out as it was allocated.\<close>

lemma read_nothing:
  assumes "heap fs p = Some e" "extents e = []" "unat offset + unat sz < 2 ^ 64"
  shows "\<exists>n. read pread p offset sz fs = Inr ((n, replicate (unat n) None), fs) \<and>
    unat n = min (unat sz) (unat (entry_length e) - unat offset)"
proof -
  let ?len = "entry_length e"
  have same: "store p (e\<lparr>extents := []\<rparr>) fs = fs"
  proof -
    have "e\<lparr>extents := []\<rparr> = e" using assms(2) by (cases e) simp
    then show ?thesis using assms(1) by (simp add: fun_upd_idem)
  qed
  obtain n where n: "copy_out (replicate (unat ?len) None) ?len offset sz =
      Inr (n, take (unat n) (drop (unat offset) (replicate (unat ?len) None)))"
    "unat n = min (unat sz) (unat ?len - unat offset)"
    using copy_out_cut [of "replicate (unat ?len) None" ?len offset sz] assms(3) by auto
  then have "take (unat n) (drop (unat offset) (replicate (unat ?len) None)) = replicate (unat n) None"
    by (simp add: min_def)
  with n show ?thesis by (simp add: read_at [OF assms(1)] assms(2) same)
qed

text \<open>A read changes the order of the extents of the object, and nothing else.\<close>

lemma read_state:
  assumes "heap fs p = Some e" and "read pread p offset sz fs = Inr (r, fs')"
  shows "fs' = store p (e\<lparr>extents := sort_key logicalAddress (extents e)\<rparr>) fs"
  using assms by (auto simp: read_at and_then_eq_Inr split: option.splits)

lemma fs_inv_sort_extents:
  assumes "fs_inv E X good fs" "heap fs p = Some e"
  shows "fs_inv E X good (store p (e\<lparr>extents := sort_key logicalAddress (extents e)\<rparr>) fs)"
  by (rule fs_inv_replace [OF assms]) (simp_all add: abs_entry_def abs_extents_def row_of_def settled_def mset_map)

section \<open>Extents of a file, as a set\<close>

text \<open>
  The database keeps no order of the extents, and none is needed: a well-mapped file has at
  most one order in which its extents follow each other.
\<close>

lemma contiguous_increasing:
  "contiguous a xs \<Longrightarrow> \<forall>x \<in> set xs. 0 < unat (extent_length x) \<Longrightarrow>
     sorted_wrt (<) (map (\<lambda>x. unat (logicalAddress x)) xs) \<and> (\<forall>x \<in> set xs. a \<le> unat (logicalAddress x))"
  by (induction xs arbitrary: a) force+

lemma well_mapped_sort:
  assumes "well_mapped img n xs" "mset ys = mset xs"
  shows "sort_key logicalAddress ys = xs"
proof -
  have inc: "sorted_wrt (<) (map (\<lambda>x. unat (logicalAddress x)) xs)"
    using assms(1) contiguous_increasing [of 0 xs] by (simp add: well_mapped_def readable_def)
  then have "sorted_wrt (\<lambda>x y. logicalAddress x \<le> logicalAddress y) xs"
    unfolding sorted_wrt_map by (rule sorted_wrt_mono_rel [rotated]) (simp add: word_le_nat_alt)
  moreover have "distinct (map (\<lambda>x. unat (logicalAddress x)) xs)"
    using inc by (simp add: strict_sorted_iff)
  then have "distinct (map unat (map logicalAddress xs))" by (simp add: comp_def)
  then have "distinct (map logicalAddress xs)" by (simp only: distinct_map)
  then have "distinct (map logicalAddress ys)"
    using assms(2) by (metis mset_map mset_eq_imp_distinct_iff)
  ultimately show ?thesis using sort_unique [of ys xs] assms(2)
    by (simp add: sorts_def compareOffsets_def not_less)
qed

text \<open>The object of an entry of the catalog holds its extents, in some order.\<close>

lemma stored_file:
  assumes "abs_entry e = (row, exs)" "mset (map row_of_extent xs) = exs" "well_mapped img n xs"
  shows "entry_length e = row_length row" and "sort_key logicalAddress (extents e) = xs"
proof -
  have e: "row_of e = row" "abs_extents e = exs" using assms(1) by (simp_all add: abs_entry_def)
  then show "entry_length e = row_length row" by (auto simp: row_of_def)
  from e(2) assms(2) have "mset (map row_of_extent (extents e)) = mset (map row_of_extent xs)"
    by (simp add: abs_extents_def)
  then have "mset (extents e) = mset xs"
    by (simp add: inj_eq [OF multiset.inj_map [OF inj_row_of_extent]])
  then show "sort_key logicalAddress (extents e) = xs" by (rule well_mapped_sort [OF assms(3)])
qed

section \<open>Properties\<close>

text \<open>
  C13. Reading a file. When the extents of the entry lie without a hole in a readable image and
  cover its length, \<open>read\<close> copies out the requested range of the file's content, cut at the
  end of the file, and returns its length (0 beyond the end).
\<close>
theorem read_returns_content:
  assumes "image_device pread img" and "heap fs p = Some e"
    and "well_mapped img (unat (entry_length e)) (sort_key logicalAddress (extents e))"
    and "unat offset + unat sz < 2 ^ 64"
  shows "\<exists>n fs'. read pread p offset sz fs = Inr ((n, map Some (take (unat sz) (drop (unat offset)
      (file_content img (unat (entry_length e)) (sort_key logicalAddress (extents e)))))), fs') \<and>
    unat n = min (unat sz) (unat (entry_length e) - unat offset)"
  by (rule read_range [OF assms])

definition ex_extent :: EntryExtent where
  "ex_extent = \<lparr>logicalAddress = 0, physicalBlock = 0, extent_length = 8\<rparr>"

definition ex_image :: "u8 list" where
  "ex_image = replicate (unat (image_offset ex_extent)) 0 @ [1, 2, 3, 4, 5, 6, 7, 8]"

definition ex_open :: "EntryExtent list \<Rightarrow> u64 \<Rightarrow> tables filesystem" where
  "ex_open xs n = snd (alloc (new_Entry\<lparr>entry_length := n, extents := xs\<rparr>) ex_fs)"

lemma ex_open_heap: "heap (ex_open xs n) 0 = Some (new_Entry\<lparr>entry_length := n, extents := xs\<rparr>)"
  by (simp add: ex_open_def alloc_def)

lemma ex_offset: "unat (image_offset ex_extent) = 0xc805000"
  by (simp add: image_offset_def ex_extent_def)

lemma ex_readable: "readable ex_image ex_extent"
  using ex_offset by (simp add: readable_def ex_image_def) (simp add: ex_extent_def)

lemma ex_bytes: "extent_bytes ex_image ex_extent = [1, 2, 3, 4, 5, 6, 7, 8]"
  by (simp add: extent_bytes_def ex_image_def) (simp add: ex_extent_def)

lemma ex_well_mapped: "well_mapped ex_image 5 [ex_extent]"
  using ex_readable by (simp add: well_mapped_def) (simp add: ex_extent_def)

theorem read_returns_content_witness:
  "\<exists>n fs'. read (image_pread ex_image) 0 1 9 (ex_open [ex_extent] 5) =
     Inr ((n, map Some [2, 3, 4, 5]), fs') \<and> unat n = 4"
proof -
  let ?e = "new_Entry\<lparr>entry_length := 5, extents := [ex_extent]\<rparr>"
  have w: "well_mapped ex_image (unat (entry_length ?e)) (sort_key logicalAddress (extents ?e))"
    using ex_well_mapped by simp
  from read_returns_content [OF image.image_device_axioms ex_open_heap w, of 1 9]
  show ?thesis by (simp add: file_content_def ex_bytes)
qed

text \<open>
  C31. Reads are cut to the file. Whatever the extents have left in the buffer of the file, a read that starts
  before the end of the file hands out exactly the bytes of the buffer from the offset on, as many as
  were asked for or as there are up to the end of the file, whichever is less, and a read that starts
  at the end or behind it hands out none. The one exception: when the sum of offset and size exceeds
  64 bits, it wraps, the size is not cut, and the copy leaves the buffer.
\<close>
theorem read_within_bounds:
  assumes "heap fs p = Some e"
    and "read_loop pread (sort_key logicalAddress (extents e)) (entry_length e)
      (replicate (unat (entry_length e)) None) = Inr (Some buf)"
  shows "if unat offset < unat (entry_length e) \<and> 2 ^ 64 \<le> unat offset + unat sz
    then read pread p offset sz fs = Inl OutOfBounds
    else \<exists>n. read pread p offset sz fs = Inr ((n, take (unat n) (drop (unat offset) buf)),
        store p (e\<lparr>extents := sort_key logicalAddress (extents e)\<rparr>) fs) \<and>
      unat n = min (unat sz) (unat (entry_length e) - unat offset)"
proof -
  have len: "length buf = unat (entry_length e)" using read_loop_length [OF assms(2)] by simp
  have "read pread p offset sz fs = and_then (copy_out buf (entry_length e) offset sz)
      (\<lambda>res. Inr (res, store p (e\<lparr>extents := sort_key logicalAddress (extents e)\<rparr>) fs))"
    by (simp add: read_at [OF assms(1)] assms(2))
  then show ?thesis
    using copy_out_wrapped [OF len, of offset sz] copy_out_cut [OF len, of offset sz] by force
qed

theorem read_within_bounds_witness:
  "\<exists>n. read (image_pread ex_image) 0 3 9 (ex_open [ex_extent] 5) =
     Inr ((n, [Some 4, Some 5]), ex_open [ex_extent] 5) \<and> unat n = 2"
proof -
  let ?e = "new_Entry\<lparr>entry_length := 5, extents := [ex_extent]\<rparr>"
  have same: "store 0 ?e (ex_open [ex_extent] 5) = ex_open [ex_extent] 5"
    using ex_open_heap [of "[ex_extent]" 5] by (simp add: fun_upd_idem)
  have "read_loop (image_pread ex_image) (sort_key logicalAddress (extents ?e)) (entry_length ?e)
      (replicate (unat (entry_length ?e)) None) = Inr (Some (map Some (file_content ex_image 5 [ex_extent])))"
    using image.read_loop_file [of ex_image 5 "[ex_extent]" "[]"] ex_well_mapped by simp
  from read_within_bounds [OF ex_open_heap this, of 3 9] obtain n where
    "read (image_pread ex_image) 0 3 9 (ex_open [ex_extent] 5) =
       Inr ((n, take (unat n) (drop 3 (map Some (file_content ex_image 5 [ex_extent])))), ex_open [ex_extent] 5)"
    "unat n = 2" by (auto simp: same)
  then show ?thesis by (intro exI [of _ n]) (simp add: file_content_def ex_bytes)
qed

text \<open>
  Reading changes nothing but the order of the extents of the entry: the database and all
  other objects stay, and the invariant of the file system is kept.
\<close>
lemma read_keeps_invariant:
  assumes "fs_inv E X good fs" and "heap fs p = Some e" and "read pread p offset sz fs = Inr (r, fs')"
  shows "fs_inv E X good fs' \<and> m_database fs' = m_database fs \<and> m_diskEntries fs' = m_diskEntries fs \<and>
    heap fs' = (heap fs)(p \<mapsto> e\<lparr>extents := sort_key logicalAddress (extents e)\<rparr>)"
  unfolding read_state [OF assms(2,3)] using fs_inv_sort_extents [OF assms(1,2)] by simp

lemma read_keeps_invariant_witness:
  "\<exists>r fs'. read (image_pread ex_image) 0 1 9 (ex_open [ex_extent] 5) = Inr (r, fs') \<and>
     fs_inv mem_ents mem_exts mem_good fs'"
proof -
  have inv: "fs_inv mem_ents mem_exts mem_good (ex_open [ex_extent] 5)"
    using ex_fs_inv by (simp add: ex_open_def alloc_def fs_inv_but_def smap_find_def smap_ok_def)
  have "read_loop (image_pread ex_image) [ex_extent] 5 (replicate 5 None) =
      Inr (Some (map Some (file_content ex_image 5 [ex_extent])))"
    using image.read_loop_file [of ex_image 5 "[ex_extent]" "[]"] ex_well_mapped by simp
  then have "\<exists>r fs'. read (image_pread ex_image) 0 1 9 (ex_open [ex_extent] 5) = Inr (r, fs')"
    using copy_out_content [of "file_content ex_image 5 [ex_extent]" 5 1 9] length_file_content [OF ex_well_mapped]
    by (simp add: read_at [OF ex_open_heap])
  with read_keeps_invariant [OF inv ex_open_heap] show ?thesis by blast
qed

text \<open>
  C40. Sparse files. A file of two extents with a hole between them, whose second extent
  reaches beyond the end of the file by less than the hole accounts for, is stored past the
  end of the buffer: the number of bytes to read is cut by what remains of the length, which
  does not count the hole.
\<close>
theorem read_overflows_on_hole:
  assumes "image_device pread img" and "heap fs p = Some e"
    and "sort_key logicalAddress (extents e) = [x, y]" and "readable img x" and "readable img y"
    and "unat (logicalAddress x) = 0" and "unat (extent_length x) < unat (entry_length e)"
    and "unat (entry_length e) < unat (logicalAddress y) +
      min (unat (extent_length y)) (unat (entry_length e) - unat (extent_length x))"
  shows "read pread p offset sz fs = Inl OutOfBounds"
  using image_device.read_loop_hole [OF assms(1,4,5,6,7,8)] assms(2,3)
  by (simp add: read_at)

theorem read_overflows_on_hole_witness:
  "read (image_pread ex_image) 0 0 1 (ex_open [ex_extent, ex_extent\<lparr>logicalAddress := 16\<rparr>] 20) = Inl OutOfBounds"
proof -
  have r: "readable ex_image (ex_extent\<lparr>logicalAddress := 16\<rparr>)"
    using ex_readable by (simp add: readable_def image_offset_def)
  show ?thesis
    by (rule read_overflows_on_hole [OF image.image_device_axioms ex_open_heap _ ex_readable r])
      (simp_all, simp_all add: ex_extent_def)
qed

text \<open>
  Preallocated extents. When the first extents already hold the whole file and there is one
  more, the loop asks the device for nothing, takes the answer for the end of the image, and
  the read returns no bytes at all.
\<close>
lemma read_fails_on_extra_extent:
  assumes "image_device pread img" and "heap fs p = Some e"
    and "sort_key logicalAddress (extents e) = xs @ y # ys"
    and "well_mapped img (unat (entry_length e)) xs"
  shows "\<exists>fs'. read pread p offset sz fs = Inr ((0, []), fs')"
proof -
  have "read_loop pread (y # ys) 0 buf = Inr None" for buf
    using image_device.read_loop_stops [OF assms(1), of y 0] by simp
  with image_device.read_loop_file [OF assms(1,4), of "y # ys"] assms(2,3) show ?thesis
    by (simp add: read_at)
qed

lemma read_fails_on_extra_extent_witness:
  "\<exists>fs'. read (image_pread ex_image) 0 0 5 (ex_open [ex_extent, ex_extent\<lparr>logicalAddress := 8\<rparr>] 5) = Inr ((0, []), fs')"
proof -
  have "sort_key logicalAddress [ex_extent, ex_extent\<lparr>logicalAddress := 8\<rparr>] =
      [ex_extent] @ ex_extent\<lparr>logicalAddress := 8\<rparr> # []" by (simp add: ex_extent_def)
  then show ?thesis
    by (intro read_fails_on_extra_extent [OF image.image_device_axioms ex_open_heap, where xs = "[ex_extent]"])
      (simp_all add: ex_well_mapped)
qed

text \<open>
  Long extents. An extent whose length is a multiple of 4 GiB (and within the file) is cut
  to a read of zero bytes by the \<open>int\<close>, and the read returns no bytes.
\<close>
lemma read_fails_on_long_extent:
  assumes "image_device pread img" and "heap fs p = Some e"
    and "sort_key logicalAddress (extents e) = x # xs" and "extent_length x \<le> entry_length e"
    and "2 ^ 32 dvd unat (extent_length x)"
  shows "\<exists>fs'. read pread p offset sz fs = Inr ((0, []), fs')"
proof -
  have "unat (ucast (extent_length x) :: u32) = unat (extent_length x) mod 2 ^ 32"
    by (simp add: unsigned_ucast_eq take_bit_eq_mod)
  with assms(5) have z: "(ucast (extent_length x) :: u32) = 0"
    by (simp add: unat_eq_zero dvd_imp_mod_0)
  have "(if extent_length x < entry_length e then extent_length x else entry_length e) = extent_length x"
    using assms(4) by auto
  with z image_device.read_loop_stops [OF assms(1), of x "entry_length e"] assms(2,3) show ?thesis
    by (simp add: read_at)
qed

lemma read_fails_on_long_extent_witness:
  "\<exists>fs'. read (image_pread ex_image) 0 0 5 (ex_open [ex_extent\<lparr>extent_length := 0x100000000\<rparr>] 0x100000000) =
     Inr ((0, []), fs')"
  by (rule read_fails_on_long_extent [OF image.image_device_axioms ex_open_heap,
        where x = "ex_extent\<lparr>extent_length := 0x100000000\<rparr>" and xs = "[]"]) simp_all

text \<open>An image that holds the file of the example catalog.\<close>

definition ex_mapped :: EntryExtent where
  "ex_mapped = \<lparr>logicalAddress = 0, physicalBlock = 40, extent_length = 4096\<rparr>"

definition ex_mapped_image :: "u8 list" where
  "ex_mapped_image = replicate (unat (image_offset ex_mapped)) 0 @ [1, 2, 3, 4, 5, 6] @ replicate 4090 0"

lemma ex_mapped_well: "well_mapped ex_mapped_image 5 [ex_mapped]"
proof -
  have "unat (image_offset ex_mapped) = 0xc82d000" by (simp add: image_offset_def ex_mapped_def)
  then have "readable ex_mapped_image ex_mapped"
    by (simp add: readable_def ex_mapped_image_def) (simp add: ex_mapped_def)
  then show ?thesis by (simp add: well_mapped_def) (simp add: ex_mapped_def)
qed

lemma ex_mapped_content: "file_content ex_mapped_image 5 [ex_mapped] = [1, 2, 3, 4, 5]"
proof -
  have "extent_bytes ex_mapped_image ex_mapped = take 4096 ([1, 2, 3, 4, 5, 6] @ replicate 4090 0)"
    by (simp add: extent_bytes_def ex_mapped_image_def) (simp add: ex_mapped_def)
  then show ?thesis by (simp add: file_content_def)
qed

end
