(* ===== verification/Sbb_Fuse.thy ===== *)
theory Sbb_Fuse
  imports File_Read APFS_Format
begin

text \<open>
  The file-system operations of \<open>src/sbbfuse/main.cpp\<close> on the recovered files: \<open>getattr\<close>,
  \<open>readdir\<close>, \<open>open\<close> and \<open>read\<close>, as FUSE calls them with a path. What an operation hands back
  through its pointers (the \<open>struct stat\<close>, the names given to \<open>filler\<close>, the bytes in \<open>buf\<close>) is
  a part of its result. \<open>splitString\<close> belongs to libgeek and \<open>pread\<close> to the system; both are
  parameters. The constants are those of POSIX on the systems the program runs on.
\<close>

section \<open>The operations\<close>

definition ENOENT :: int where "ENOENT = 2"
definition EACCES :: int where "EACCES = 13"
definition O_ACCMODE :: u32 where "O_ACCMODE = 3"
definition O_RDONLY :: u32 where "O_RDONLY = 0"
definition S_IFREG :: u32 where "S_IFREG = 0x8000"
definition S_IFDIR :: u32 where "S_IFDIR = 0x4000"

record file_stat =
  st_mode :: u32
  st_nlink :: u64
  st_size :: u64

type_synonym splitter = "cpp_string \<Rightarrow> u8 \<Rightarrow> cpp_string list"

text \<open>
  Every operation resolves its path with \<open>findByPath\<close>, under the mutex, and goes on with the entry it
  was given, without it; the second part is a function of its own (\<open>getattr_entry\<close> and so on).
  \<open>0444\<close> and \<open>0755\<close> are octal.
\<close>

definition getattr_entry ::
  "file_stat \<Rightarrow> nat option \<Rightarrow> 'd filesystem \<Rightarrow> ((int \<times> file_stat) \<times> 'd filesystem) res" where
  "getattr_entry stbuf entry fs =
     (case entry of
        None \<Rightarrow> Inr ((- ENOENT, stbuf), fs)
      | Some p \<Rightarrow>
          and_then (deref fs p) (\<lambda>e.
            if entry_type e = ucast DT_REG
            then Inr ((0, stbuf\<lparr>st_mode := S_IFREG OR 0x124, st_nlink := 1, st_size := entry_length e\<rparr>), fs)
            else if entry_type e = ucast DT_DIR
            then Inr ((0, stbuf\<lparr>st_mode := S_IFDIR OR 0x1ed, st_nlink := 2\<rparr>), fs)
            else Inr ((0, stbuf), fs)))"

definition sbb_getattr ::
  "splitter \<Rightarrow> ('d, 'r) database \<Rightarrow> cpp_string \<Rightarrow> file_stat \<Rightarrow> 'd filesystem
     \<Rightarrow> ((int \<times> file_stat) \<times> 'd filesystem) res" where
  "sbb_getattr splitString db path stbuf fs =
     and_then (findByPath splitString db path fs) (\<lambda>(entry, fs). getattr_entry stbuf entry fs)"

text \<open>\<open>c_str()\<close> as a C string: the bytes up to the first zero byte.\<close>

definition c_str :: "cpp_string \<Rightarrow> cpp_string" where
  "c_str s = takeWhile (\<lambda>b. b \<noteq> 0) s"

fun child_names :: "'d filesystem \<Rightarrow> nat list \<Rightarrow> cpp_string list res" where
  "child_names fs [] = Inr []"
| "child_names fs (p # ps) =
     and_then (deref fs p) (\<lambda>child.
     and_then (child_names fs ps) (\<lambda>ns. Inr (c_str (entry_name child) # ns)))"

definition readdir_entry ::
  "('d, 'r) database \<Rightarrow> nat option \<Rightarrow> 'd filesystem \<Rightarrow> ((int \<times> cpp_string list) \<times> 'd filesystem) res" where
  "readdir_entry db entry fs =
     (case entry of
        None \<Rightarrow> Inr ((- ENOENT, []), fs)
      | Some p \<Rightarrow>
          and_then (deref fs p) (\<lambda>e.
            let (children, fs) = findByParentInode db (inode e) fs
            in and_then (child_names fs children) (\<lambda>ns.
                 Inr ((0, [[46], [46, 46]] @ ns), fs))))"

definition sbb_readdir ::
  "splitter \<Rightarrow> ('d, 'r) database \<Rightarrow> cpp_string \<Rightarrow> 'd filesystem
     \<Rightarrow> ((int \<times> cpp_string list) \<times> 'd filesystem) res" where
  "sbb_readdir splitString db path fs =
     and_then (findByPath splitString db path fs) (\<lambda>(entry, fs). readdir_entry db entry fs)"

definition open_entry :: "u32 \<Rightarrow> nat option \<Rightarrow> 'd filesystem \<Rightarrow> (int \<times> 'd filesystem) res" where
  "open_entry flags entry fs =
     (case entry of
        None \<Rightarrow> Inr (- ENOENT, fs)
      | Some p \<Rightarrow> if flags AND O_ACCMODE \<noteq> O_RDONLY then Inr (- EACCES, fs) else Inr (0, fs))"

definition sbb_open ::
  "splitter \<Rightarrow> ('d, 'r) database \<Rightarrow> cpp_string \<Rightarrow> u32 \<Rightarrow> 'd filesystem
     \<Rightarrow> (int \<times> 'd filesystem) res" where
  "sbb_open splitString db path flags fs =
     and_then (findByPath splitString db path fs) (\<lambda>(entry, fs). open_entry flags entry fs)"

text \<open>\<open>read\<close> returns an \<open>ssize_t\<close>, which is cut to the \<open>int\<close> that is returned.\<close>

definition read_entry ::
  "(u64 \<Rightarrow> u64 \<Rightarrow> u8 list option) \<Rightarrow> u64 \<Rightarrow> u64 \<Rightarrow> nat option \<Rightarrow> 'd filesystem
     \<Rightarrow> ((int \<times> file_buffer) \<times> 'd filesystem) res" where
  "read_entry pread sz offset entry fs =
     (case entry of
        None \<Rightarrow> Inr ((- ENOENT, []), fs)
      | Some p \<Rightarrow>
          and_then (read pread p offset sz fs) (\<lambda>((n, bs), fs).
            Inr ((sint (ucast n :: u32), bs), fs)))"

definition sbb_read ::
  "splitter \<Rightarrow> ('d, 'r) database \<Rightarrow> (u64 \<Rightarrow> u64 \<Rightarrow> u8 list option) \<Rightarrow> cpp_string \<Rightarrow> u64 \<Rightarrow> u64
     \<Rightarrow> 'd filesystem \<Rightarrow> ((int \<times> file_buffer) \<times> 'd filesystem) res" where
  "sbb_read splitString db pread path sz offset fs =
     and_then (findByPath splitString db path fs) (\<lambda>(entry, fs). read_entry pread sz offset entry fs)"

section \<open>Resolving a path\<close>

text \<open>A file system to mount: it has a root directory and no two entries of a directory share a name.\<close>

definition mountable :: "catalog \<Rightarrow> bool" where
  "mountable c \<longleftrightarrow> c 2 \<noteq> None \<and> unique_names c"

text \<open>The entry a path leads to.\<close>

definition lookup_path :: "catalog \<Rightarrow> cpp_string list \<Rightarrow> u64 \<Rightarrow> catalog_entry \<Rightarrow> bool" where
  "lookup_path c parts k entry \<longleftrightarrow> path_to c 2 parts k \<and> c k = Some entry"

lemma lookup_path_unique:
  "mountable c \<Longrightarrow> lookup_path c parts k x \<Longrightarrow> lookup_path c parts l y \<Longrightarrow> k = l \<and> x = y"
  unfolding mountable_def lookup_path_def using path_to_functional by fastforce

context sql_store
begin

text \<open>The two outcomes of \<open>findByPath\<close> on a file system that can be mounted.\<close>

lemma findByPath_cases:
  assumes inv: "fs_inv ents exts good fs" and m: "mountable (catalog_of ents exts (m_database fs))"
  obtains (missing) fs' where "findByPath splitString db path fs = Inr (None, fs')" "fs_inv ents exts good fs'"
      "extends fs fs'"
      "\<And>k x. \<not> lookup_path (catalog_of ents exts (m_database fs)) (splitString path 47) k x"
    | (found) p e fs' where "findByPath splitString db path fs = Inr (Some p, fs')" "fs_inv ents exts good fs'"
      "extends fs fs'" "heap fs' p = Some e"
      "lookup_path (catalog_of ents exts (m_database fs)) (splitString path 47) (inode e) (abs_entry e)"
proof -
  let ?c = "catalog_of ents exts (m_database fs)"
  have root: "?c 2 \<noteq> None" and u: "unique_names ?c" using m by (simp_all add: mountable_def)
  obtain q fs' where f: "findByPath splitString db path fs = Inr (q, fs')" "fs_inv ents exts good fs'"
    "extends fs fs'" "resolves ?c 2 (splitString path 47) fs' q"
    by (rule findByPath_spec [OF inv root])
  show thesis
  proof (cases q)
    case None
    with f(4) u have "\<not> lookup_path ?c (splitString path 47) k x" for k x
      by (auto simp: resolves_def lookup_path_def)
    with f None missing show thesis by blast
  next
    case (Some p)
    with f(4) obtain e where "heap fs' p = Some e" "lookup_path ?c (splitString path 47) (inode e) (abs_entry e)"
      by (auto simp: resolves_def lookup_path_def)
    with f Some found show thesis by blast
  qed
qed

lemma child_names_objects:
  "map (heap fs) ps = map Some es \<Longrightarrow> child_names fs ps = Inr (map (\<lambda>e. c_str (entry_name e)) es)"
proof (induction ps arbitrary: es)
  case (Cons p ps)
  then obtain e es' where "es = e # es'" "heap fs p = Some e" "map (heap fs) ps = map Some es'"
    by (cases es) auto
  with Cons.IH show ?case by (simp add: deref_def)
qed simp

end

text \<open>What \<open>getattr\<close> reports of a row.\<close>

definition attr_of :: "entry_row \<Rightarrow> file_stat \<Rightarrow> file_stat" where
  "attr_of r st =
     (if row_type r = 8 then \<lparr>st_mode = 0x8124, st_nlink = 1, st_size = row_length r\<rparr>
      else if row_type r = 4 then st\<lparr>st_mode := 0x41ed, st_nlink := 2\<rparr> else st)"

lemma type_of_row: "row_type (row_of e) = 8 \<longleftrightarrow> entry_type e = 8" "row_type (row_of e) = 4 \<longleftrightarrow> entry_type e = 4"
proof -
  have "entry_type e = ucast (row_type (row_of e))" by (simp add: row_of_def type_round_trip)
  then show "row_type (row_of e) = 8 \<longleftrightarrow> entry_type e = 8" "row_type (row_of e) = 4 \<longleftrightarrow> entry_type e = 4"
    by (auto simp: row_of_def)
qed

lemma attr_of_entry:
  "attr_of (row_of e) st =
     (if entry_type e = ucast DT_REG then st\<lparr>st_mode := S_IFREG OR 0x124, st_nlink := 1, st_size := entry_length e\<rparr>
      else if entry_type e = ucast DT_DIR then st\<lparr>st_mode := S_IFDIR OR 0x1ed, st_nlink := 2\<rparr> else st)"
  by (cases st) (simp add: attr_of_def type_of_row DT_REG_def DT_DIR_def S_IFREG_def S_IFDIR_def, simp add: row_of_def)

context sql_store
begin

text \<open>What each operation does with an entry.\<close>

lemma missing_entry [simp]:
  "getattr_entry st None fs = Inr ((- 2, st), fs)" "readdir_entry db None fs = Inr ((- 2, []), fs)"
  "open_entry flags None fs = Inr (- 2, fs)" "read_entry pread sz offset None fs = Inr ((- 2, []), fs)"
  by (simp_all add: getattr_entry_def readdir_entry_def open_entry_def read_entry_def ENOENT_def)

lemma getattr_at:
  "heap fs p = Some e \<Longrightarrow> getattr_entry st (Some p) fs = Inr ((0, attr_of (row_of e) st), fs)"
  by (simp add: getattr_entry_def deref_def attr_of_entry)

lemma open_at: "open_entry flags (Some p) fs = Inr (if flags AND 3 = 0 then 0 else - 13, fs)"
  by (simp add: open_entry_def EACCES_def O_ACCMODE_def O_RDONLY_def)

lemma readdir_at:
  assumes "fs_inv ents exts good fs" "heap fs p = Some e"
  obtains cs fs' where
    "readdir_entry db (Some p) fs = Inr ((0, [46] # [46, 46] # map (\<lambda>c. c_str (row_name (fst c))) cs), fs')"
    "fs_inv ents exts good fs'" "extends fs fs'" "distinct cs"
    "set cs = {c. \<exists>j. catalog_of ents exts (m_database fs) j = Some c \<and> row_parent (fst c) = inode e}"
proof -
  obtain ps fs2 where ch: "findByParentInode db (inode e) fs = (ps, fs2)" by fastforce
  note spec = findByParentInode_spec [OF assms(1) ch]
  obtain es where es: "map (heap fs2) ps = map Some es" "distinct (map inode es)"
    "abs_entry ` set es = {c. \<exists>j. catalog_of ents exts (m_database fs) j = Some c \<and> row_parent (fst c) = inode e}"
    by (rule children_objects [OF assms(1) ch])
  let ?cs = "map abs_entry es"
  have "map inode es = map (row_inode \<circ> fst) ?cs" by (simp add: abs_entry_def)
  then have "distinct ?cs" using es(2) by (metis distinct_map)
  moreover have "readdir_entry db (Some p) fs =
      Inr ((0, [46] # [46, 46] # map (\<lambda>c. c_str (row_name (fst c))) ?cs), fs2)"
    using assms(2) ch child_names_objects [OF es(1)]
    by (simp add: readdir_entry_def deref_def abs_entry_def row_of_def comp_def)
  moreover have "set ?cs = {c. \<exists>j. catalog_of ents exts (m_database fs) j = Some c \<and> row_parent (fst c) = inode e}"
    using es(3) by simp
  ultimately show thesis using spec(1,2) by (intro that)
qed

text \<open>\<open>read\<close> reorders the extents of the object.\<close>

lemma read_entry_at:
  assumes "fs_inv ents exts good fs" "image_device pread img" "heap fs p = Some e"
    and xs: "mset (map row_of_extent xs) = abs_extents e" "well_mapped img (unat (entry_length e)) xs"
    and "unat offset + unat sz < 2 ^ 64" "unat sz < 2 ^ 31"
  obtains fs' where "read_entry pread sz offset (Some p) fs =
      Inr ((int (min (unat sz) (unat (entry_length e) - unat offset)),
        map Some (take (unat sz) (drop (unat offset) (file_content img (unat (entry_length e)) xs)))), fs')"
    "fs_inv ents exts good fs'" "fs' = store p (e\<lparr>extents := sort_key logicalAddress (extents e)\<rparr>) fs"
proof -
  have row: "row_length (row_of e) = entry_length e" by (simp add: row_of_def)
  have e: "abs_entry e = (row_of e, abs_extents e)" by (simp add: abs_entry_def)
  note sorted = stored_file(2) [OF e xs(1) xs(2) [folded row]]
  have "well_mapped img (unat (entry_length e)) (sort_key logicalAddress (extents e))"
    using xs(2) by (simp add: sorted)
  from read_range [OF assms(2,3) this assms(6)] obtain n fs2 where
    r: "read pread p offset sz fs = Inr ((n, map Some (take (unat sz) (drop (unat offset)
        (file_content img (unat (entry_length e)) xs)))), fs2)"
      "unat n = min (unat sz) (unat (entry_length e) - unat offset)"
    unfolding sorted row by blast
  have "sint (ucast n :: u32) = int (unat n)"
    using r(2) assms(7) by (intro sint_small) simp
  with r have "read_entry pread sz offset (Some p) fs =
      Inr ((int (min (unat sz) (unat (entry_length e) - unat offset)),
        map Some (take (unat sz) (drop (unat offset) (file_content img (unat (entry_length e)) xs)))), fs2)"
    by (simp add: read_entry_def)
  with read_state [OF assms(3) r(1)] fs_inv_sort_extents [OF assms(1,3)] show thesis by (intro that) simp_all
qed

text \<open>The outcomes of each operation.\<close>

lemma getattr_cases:
  assumes "fs_inv ents exts good fs" and "mountable (catalog_of ents exts (m_database fs))"
  obtains (missing) fs' where "sbb_getattr splitString db path st fs = Inr ((- 2, st), fs')"
      "fs_inv ents exts good fs'" "extends fs fs'"
      "\<And>k x. \<not> lookup_path (catalog_of ents exts (m_database fs)) (splitString path 47) k x"
    | (found) k row exs fs' where "sbb_getattr splitString db path st fs = Inr ((0, attr_of row st), fs')"
      "fs_inv ents exts good fs'" "extends fs fs'"
      "lookup_path (catalog_of ents exts (m_database fs)) (splitString path 47) k (row, exs)"
  using assms
proof (cases rule: findByPath_cases [where splitString = splitString and path = path, consumes 2, case_names missing found])
  case (missing fs')
  then show thesis by (intro that(1)) (simp_all add: sbb_getattr_def)
next
  case (found p e fs')
  then show thesis
    by (intro that(2) [of "row_of e" fs' "inode e" "abs_extents e"])
      (simp_all add: sbb_getattr_def getattr_at abs_entry_def)
qed

lemma readdir_cases:
  assumes "fs_inv ents exts good fs" and "mountable (catalog_of ents exts (m_database fs))"
  obtains (missing) fs' where "sbb_readdir splitString db path fs = Inr ((- 2, []), fs')"
      "fs_inv ents exts good fs'" "extends fs fs'"
      "\<And>k x. \<not> lookup_path (catalog_of ents exts (m_database fs)) (splitString path 47) k x"
    | (found) k x cs fs' where
      "sbb_readdir splitString db path fs = Inr ((0, [46] # [46, 46] # map (\<lambda>c. c_str (row_name (fst c))) cs), fs')"
      "fs_inv ents exts good fs'" "extends fs fs'"
      "lookup_path (catalog_of ents exts (m_database fs)) (splitString path 47) k x" "distinct cs"
      "set cs = {c. \<exists>j. catalog_of ents exts (m_database fs) j = Some c \<and> row_parent (fst c) = k}"
  using assms
proof (cases rule: findByPath_cases [where splitString = splitString and path = path, consumes 2, case_names missing found])
  case (missing fs')
  then show thesis by (intro that(1)) (simp_all add: sbb_readdir_def)
next
  case (found p e fs1)
  have d: "m_database fs1 = m_database fs" using found(3) by (simp add: extends_def)
  from readdir_at [OF found(2,4), unfolded d] obtain cs fs2 where
    r: "readdir_entry db (Some p) fs1 = Inr ((0, [46] # [46, 46] # map (\<lambda>c. c_str (row_name (fst c))) cs), fs2)"
      "fs_inv ents exts good fs2" "extends fs1 fs2" "distinct cs"
      "set cs = {c. \<exists>j. catalog_of ents exts (m_database fs) j = Some c \<and> row_parent (fst c) = inode e}" .
  with found(1) have "sbb_readdir splitString db path fs =
      Inr ((0, [46] # [46, 46] # map (\<lambda>c. c_str (row_name (fst c))) cs), fs2)"
    by (simp add: sbb_readdir_def)
  then show thesis
    using r(2) extends_trans [OF found(3) r(3)] found(5) r(4,5) by (rule that(2))
qed

lemma open_cases:
  assumes "fs_inv ents exts good fs" and "mountable (catalog_of ents exts (m_database fs))"
  obtains (missing) fs' where "sbb_open splitString db path flags fs = Inr (- 2, fs')"
      "fs_inv ents exts good fs'" "extends fs fs'"
      "\<And>k x. \<not> lookup_path (catalog_of ents exts (m_database fs)) (splitString path 47) k x"
    | (found) k x fs' where "sbb_open splitString db path flags fs = Inr (if flags AND 3 = 0 then 0 else - 13, fs')"
      "fs_inv ents exts good fs'" "extends fs fs'"
      "lookup_path (catalog_of ents exts (m_database fs)) (splitString path 47) k x"
  using assms
proof (cases rule: findByPath_cases [where splitString = splitString and path = path, consumes 2, case_names missing found])
  case (missing fs')
  then show thesis by (intro that(1)) (simp_all add: sbb_open_def)
next
  case (found p e fs')
  then show thesis by (intro that(2)) (simp_all add: sbb_open_def open_at)
qed

lemma read_cases:
  assumes "fs_inv ents exts good fs" and "mountable (catalog_of ents exts (m_database fs))"
    and "image_device pread img"
    and mapped: "\<And>k row exs. lookup_path (catalog_of ents exts (m_database fs)) (splitString path 47) k (row, exs)
      \<Longrightarrow> mset (map row_of_extent xs) = exs \<and> well_mapped img (unat (row_length row)) xs"
    and "unat offset + unat sz < 2 ^ 64" and "unat sz < 2 ^ 31"
  obtains (missing) fs' where "sbb_read splitString db pread path sz offset fs = Inr ((- 2, []), fs')"
      "fs_inv ents exts good fs'" "m_database fs' = m_database fs"
      "\<And>k x. \<not> lookup_path (catalog_of ents exts (m_database fs)) (splitString path 47) k x"
    | (found) k row exs fs' where "sbb_read splitString db pread path sz offset fs =
        Inr ((int (min (unat sz) (unat (row_length row) - unat offset)),
          map Some (take (unat sz) (drop (unat offset) (file_content img (unat (row_length row)) xs)))), fs')"
      "fs_inv ents exts good fs'" "m_database fs' = m_database fs"
      "lookup_path (catalog_of ents exts (m_database fs)) (splitString path 47) k (row, exs)"
  using assms(1,2)
proof (cases rule: findByPath_cases [where splitString = splitString and path = path, consumes 2, case_names missing found])
  case (missing fs')
  then show thesis by (intro that(1) [of fs']) (simp_all add: sbb_read_def extends_def)
next
  case (found p e fs')
  note f = found(5) [unfolded abs_entry_def]
  have row: "row_length (row_of e) = entry_length e" by (simp add: row_of_def)
  from read_entry_at [OF found(2) assms(3) found(4) conjunct1 [OF mapped [OF f]]
      conjunct2 [OF mapped [OF f], unfolded row] assms(5,6)] obtain fs2 where
    r: "read_entry pread sz offset (Some p) fs' =
      Inr ((int (min (unat sz) (unat (entry_length e) - unat offset)),
        map Some (take (unat sz) (drop (unat offset) (file_content img (unat (entry_length e)) xs)))), fs2)"
    "fs_inv ents exts good fs2" "fs2 = store p (e\<lparr>extents := sort_key logicalAddress (extents e)\<rparr>) fs'" .
  show thesis
    using found(1,3) r f row
    by (intro that(2) [of "row_of e" fs2 "inode e" "abs_extents e"]) (simp_all add: sbb_read_def extends_def)
qed

end

section \<open>Properties\<close>

text \<open>
  \<open>getattr\<close>. On a mountable file system it fails with \<open>ENOENT\<close> exactly for paths that lead
  to no entry; otherwise it returns 0 and reports a regular file with its length and mode 0444,
  a directory with mode 0755, and leaves the buffer as it was for every other type.
\<close>
lemma sbb_getattr_reports_entry:
  assumes "sql_store db ents exts good" and "fs_inv ents exts good fs"
    and "mountable (catalog_of ents exts (m_database fs))"
  shows "\<exists>r fs'. sbb_getattr splitString db path st fs = Inr (r, fs') \<and> fs_inv ents exts good fs' \<and>
    extends fs fs' \<and>
    (if \<exists>k x. lookup_path (catalog_of ents exts (m_database fs)) (splitString path 47) k x
     then \<exists>k row exs. lookup_path (catalog_of ents exts (m_database fs)) (splitString path 47) k (row, exs) \<and>
            r = (0, attr_of row st)
     else r = (- 2, st))"
proof (cases rule: sql_store.getattr_cases [OF assms, of splitString path st, case_names missing found])
  case (missing fs')
  then show ?thesis by simp
next
  case (found k row exs fs')
  then have ex: "\<exists>k x. lookup_path (catalog_of ents exts (m_database fs)) (splitString path 47) k x" by blast
  show ?thesis using found unfolding if_P [OF ex] by blast
qed

lemma ex_mountable: "mountable (catalog_of mem_ents mem_exts (m_database ex_fs))"
  using ex_unique_names by (simp add: mountable_def ex_catalog)

lemma ex_lookup:
  "lookup_path (catalog_of mem_ents mem_exts ex_tables) [[97]] k x \<longleftrightarrow> k = 16 \<and> x = (ex_file, {#(0, 40, 4096)#})"
  unfolding lookup_path_def ex_path by (auto simp: ex_catalog)

lemma ex_lookup_root:
  "lookup_path (catalog_of mem_ents mem_exts ex_tables) [] k x \<longleftrightarrow> k = 2 \<and> x = (ex_root, {#})"
  by (auto simp: lookup_path_def ex_catalog)

lemma sbb_getattr_reports_entry_witness:
  "\<exists>fs'. sbb_getattr ex_split mem_db [47, 97] \<lparr>st_mode = 0, st_nlink = 0, st_size = 0\<rparr> ex_fs =
     Inr ((0, \<lparr>st_mode = 0x8124, st_nlink = 1, st_size = 5\<rparr>), fs')"
proof -
  from sbb_getattr_reports_entry [OF mem.sql_store_axioms ex_fs_inv ex_mountable, of ex_split "[47, 97]"
      "\<lparr>st_mode = 0, st_nlink = 0, st_size = 0\<rparr>"]
  show ?thesis by (auto simp: ex_lookup attr_of_def ex_file_def)
qed

text \<open>
  \<open>readdir\<close>. It lists \<open>.\<close> and \<open>..\<close> and then the names of exactly the entries whose parent
  is the entry the path leads to, each entry once.
\<close>
lemma sbb_readdir_lists_children:
  assumes "sql_store db ents exts good" and "fs_inv ents exts good fs"
    and "mountable (catalog_of ents exts (m_database fs))"
  shows "\<exists>r fs'. sbb_readdir splitString db path fs = Inr (r, fs') \<and> fs_inv ents exts good fs' \<and>
    extends fs fs' \<and>
    (if \<exists>k x. lookup_path (catalog_of ents exts (m_database fs)) (splitString path 47) k x
     then \<exists>k x cs. lookup_path (catalog_of ents exts (m_database fs)) (splitString path 47) k x \<and>
            distinct cs \<and>
            set cs = {c. \<exists>j. catalog_of ents exts (m_database fs) j = Some c \<and> row_parent (fst c) = k} \<and>
            r = (0, [46] # [46, 46] # map (\<lambda>c. c_str (row_name (fst c))) cs)
     else r = (- 2, []))"
proof (cases rule: sql_store.readdir_cases [OF assms, of splitString path, case_names missing found])
  case (missing fs')
  then show ?thesis by simp
next
  case (found k x cs fs')
  then have ex: "\<exists>k x. lookup_path (catalog_of ents exts (m_database fs)) (splitString path 47) k x" by blast
  show ?thesis using found unfolding if_P [OF ex] by blast
qed

lemma ex_children:
  "{c. \<exists>j. catalog_of mem_ents mem_exts ex_tables j = Some c \<and> row_parent (fst c) = 2} =
     {(ex_file, {#(0, 40, 4096)#})}"
  by (auto simp: ex_catalog ex_root_def ex_file_def split: if_splits intro: exI [of _ 16])

lemma sbb_readdir_lists_children_witness:
  "\<exists>fs'. sbb_readdir ex_split mem_db [47] ex_fs = Inr ((0, [[46], [46, 46], [97]]), fs')"
proof -
  have n: "c_str (row_name ex_file) = [97]" by (simp add: ex_file_def c_str_def)
  have ex: "\<exists>k x. lookup_path (catalog_of mem_ents mem_exts ex_tables) (ex_split [47] 47) k x"
    by (simp add: ex_lookup_root)
  from sbb_readdir_lists_children [OF mem.sql_store_axioms ex_fs_inv ex_mountable, of ex_split "[47]",
      unfolded ex_fs_select if_P [OF ex]]
  obtain r fs' k x cs where
    f: "sbb_readdir ex_split mem_db [47] ex_fs = Inr (r, fs')" and
    k: "lookup_path (catalog_of mem_ents mem_exts ex_tables) (ex_split [47] 47) k x" and
    cs: "distinct cs" "set cs = {c. \<exists>j. catalog_of mem_ents mem_exts ex_tables j = Some c \<and> row_parent (fst c) = k}" and
    r: "r = (0, [46] # [46, 46] # map (\<lambda>c. c_str (row_name (fst c))) cs)"
    apply (elim exE conjE)
    subgoal premises p by (rule p(1) [OF p(2,5,6,7,8)])
    done
  from k have "k = 2" by (simp add: ex_lookup_root)
  with cs(2) ex_children have "set cs = {(ex_file, {#(0, 40, 4096)#})}" by simp
  then have "cs = [(ex_file, {#(0, 40, 4096)#})]" using cs(1) by (simp add: distinct_singleton)
  with f r n show ?thesis by simp
qed

text \<open>
  \<open>open\<close>. Opening for reading succeeds exactly for the paths that lead to an entry (of any
  type); any other access mode is refused for them with \<open>EACCES\<close>.
\<close>
lemma sbb_open_read_only:
  assumes "sql_store db ents exts good" and "fs_inv ents exts good fs"
    and "mountable (catalog_of ents exts (m_database fs))"
  shows "\<exists>fs'. sbb_open splitString db path flags fs =
      Inr (if \<exists>k x. lookup_path (catalog_of ents exts (m_database fs)) (splitString path 47) k x
           then if flags AND 3 = 0 then 0 else - 13 else - 2, fs') \<and>
    fs_inv ents exts good fs' \<and> extends fs fs'"
proof (cases rule: sql_store.open_cases [OF assms, of splitString path flags, case_names missing found])
  case (missing fs')
  then show ?thesis by simp
next
  case (found k x fs')
  then have "\<exists>k x. lookup_path (catalog_of ents exts (m_database fs)) (splitString path 47) k x" by blast
  with found show ?thesis by simp
qed

lemma sbb_open_read_only_witness:
  "(\<exists>fs'. sbb_open ex_split mem_db [47, 97] 0 ex_fs = Inr (0, fs')) \<and>
   (\<exists>fs'. sbb_open ex_split mem_db [47, 97] 1 ex_fs = Inr (- 13, fs'))"
  using sbb_open_read_only [OF mem.sql_store_axioms ex_fs_inv ex_mountable, of ex_split "[47, 97]" 0]
    sbb_open_read_only [OF mem.sql_store_axioms ex_fs_inv ex_mountable, of ex_split "[47, 97]" 1]
  by (auto simp: ex_lookup)

text \<open>
  \<open>read\<close>. If the extents the catalog has for the file lie without a hole in a readable
  image and cover its length, then for every path that leads to the file \<open>read\<close> returns the
  requested range of the content of the file, cut at its end.
\<close>
lemma sbb_read_returns_file:
  assumes "sql_store db ents exts good" and "fs_inv ents exts good fs"
    and "mountable (catalog_of ents exts (m_database fs))" and "image_device pread img"
    and "lookup_path (catalog_of ents exts (m_database fs)) (splitString path 47) k (row, exs)"
    and "mset (map row_of_extent xs) = exs" and "well_mapped img (unat (row_length row)) xs"
    and "unat offset + unat sz < 2 ^ 64" and "unat sz < 2 ^ 31"
  shows "\<exists>fs'. sbb_read splitString db pread path sz offset fs =
    Inr ((int (min (unat sz) (unat (row_length row) - unat offset)),
          map Some (take (unat sz) (drop (unat offset) (file_content img (unat (row_length row)) xs)))), fs')"
proof -
  let ?found = "\<lambda>k row exs. lookup_path (catalog_of ents exts (m_database fs)) (splitString path 47) k (row, exs)"
  show ?thesis
  proof (rule sql_store.read_cases [where splitString = splitString and path = path and xs = xs,
        OF assms(1-4) _ assms(8,9)])
    show "mset (map row_of_extent xs) = exs' \<and> well_mapped img (unat (row_length row')) xs"
      if "?found l row' exs'" for l row' exs'
      using lookup_path_unique [OF assms(3,5) that] assms(6,7) by simp
  next
    assume "\<And>k x. \<not> lookup_path (catalog_of ents exts (m_database fs)) (splitString path 47) k x"
    with assms(5) show ?thesis by blast
  next
    fix l row' exs' fs'
    assume "?found l row' exs'" and "sbb_read splitString db pread path sz offset fs =
        Inr ((int (min (unat sz) (unat (row_length row') - unat offset)),
          map Some (take (unat sz) (drop (unat offset) (file_content img (unat (row_length row')) xs)))), fs')"
    with lookup_path_unique [OF assms(3,5)] show ?thesis by fastforce
  qed
qed

lemma sbb_read_returns_file_witness:
  "\<exists>fs'. sbb_read ex_split mem_db (image_pread ex_mapped_image) [47, 97] 9 1 ex_fs =
     Inr ((4, map Some [2, 3, 4, 5]), fs')"
proof -
  have len: "unat (row_length ex_file) = 5" by (simp add: ex_file_def)
  have l: "lookup_path (catalog_of mem_ents mem_exts (m_database ex_fs)) (ex_split [47, 97] 47) 16
      (ex_file, {#(0, 40, 4096)#})"
    by (simp add: ex_lookup)
  have x: "mset (map row_of_extent [ex_mapped]) = {#(0, 40, 4096)#}"
    by (simp add: row_of_extent_def ex_mapped_def)
  have w: "well_mapped ex_mapped_image (unat (row_length ex_file)) [ex_mapped]"
    using ex_mapped_well by (simp only: len)
  have b: "unat (1 :: u64) + unat (9 :: u64) < 2 ^ 64" "unat (9 :: u64) < 2 ^ 31" by simp_all
  from sbb_read_returns_file [where splitString = ex_split and path = "[47, 97]", OF mem.sql_store_axioms ex_fs_inv ex_mountable image.image_device_axioms [of ex_mapped_image] l x w b]
  show ?thesis by (simp add: len ex_mapped_content)
qed

end
