(* ===== verification/Fuse_Session.thy ===== *)
theory Fuse_Session
  imports Sbb_Fuse Disk_Scanner
begin

text \<open>
  A mounted file system as a whole: the table \<open>sbb_oper\<close> of \<open>src/sbbfuse/main.cpp\<close>, by which
  libfuse dispatches the requests of the kernel to the operations, and \<open>main\<close>, which opens the
  scanner on the image and serves requests until it is unmounted. The requests libfuse makes,
  one after the other as with its option \<open>-s\<close>, are a parameter.
\<close>

section \<open>Requests and replies\<close>

datatype fuse_request =
    Getattr_Request cpp_string file_stat
  | Readdir_Request cpp_string
  | Open_Request cpp_string u32
  | Read_Request cpp_string u64 u64

text \<open>The value an operation returns, and what it has put into the buffers it was given.\<close>

datatype fuse_reply =
    Getattr_Reply int file_stat
  | Readdir_Reply int "cpp_string list"
  | Open_Reply int
  | Read_Reply int file_buffer

definition sbb_oper ::
  "splitter \<Rightarrow> ('d, 'r) database \<Rightarrow> (u64 \<Rightarrow> u64 \<Rightarrow> u8 list option) \<Rightarrow> fuse_request
     \<Rightarrow> 'd filesystem \<Rightarrow> (fuse_reply \<times> 'd filesystem) res" where
  "sbb_oper splitString db pread req fs =
     (case req of
        Getattr_Request path st \<Rightarrow>
          and_then (sbb_getattr splitString db path st fs) (\<lambda>((n, st), fs). Inr (Getattr_Reply n st, fs))
      | Open_Request path flags \<Rightarrow>
          and_then (sbb_open splitString db path flags fs) (\<lambda>(n, fs). Inr (Open_Reply n, fs))
      | Read_Request path sz offset \<Rightarrow>
          and_then (sbb_read splitString db pread path sz offset fs) (\<lambda>((n, bs), fs). Inr (Read_Reply n bs, fs))
      | Readdir_Request path \<Rightarrow>
          and_then (sbb_readdir splitString db path fs) (\<lambda>((n, ns), fs). Inr (Readdir_Reply n ns, fs)))"

text \<open>\<open>fuse_main\<close> in one thread.\<close>

fun serve ::
  "(fuse_request \<Rightarrow> 'f \<Rightarrow> (fuse_reply \<times> 'f) res) \<Rightarrow> fuse_request list \<Rightarrow> 'f \<Rightarrow> (fuse_reply list \<times> 'f) res" where
  "serve oper [] fs = Inr ([], fs)"
| "serve oper (req # reqs) fs =
     and_then (oper req fs) (\<lambda>(reply, fs).
     and_then (serve oper reqs fs) (\<lambda>(replies, fs). Inr (reply # replies, fs)))"

text \<open>
  \<open>main\<close>: \<open>raw\<close> is the object the constructor of \<open>DiskScanner\<close> leaves, \<open>pread\<close> takes the
  descriptor that \<open>getFD\<close> returns. Whether \<open>open\<close> failed is not looked at, nor what \<open>fuse_main\<close>
  returns. The paths of the image and of the database are fixed in the code; \<open>fd\<close> and \<open>d\<close>
  stand for what lies there.
\<close>

definition sbb_main ::
  "splitter \<Rightarrow> ('d, 'r) database \<Rightarrow> (int \<Rightarrow> u64 \<Rightarrow> u64 \<Rightarrow> u8 list option) \<Rightarrow> 'd \<Rightarrow> int \<Rightarrow> 'd disk_scanner
     \<Rightarrow> fuse_request list \<Rightarrow> (int \<times> fuse_reply list \<times> 'd) res" where
  "sbb_main splitString db pread d fd raw reqs =
     (let (_, ds) = disk_open db d fd raw
      in and_then (serve (sbb_oper splitString db (pread (m_fd ds))) reqs (m_fileSystem ds)) (\<lambda>(replies, fs).
           Inr (0, replies, m_database fs)))"

section \<open>What a request is answered with\<close>

text \<open>
  The answers the catalog \<open>c\<close> and the image allow, whatever was asked before. A file has one
  content only (\<open>well_mapped_sort\<close>); a directory is listed in any order.
\<close>

inductive answers :: "catalog \<Rightarrow> splitter \<Rightarrow> u8 list \<Rightarrow> fuse_request \<Rightarrow> fuse_reply \<Rightarrow> bool"
  for c splitString img where
  getattr_missing: "\<not> (\<exists>k x. lookup_path c (splitString path 47) k x) \<Longrightarrow>
    answers c splitString img (Getattr_Request path st) (Getattr_Reply (- 2) st)"
| getattr_found: "lookup_path c (splitString path 47) k (row, exs) \<Longrightarrow>
    answers c splitString img (Getattr_Request path st) (Getattr_Reply 0 (attr_of row st))"
| readdir_missing: "\<not> (\<exists>k x. lookup_path c (splitString path 47) k x) \<Longrightarrow>
    answers c splitString img (Readdir_Request path) (Readdir_Reply (- 2) [])"
| readdir_found: "lookup_path c (splitString path 47) k x \<Longrightarrow> distinct cs \<Longrightarrow>
    set cs = {y. \<exists>j. c j = Some y \<and> row_parent (fst y) = k} \<Longrightarrow>
    answers c splitString img (Readdir_Request path)
      (Readdir_Reply 0 ([46] # [46, 46] # map (\<lambda>y. c_str (row_name (fst y))) cs))"
| open_missing: "\<not> (\<exists>k x. lookup_path c (splitString path 47) k x) \<Longrightarrow>
    answers c splitString img (Open_Request path flags) (Open_Reply (- 2))"
| open_found: "lookup_path c (splitString path 47) k x \<Longrightarrow>
    answers c splitString img (Open_Request path flags) (Open_Reply (if flags AND 3 = 0 then 0 else - 13))"
| read_missing: "\<not> (\<exists>k x. lookup_path c (splitString path 47) k x) \<Longrightarrow>
    answers c splitString img (Read_Request path sz offset) (Read_Reply (- 2) [])"
| read_found: "lookup_path c (splitString path 47) k (row, exs) \<Longrightarrow> mset (map row_of_extent xs) = exs \<Longrightarrow>
    well_mapped img (unat (row_length row)) xs \<Longrightarrow>
    answers c splitString img (Read_Request path sz offset)
      (Read_Reply (int (min (unat sz) (unat (row_length row) - unat offset)))
        (map Some (take (unat sz) (drop (unat offset) (file_content img (unat (row_length row)) xs)))))"

inductive_cases answers_getattrE: "answers c splitString img (Getattr_Request path st) reply"
inductive_cases answers_readdirE: "answers c splitString img (Readdir_Request path) reply"
inductive_cases answers_openE: "answers c splitString img (Open_Request path flags) reply"
inductive_cases answers_readE: "answers c splitString img (Read_Request path sz offset) reply"

text \<open>
  The requests the program can serve: a file may be read when its extents lie in the image
  without a hole; the kernel asks for less than 2 GB at a time.
\<close>

definition servable :: "catalog \<Rightarrow> splitter \<Rightarrow> u8 list \<Rightarrow> fuse_request \<Rightarrow> bool" where
  "servable c splitString img req \<longleftrightarrow>
     (case req of
        Read_Request path sz offset \<Rightarrow>
          unat offset + unat sz < 2 ^ 64 \<and> unat sz < 2 ^ 31 \<and>
          (\<forall>k row exs. lookup_path c (splitString path 47) k (row, exs) \<longrightarrow>
             (\<exists>xs. mset (map row_of_extent xs) = exs \<and> well_mapped img (unat (row_length row)) xs))
      | _ \<Rightarrow> True)"

context sql_store
begin

text \<open>A request is served: there is a reply the catalog allows, and only the cache has changed.\<close>

definition served ::
  "splitter \<Rightarrow> u8 list \<Rightarrow> fuse_request \<Rightarrow> 'd filesystem \<Rightarrow> (fuse_reply \<times> 'd filesystem) res \<Rightarrow> bool" where
  "served splitString img req fs res \<longleftrightarrow>
     (\<exists>reply fs'. res = Inr (reply, fs') \<and> fs_inv ents exts good fs' \<and> m_database fs' = m_database fs \<and>
        answers (catalog_of ents exts (m_database fs)) splitString img req reply)"

lemma servedI:
  "res = Inr (reply, fs') \<Longrightarrow> fs_inv ents exts good fs' \<Longrightarrow> m_database fs' = m_database fs \<Longrightarrow>
     answers (catalog_of ents exts (m_database fs)) splitString img req reply \<Longrightarrow> served splitString img req fs res"
  by (auto simp: served_def)

lemma extends_database: "extends fs fs' \<Longrightarrow> m_database fs' = m_database fs"
  by (simp add: extends_def)

lemma getattr_served:
  assumes "fs_inv ents exts good fs" "mountable (catalog_of ents exts (m_database fs))"
  shows "served splitString img (Getattr_Request path st) fs
    (sbb_oper splitString db pread (Getattr_Request path st) fs)"
proof (cases rule: getattr_cases [OF assms, of splitString path st, case_names missing found])
  case (missing fs')
  show ?thesis
    by (rule servedI [OF _ missing(2) extends_database [OF missing(3)] answers.getattr_missing])
      (use missing in \<open>auto simp: sbb_oper_def\<close>)
next
  case (found k row exs fs')
  show ?thesis
    by (rule servedI [OF _ found(2) extends_database [OF found(3)] answers.getattr_found [where splitString = splitString and path = path,
        OF found(4)]])
      (simp add: sbb_oper_def found(1))
qed

lemma readdir_served:
  assumes "fs_inv ents exts good fs" "mountable (catalog_of ents exts (m_database fs))"
  shows "served splitString img (Readdir_Request path) fs
    (sbb_oper splitString db pread (Readdir_Request path) fs)"
proof (cases rule: readdir_cases [OF assms, of splitString path, case_names missing found])
  case (missing fs')
  show ?thesis
    by (rule servedI [OF _ missing(2) extends_database [OF missing(3)] answers.readdir_missing])
      (use missing in \<open>auto simp: sbb_oper_def\<close>)
next
  case (found k x cs fs')
  show ?thesis
    by (rule servedI [OF _ found(2) extends_database [OF found(3)] answers.readdir_found [where splitString = splitString and path = path,
        OF found(4-6)]])
      (simp add: sbb_oper_def found(1))
qed

lemma open_served:
  assumes "fs_inv ents exts good fs" "mountable (catalog_of ents exts (m_database fs))"
  shows "served splitString img (Open_Request path flags) fs
    (sbb_oper splitString db pread (Open_Request path flags) fs)"
proof (cases rule: open_cases [OF assms, of splitString path flags, case_names missing found])
  case (missing fs')
  show ?thesis
    by (rule servedI [OF _ missing(2) extends_database [OF missing(3)] answers.open_missing])
      (use missing in \<open>auto simp: sbb_oper_def\<close>)
next
  case (found k x fs')
  show ?thesis
    by (rule servedI [OF _ found(2) extends_database [OF found(3)] answers.open_found [where splitString = splitString and path = path,
        OF found(4)]])
      (simp add: sbb_oper_def found(1))
qed

text \<open>A path leads to one file at most, so one list of extents serves all the files it leads to.\<close>

lemma servable_extents:
  assumes "mountable c" "servable c splitString img (Read_Request path sz offset)"
  obtains xs where "\<And>k row exs. lookup_path c (splitString path 47) k (row, exs) \<Longrightarrow>
    mset (map row_of_extent xs) = exs \<and> well_mapped img (unat (row_length row)) xs"
proof (cases "\<exists>k row exs. lookup_path c (splitString path 47) k (row, exs)")
  case True
  then obtain k row exs where l: "lookup_path c (splitString path 47) k (row, exs)" by blast
  from assms(2) have "\<forall>k row exs. lookup_path c (splitString path 47) k (row, exs) \<longrightarrow>
      (\<exists>xs. mset (map row_of_extent xs) = exs \<and> well_mapped img (unat (row_length row)) xs)"
    unfolding servable_def fuse_request.case by blast
  with l obtain xs where xs: "mset (map row_of_extent xs) = exs" "well_mapped img (unat (row_length row)) xs"
    by blast
  show thesis
  proof (rule that)
    fix l' row' exs' assume "lookup_path c (splitString path 47) l' (row', exs')"
    from lookup_path_unique [OF assms(1) l this] xs
    show "mset (map row_of_extent xs) = exs' \<and> well_mapped img (unat (row_length row')) xs" by simp
  qed
qed (use that in blast)

lemma read_served:
  assumes "fs_inv ents exts good fs" "mountable (catalog_of ents exts (m_database fs))" "image_device pread img"
    and ok: "servable (catalog_of ents exts (m_database fs)) splitString img (Read_Request path sz offset)"
  shows "served splitString img (Read_Request path sz offset) fs
    (sbb_oper splitString db pread (Read_Request path sz offset) fs)"
proof -
  have b: "unat offset + unat sz < 2 ^ 64" "unat sz < 2 ^ 31" using ok by (simp_all add: servable_def)
  obtain xs where xs: "\<And>k row exs. lookup_path (catalog_of ents exts (m_database fs)) (splitString path 47) k (row, exs)
      \<Longrightarrow> mset (map row_of_extent xs) = exs \<and> well_mapped img (unat (row_length row)) xs"
    using servable_extents [OF assms(2) ok] by blast
  show ?thesis
  proof (rule read_cases [where splitString = splitString and path = path and xs = xs, OF assms(1-3) xs b])
    fix fs'
    assume missing: "sbb_read splitString db pread path sz offset fs = Inr ((- 2, []), fs')"
      "fs_inv ents exts good fs'" "m_database fs' = m_database fs"
      "\<And>k x. \<not> lookup_path (catalog_of ents exts (m_database fs)) (splitString path 47) k x"
    show ?thesis
      by (rule servedI [OF _ missing(2,3) answers.read_missing]) (use missing in \<open>auto simp: sbb_oper_def\<close>)
  next
    fix k row exs fs'
    assume found: "sbb_read splitString db pread path sz offset fs =
        Inr ((int (min (unat sz) (unat (row_length row) - unat offset)),
          map Some (take (unat sz) (drop (unat offset) (file_content img (unat (row_length row)) xs)))), fs')"
      "fs_inv ents exts good fs'" "m_database fs' = m_database fs"
      "lookup_path (catalog_of ents exts (m_database fs)) (splitString path 47) k (row, exs)"
    show ?thesis
      by (rule servedI [OF _ found(2,3) answers.read_found [where splitString = splitString and path = path,
        OF found(4) conjunct1 [OF xs [OF found(4)]]
        conjunct2 [OF xs [OF found(4)]]]]) (simp add: sbb_oper_def found(1))
  qed
qed

lemma sbb_oper_served:
  assumes "fs_inv ents exts good fs" "mountable (catalog_of ents exts (m_database fs))" "image_device pread img"
    and "servable (catalog_of ents exts (m_database fs)) splitString img req"
  shows "served splitString img req fs (sbb_oper splitString db pread req fs)"
  using assms by (cases req) (auto intro: getattr_served readdir_served open_served read_served)

lemma serve_answers:
  assumes "fs_inv ents exts good fs" and "mountable (catalog_of ents exts (m_database fs))"
    and dev: "image_device pread img"
    and "\<forall>req \<in> set reqs. servable (catalog_of ents exts (m_database fs)) splitString img req"
  shows "\<exists>replies fs'. serve (sbb_oper splitString db pread) reqs fs = Inr (replies, fs') \<and>
    list_all2 (answers (catalog_of ents exts (m_database fs)) splitString img) reqs replies \<and>
    fs_inv ents exts good fs' \<and> m_database fs' = m_database fs"
  using assms(1,2,4)
proof (induction reqs arbitrary: fs)
  case (Cons req reqs)
  then obtain reply fs1 where r: "sbb_oper splitString db pread req fs = Inr (reply, fs1)"
    "answers (catalog_of ents exts (m_database fs)) splitString img req reply"
    "fs_inv ents exts good fs1" "m_database fs1 = m_database fs"
    using sbb_oper_served [OF Cons.prems(1,2) dev, of splitString req] by (auto simp: served_def)
  with Cons.IH [OF r(3)] Cons.prems(2,3) obtain replies fs' where
    "serve (sbb_oper splitString db pread) reqs fs1 = Inr (replies, fs')"
    "list_all2 (answers (catalog_of ents exts (m_database fs)) splitString img) reqs replies"
    "fs_inv ents exts good fs'" "m_database fs' = m_database fs" by auto
  with r show ?case by simp
qed simp

text \<open>The whole program on a database that can be mounted.\<close>

lemma sbb_main_serves:
  assumes "db_inv ents exts good d" and "mountable (catalog_of ents exts d)" and "image_device (pread fd) img"
    and "\<forall>req \<in> set reqs. servable (catalog_of ents exts d) splitString img req"
  obtains replies d' where "sbb_main splitString db pread d fd raw reqs = Inr (0, replies, d')"
    "list_all2 (answers (catalog_of ents exts d) splitString img) reqs replies"
    "catalog_of ents exts d' = catalog_of ents exts d"
proof -
  note i = init_spec [OF assms(1)]
  have ds: "m_fileSystem (snd (disk_open db d fd raw)) = init db d" "m_fd (snd (disk_open db d fd raw)) = fd"
    by (simp_all add: disk_open_def)
  from serve_answers [OF i(1) _ assms(3), of reqs splitString] i assms(2,4)
  obtain replies fs' where "serve (sbb_oper splitString db (pread fd)) reqs (init db d) = Inr (replies, fs')"
    "list_all2 (answers (catalog_of ents exts d) splitString img) reqs replies"
    "m_database fs' = m_database (init db d)" by auto
  with i ds show thesis by (intro that [of replies "m_database fs'"]) (simp_all add: sbb_main_def split_beta)
qed

end

section \<open>Properties\<close>

text \<open>
  C16. A mounted image. When the database that lies beside a readable image holds a catalog with a
  root and without two equal names in a directory (\<open>mountable\<close>), \<open>main\<close> serves every sequence of
  requests that are \<open>servable\<close> without a fault: any \<open>getattr\<close>, \<open>readdir\<close> and \<open>open\<close>, and a \<open>read\<close> of less
  than 2 GB that ends below \<open>2 ^ 64\<close>, of a file whose extents lie in the image without a hole. Each reply is one
  that the catalog and the image allow for its request alone, so neither the cache that
  earlier requests have filled nor the order they have left the extents in is to be seen, and
  the database is unchanged at the end. A read of a file with a hole faults (\<open>read_overflows_on_hole\<close>).
\<close>
theorem session_answers:
  assumes "sql_store db ents exts good" and "db_inv ents exts good d"
    and "mountable (catalog_of ents exts d)" and "image_device (pread fd) img"
    and "\<forall>req \<in> set reqs. servable (catalog_of ents exts d) splitString img req"
  shows "\<exists>replies d'. sbb_main splitString db pread d fd raw reqs = Inr (0, replies, d') \<and>
    list_all2 (answers (catalog_of ents exts d) splitString img) reqs replies \<and>
    catalog_of ents exts d' = catalog_of ents exts d"
  by (rule sql_store.sbb_main_serves [where pread = pread and fd = fd and splitString = splitString, OF assms]) blast

lemma ex_no_lookup: "\<not> lookup_path (catalog_of mem_ents mem_exts ex_tables) (ex_split [47, 98] 47) k x"
  by (auto simp: lookup_path_def ex_split_def path_to_Cons ex_catalog ex_root_def ex_file_def split: if_splits)

text \<open>The extents of the example are those of its row, in the only order.\<close>

lemma ex_mapped_only:
  assumes "image_mset row_of_extent (mset xs) = {#(0, 40, 4096)#}"
  shows "xs = [ex_mapped]"
proof -
  have "image_mset row_of_extent {#ex_mapped#} = {#(0, 40, 4096)#}" by (simp add: row_of_extent_def ex_mapped_def)
  with assms have "image_mset row_of_extent (mset xs) = image_mset row_of_extent (mset [ex_mapped])" by simp
  then have "mset xs = mset [ex_mapped]" by (rule injD [OF multiset.inj_map [OF inj_row_of_extent]])
  then show ?thesis by simp
qed

text \<open>The replies the example allows.\<close>

lemma ex_reply_read:
  assumes "answers (catalog_of mem_ents mem_exts ex_tables) ex_split ex_mapped_image (Read_Request [47, 97] 9 1) reply"
  shows "reply = Read_Reply 4 (map Some [2, 3, 4, 5])"
  using assms
proof (cases rule: answers_readE [consumes 1, case_names missing found])
  case missing
  then show ?thesis by (simp add: ex_lookup)
next
  case (found k row xs)
  have len: "unat (row_length ex_file) = 5" by (simp add: ex_file_def)
  from found have k: "row = ex_file" "image_mset row_of_extent (mset xs) = {#(0, 40, 4096)#}"
    by (simp_all add: ex_lookup)
  from ex_mapped_only [OF k(2)] found(1) show ?thesis by (simp add: k(1) len ex_mapped_content)
qed

lemma ex_reply_open:
  "answers (catalog_of mem_ents mem_exts ex_tables) ex_split img (Open_Request [47, 98] 0) reply \<Longrightarrow> reply = Open_Reply (- 2)"
  using ex_no_lookup by (auto elim: answers_openE)

lemma ex_reply_list:
  assumes "answers (catalog_of mem_ents mem_exts ex_tables) ex_split img (Readdir_Request [47]) reply"
  shows "reply = Readdir_Reply 0 [[46], [46, 46], [97]]"
proof -
  from assms obtain k y cs where "lookup_path (catalog_of mem_ents mem_exts ex_tables) (ex_split [47] 47) k y" "distinct cs"
    "set cs = {y. \<exists>j. catalog_of mem_ents mem_exts ex_tables j = Some y \<and> row_parent (fst y) = k}" and
    reply: "reply = Readdir_Reply 0 ([46] # [46, 46] # map (\<lambda>y. c_str (row_name (fst y))) cs)"
    by (auto simp: ex_lookup_root elim: answers_readdirE)
  then have "distinct cs" "set cs = {(ex_file, {#(0, 40, 4096)#})}" using ex_children by (auto simp: ex_lookup_root)
  then have "cs = [(ex_file, {#(0, 40, 4096)#})]" by (simp add: distinct_singleton)
  with reply show ?thesis by (simp add: ex_file_def c_str_def)
qed

lemma ex_servable:
  "servable (catalog_of mem_ents mem_exts ex_tables) ex_split ex_mapped_image (Read_Request [47, 97] 9 1)"
proof -
  have "unat (row_length ex_file) = 5" by (simp add: ex_file_def)
  then have "well_mapped ex_mapped_image (unat (row_length ex_file)) [ex_mapped]" using ex_mapped_well by simp
  moreover have "mset (map row_of_extent [ex_mapped]) = {#(0, 40, 4096)#}"
    by (simp add: row_of_extent_def ex_mapped_def)
  ultimately show ?thesis by (auto simp: servable_def ex_lookup simp del: mset_map intro!: exI [of _ "[ex_mapped]"])
qed

theorem session_answers_witness:
  "\<exists>replies d'. sbb_main ex_split mem_db (\<lambda>_. image_pread ex_mapped_image) ex_tables 3
       \<lparr>m_fd = 0, m_fileSystem = ex_fs, m_scanners = [], m_running = False\<rparr>
       [Read_Request [47, 97] 9 1, Open_Request [47, 98] 0, Read_Request [47, 97] 9 1, Readdir_Request [47]] =
       Inr (0, replies, d') \<and>
     replies = [Read_Reply 4 (map Some [2, 3, 4, 5]), Open_Reply (- 2), Read_Reply 4 (map Some [2, 3, 4, 5]),
       Readdir_Reply 0 [[46], [46, 46], [97]]]"
proof -
  let ?c = "catalog_of mem_ents mem_exts ex_tables"
  let ?reqs = "[Read_Request [47, 97] 9 1, Open_Request [47, 98] 0, Read_Request [47, 97] 9 1, Readdir_Request [47]]"
  let ?answers = "answers ?c ex_split ex_mapped_image"
  have m: "mountable ?c" using ex_mountable by simp
  have ok: "\<forall>req \<in> set ?reqs. servable ?c ex_split ex_mapped_image req"
    using ex_servable by (simp add: servable_def)
  from session_answers [where pread = "\<lambda>_. image_pread ex_mapped_image" and fd = 3 and splitString = ex_split,
      OF mem.sql_store_axioms ex_db_inv m image.image_device_axioms ok]
  obtain replies d' where r: "sbb_main ex_split mem_db (\<lambda>_. image_pread ex_mapped_image) ex_tables 3
       \<lparr>m_fd = 0, m_fileSystem = ex_fs, m_scanners = [], m_running = False\<rparr> ?reqs = Inr (0, replies, d')"
    "list_all2 ?answers ?reqs replies" by blast
  from r(2) obtain r1 r2 r3 r4 where "replies = [r1, r2, r3, r4]" "?answers (Read_Request [47, 97] 9 1) r1"
    "?answers (Open_Request [47, 98] 0) r2" "?answers (Read_Request [47, 97] 9 1) r3" "?answers (Readdir_Request [47]) r4"
    by (auto simp: list_all2_Cons1)
  with ex_reply_read ex_reply_open ex_reply_list have "replies = [Read_Reply 4 (map Some [2, 3, 4, 5]), Open_Reply (- 2),
      Read_Reply 4 (map Some [2, 3, 4, 5]), Readdir_Reply 0 [[46], [46, 46], [97]]]" by blast
  with r(1) show ?thesis by blast
qed

end
