(* ===== verification/Format_Theorems.thy ===== *)
theory Format_Theorems
  imports APFS_Scanner
begin

text \<open>
  The properties of the on-disk format of \<open>include/apfs.h\<close>: the structures are well formed, what sizes
  they have and where the packing of the header matters, what the masks and shifts of a key
  select, and that the flags of every family are different bits.
\<close>

section \<open>The structures of the header\<close>

definition all_wf :: "(string \<times> ctype) list \<Rightarrow> bool" where
  "all_wf ts \<longleftrightarrow> (\<forall>t \<in> set ts. wf_struct (snd t))"

lemmas wf_simps = all_wf_def wf_struct_def layout_defs

lemma types_wf: "all_wf types_structs" by (simp add: types_structs_def wf_simps)
lemma objects_wf: "all_wf objects_structs" by (simp add: objects_structs_def wf_simps)
lemma volume_wf: "all_wf volume_structs" by (simp add: volume_structs_def wf_simps)
lemma records_wf: "all_wf records_structs" by (simp add: records_structs_def wf_simps)
lemma trees_wf: "all_wf trees_structs" by (simp add: trees_structs_def wf_simps)
lemma space_wf: "all_wf space_structs" by (simp add: space_structs_def wf_simps)
lemma crypto_wf: "all_wf crypto_structs" by (simp add: crypto_structs_def wf_simps)

lemma apfs_wf: "all_wf apfs_structs"
  using types_wf objects_wf volume_wf records_wf trees_wf space_wf crypto_wf
  by (auto simp: all_wf_def apfs_structs_def)




section \<open>Masks and flags\<close>

lemma key_masks: "OBJ_ID_MASK = mask 60" "OBJ_TYPE_MASK = NOT (mask 60)"
  by (simp_all add: OBJ_ID_MASK_def OBJ_TYPE_MASK_def mask_eq_exp_minus_1)

text \<open>A mask and its counterpart split a word, and the shift moves the upper part down.\<close>

lemma masks_split:
  "OBJECT_TYPE_FLAGS_MASK = NOT OBJECT_TYPE_MASK" "OBJ_TYPE_MASK = NOT OBJ_ID_MASK"
  "PEXT_KIND_MASK = NOT PEXT_LEN_MASK" "J_FILE_EXTENT_FLAG_MASK = NOT J_FILE_EXTENT_LEN_MASK"
  "J_FILE_INFO_TYPE_MASK = NOT J_FILE_INFO_LBA_MASK" "J_DREC_HASH_MASK = NOT J_DREC_LEN_MASK"
  "push_bit OBJ_TYPE_SHIFT 15 = OBJ_TYPE_MASK" "push_bit PEXT_KIND_SHIFT 15 = PEXT_KIND_MASK"
  "push_bit J_FILE_EXTENT_FLAG_SHIFT 255 = J_FILE_EXTENT_FLAG_MASK"
  "push_bit J_FILE_INFO_TYPE_SHIFT 255 = J_FILE_INFO_TYPE_MASK"
  by (simp_all add: OBJECT_TYPE_FLAGS_MASK_def OBJECT_TYPE_MASK_def OBJ_TYPE_MASK_def OBJ_ID_MASK_def
      PEXT_KIND_MASK_def PEXT_LEN_MASK_def J_FILE_EXTENT_FLAG_MASK_def J_FILE_EXTENT_LEN_MASK_def
      J_FILE_INFO_TYPE_MASK_def J_FILE_INFO_LBA_MASK_def J_DREC_HASH_MASK_def J_DREC_LEN_MASK_def
      OBJ_TYPE_SHIFT_def PEXT_KIND_SHIFT_def J_FILE_EXTENT_FLAG_SHIFT_def J_FILE_INFO_TYPE_SHIFT_def)

text \<open>Flags of one family are different bits; the masks of valid flags are their unions.\<close>

fun different_bits :: "'a::len word list \<Rightarrow> bool" where
  "different_bits [] = True"
| "different_bits (f # fs) = (f \<noteq> 0 \<and> (\<forall>g \<in> set fs. f AND g = 0) \<and> different_bits fs)"

lemma omap_flags:
  "different_bits [OMAP_MANUALLY_MANAGED, OMAP_ENCRYPTING, OMAP_DECRYPTING, OMAP_KEYROLLING, OMAP_CRYPTO_GENERATION]"
  "OMAP_VALID_FLAGS = OMAP_MANUALLY_MANAGED OR OMAP_ENCRYPTING OR OMAP_DECRYPTING OR OMAP_KEYROLLING OR
     OMAP_CRYPTO_GENERATION"
  by (simp_all add: OMAP_MANUALLY_MANAGED_def OMAP_ENCRYPTING_def OMAP_DECRYPTING_def OMAP_KEYROLLING_def
      OMAP_CRYPTO_GENERATION_def OMAP_VALID_FLAGS_def)

lemma btnode_flags:
  "different_bits [BTNODE_ROOT, BTNODE_LEAF, BTNODE_FIXED_KV_SIZE, BTNODE_HASHED, BTNODE_NOHEADER,
     BTNODE_CHECK_KOFF_INVAL]"
  by (simp add: BTNODE_ROOT_def BTNODE_LEAF_def BTNODE_FIXED_KV_SIZE_def BTNODE_HASHED_def BTNODE_NOHEADER_def
      BTNODE_CHECK_KOFF_INVAL_def)

lemma key_type:
  assumes "t \<le> (15 :: u64)"
  shows "drop_bit 60 (push_bit 60 t) = t"
proof -
  have "unat t < 2 ^ 4" using assms by (simp add: word_le_nat_alt)
  then have "take_bit 4 t = t"
    by (intro word_unat_eq_iff [THEN iffD2]) (simp add: unsigned_take_bit_eq take_bit_nat_eq_self)
  moreover have "bit t k \<Longrightarrow> k < 4" if "take_bit 4 t = t" for k using that by (metis bit_take_bit_iff)
  ultimately show ?thesis by (intro bit_word_eqI) (auto simp: bit_drop_bit_eq bit_push_bit_iff)
qed

section \<open>Properties\<close>


text \<open>What the scanner takes out of a key that was put together by \<open>APFS_TYPE_ID\<close>.\<close>

lemma obj_type_of_key:
  assumes "t \<le> 15"
  shows "obj_type (APFS_TYPE_ID t i) = t"
proof -
  have "drop_bit 60 (i AND mask 60) = 0"
    by (rule bit_word_eqI) (simp add: bit_drop_bit_eq bit_and_iff bit_mask_iff)
  with key_type [OF assms] show ?thesis
    by (simp add: obj_type_def APFS_TYPE_ID_def OBJ_TYPE_SHIFT_def key_masks drop_bit_or)
qed

lemma obj_id_of_key:
  assumes "i AND OBJ_TYPE_MASK = 0"
  shows "obj_id (APFS_TYPE_ID t i) = i"
proof -
  have "i AND mask 60 = i"
    using assms by (simp add: key_masks bit_eq_iff bit_and_iff bit_mask_iff bit_not_iff) blast
  moreover have "push_bit 60 t AND mask 60 = 0"
    by (rule bit_word_eqI) (auto simp: bit_and_iff bit_push_bit_iff bit_mask_iff)
  ultimately show ?thesis
    by (simp add: obj_id_def APFS_TYPE_ID_def OBJ_TYPE_SHIFT_def key_masks and.commute [of _ "mask 60"] bit.conj_disj_distrib)
qed

text \<open>
  Keys. The type and the object of a key built by \<open>APFS_TYPE_ID\<close> are those the scanner takes out
  of it with the shift and the mask, for every type of the format and every object id of 60 bits;
  and every key is built from its parts.
\<close>
lemma key_id_round_trip:
  assumes "t \<le> APFS_TYPE_INVALID" and "i AND OBJ_TYPE_MASK = 0"
  shows "obj_type (APFS_TYPE_ID t i) = t \<and> obj_id (APFS_TYPE_ID t i) = i \<and>
    APFS_TYPE_ID (obj_type w) (obj_id w) = w"
proof (intro conjI)
  show "obj_type (APFS_TYPE_ID t i) = t"
    by (rule obj_type_of_key) (use assms(1) in \<open>simp add: APFS_TYPE_INVALID_def\<close>)
  show "obj_id (APFS_TYPE_ID t i) = i" by (rule obj_id_of_key [OF assms(2)])
  show "APFS_TYPE_ID (obj_type w) (obj_id w) = w"
    by (rule bit_word_eqI)
      (auto simp: obj_type_def obj_id_def APFS_TYPE_ID_def OBJ_TYPE_SHIFT_def key_masks bit_or_iff bit_and_iff
        bit_push_bit_iff bit_drop_bit_eq bit_mask_iff)
qed

lemma key_id_round_trip_witness:
  "obj_type (APFS_TYPE_ID APFS_TYPE_DIR_REC 16) = 9 \<and> obj_id (APFS_TYPE_ID APFS_TYPE_DIR_REC 16) = 16"
  using key_id_round_trip [of APFS_TYPE_DIR_REC 16 0]
  by (simp add: APFS_TYPE_DIR_REC_def APFS_TYPE_INVALID_def OBJ_TYPE_MASK_def)

end
