(* ===== verification/Node_Encoding.thy ===== *)
theory Node_Encoding
  imports Disk_Scanner Format_Theorems
begin

text \<open>
  The other direction of the scanner: how a writer of the format lays a list of records out in a
  leaf node of the file-system tree. The layout is that of \<open>include/apfs.h\<close> (header, table of
  contents, keys from its end upward, values from the end of the block downward, Fletcher's
  checksum in front), and the lemmas show that \<open>APFSScanner\<close> reads exactly those records back, so
  that every list of records that fits is what some block holds.
\<close>

section \<open>Bytes at an offset\<close>

definition holds_at :: "u8 list \<Rightarrow> int \<Rightarrow> u8 list \<Rightarrow> bool" where
  "holds_at mem p bs \<longleftrightarrow> (\<exists>pre post. mem = pre @ bs @ post \<and> int (length pre) = p)"

lemma holds_atI: "int (length pre) = p \<Longrightarrow> holds_at (pre @ bs @ post) p bs"
  by (auto simp: holds_at_def)

lemma holds_at_append:
  assumes "holds_at mem p (xs @ ys)"
  shows "holds_at mem p xs" and "holds_at mem (p + int (length xs)) ys"
proof -
  from assms obtain pre post where m: "mem = pre @ (xs @ ys) @ post" "int (length pre) = p"
    by (auto simp: holds_at_def)
  then have "mem = pre @ xs @ (ys @ post)" "mem = (pre @ xs) @ ys @ post" by simp_all
  then show "holds_at mem p xs" and "holds_at mem (p + int (length xs)) ys"
    using m(2) unfolding holds_at_def by (metis, metis length_append of_nat_add)
qed

text \<open>Loads at an offset that is written in another way than the place of the bytes.\<close>

lemma rd_held:
  "holds_at mem p (le_bytes 2 w16) \<Longrightarrow> q = p \<Longrightarrow> rd16 mem q = Inr w16"
  "holds_at mem p (le_bytes 4 w32) \<Longrightarrow> q = p \<Longrightarrow> rd32 mem q = Inr w32"
  "holds_at mem p (le_bytes 8 w64) \<Longrightarrow> q = p \<Longrightarrow> rd64 mem q = Inr w64"
  by (auto simp: holds_at_def rd16_stored rd32_stored rd64_stored)

lemma rd8_held: "holds_at mem p [b] \<Longrightarrow> q = p \<Longrightarrow> rd8 mem q = Inr b"
  by (auto simp: holds_at_def rd8_def rd_bytes_def)

lemma cstring_held: "holds_at mem p (s @ [0]) \<Longrightarrow> q = p \<Longrightarrow> 0 \<notin> set s \<Longrightarrow> rd_cstring mem q = Inr s"
  by (auto simp: holds_at_def rd_cstring_def bytes_to_nul_stored)

section \<open>Records\<close>

text \<open>
  Keys: the object and the type of the record, then what the type adds. Of an inode value only the
  parent and, as an extended field, the length are filled in; the rest is zero.
\<close>

definition record_type :: "fs_record \<Rightarrow> u64" where
  "record_type r = (case r of Inode_Rec _ _ _ \<Rightarrow> APFS_TYPE_INODE | Extent_Rec _ _ _ \<Rightarrow> APFS_TYPE_FILE_EXTENT
     | Dir_Rec _ _ _ \<Rightarrow> APFS_TYPE_DIR_REC | Other_Rec \<Rightarrow> APFS_TYPE_XATTR)"

definition encode_key :: "u64 \<times> fs_record \<Rightarrow> u8 list" where
  "encode_key x = le_bytes 8 (APFS_TYPE_ID (record_type (snd x)) (fst x)) @
     (case snd x of
        Extent_Rec la pb len \<Rightarrow> le_bytes 8 la
      | Dir_Rec file_id nam t \<Rightarrow> le_bytes 4 (of_nat (length nam + 1) :: u32) @ nam @ [0]
      | _ \<Rightarrow> [])"

definition encode_value :: "u64 \<times> fs_record \<Rightarrow> u8 list" where
  "encode_value x =
     (case snd x of
        Inode_Rec i parent len \<Rightarrow> le_bytes 8 parent @ replicate 84 0 @
          (case len of
             None \<Rightarrow> []
           | Some n \<Rightarrow> le_bytes 2 (1 :: u16) @ le_bytes 2 (40 :: u16) @
               [INO_EXT_TYPE_DSTREAM] @ [0] @ le_bytes 2 (40 :: u16) @ le_bytes 8 n @ replicate 32 0)
      | Extent_Rec la pb len \<Rightarrow> le_bytes 8 len @ le_bytes 8 pb @ replicate 8 0
      | Dir_Rec file_id nam t \<Rightarrow> le_bytes 8 file_id @ replicate 8 0 @ le_bytes 2 (ucast t :: u16)
      | Other_Rec \<Rightarrow> [])"

text \<open>The records the format can express: ids of 60 bits, lengths of 56, names without a zero byte.\<close>

definition record_ok :: "u64 \<times> fs_record \<Rightarrow> bool" where
  "record_ok x \<longleftrightarrow> fst x AND OBJ_TYPE_MASK = 0 \<and>
     (case snd x of
        Inode_Rec i parent len \<Rightarrow> i = fst x
      | Extent_Rec la pb len \<Rightarrow> len AND J_FILE_EXTENT_LEN_MASK = len
      | Dir_Rec file_id nam t \<Rightarrow> 0 \<notin> set nam \<and> t AND DREC_TYPE_MASK = t
      | Other_Rec \<Rightarrow> True)"

lemma key_types [simp]:
  "obj_type (APFS_TYPE_ID APFS_TYPE_INODE i) = APFS_TYPE_INODE"
  "obj_type (APFS_TYPE_ID APFS_TYPE_FILE_EXTENT i) = APFS_TYPE_FILE_EXTENT"
  "obj_type (APFS_TYPE_ID APFS_TYPE_DIR_REC i) = APFS_TYPE_DIR_REC"
  "obj_type (APFS_TYPE_ID APFS_TYPE_XATTR i) = APFS_TYPE_XATTR"
  by (rule obj_type_of_key, simp add: APFS_TYPE_INODE_def APFS_TYPE_FILE_EXTENT_def APFS_TYPE_DIR_REC_def
    APFS_TYPE_XATTR_def)+

lemma key_types_distinct [simp]:
  "APFS_TYPE_FILE_EXTENT \<noteq> APFS_TYPE_INODE" "APFS_TYPE_DIR_REC \<noteq> APFS_TYPE_INODE"
  "APFS_TYPE_DIR_REC \<noteq> APFS_TYPE_FILE_EXTENT" "APFS_TYPE_XATTR \<noteq> APFS_TYPE_INODE"
  "APFS_TYPE_XATTR \<noteq> APFS_TYPE_FILE_EXTENT" "APFS_TYPE_XATTR \<noteq> APFS_TYPE_DIR_REC"
  by (simp_all add: APFS_TYPE_INODE_def APFS_TYPE_FILE_EXTENT_def APFS_TYPE_DIR_REC_def APFS_TYPE_XATTR_def)

lemma dir_type_narrow:
  assumes "t AND DREC_TYPE_MASK = t"
  shows "ucast (ucast t :: u16) AND DREC_TYPE_MASK = t"
proof -
  have m: "DREC_TYPE_MASK = mask 4" by (simp add: DREC_TYPE_MASK_def mask_eq_exp_minus_1)
  have low: "bit t k \<Longrightarrow> k < 4" for k
    using assms unfolding m by (metis bit_and_iff bit_mask_iff)
  show ?thesis
    unfolding m by (rule bit_word_eqI) (auto simp: bit_and_iff bit_mask_iff bit_ucast_iff dest: low)
qed

lemma encoded_key_word:
  assumes "holds_at mem k (encode_key x)"
  shows "key_word mem k = Inr (APFS_TYPE_ID (record_type (snd x)) (fst x))"
  using rd_held(3) [OF holds_at_append(1) [OF assms [unfolded encode_key_def]] refl]
  by (simp add: key_word_def)

text \<open>The length of an inode is found in its extended field.\<close>

lemma encoded_inode_size:
  assumes "holds_at mem v (encode_value (i, Inode_Rec j parent len))"
  shows "inode_size mem (int (length (encode_value (i, Inode_Rec j parent len)))) v = Inr len"
proof (cases len)
  case None
  then show ?thesis by (simp add: inode_size_def encode_value_def Let_def)
next
  case (Some n)
  have "holds_at mem v (le_bytes 8 parent @ replicate 84 0 @ le_bytes 2 (1 :: u16) @ le_bytes 2 (40 :: u16) @
      [INO_EXT_TYPE_DSTREAM] @ [0] @ le_bytes 2 (40 :: u16) @ le_bytes 8 n @ replicate 32 0)"
    using assms by (simp add: encode_value_def Some)
  note h = this holds_at_append(2) [OF this]
  note h = holds_at_append(2) [OF h(2)]
  note num = rd_held(1) [OF holds_at_append(1) [OF h], of "v + 92"]
  note h = holds_at_append(2) [OF holds_at_append(2) [OF h]]
  note type = rd8_held [OF holds_at_append(1) [OF h], of "v + 96"]
  note h = holds_at_append(2) [OF holds_at_append(2) [OF h]]
  note len = rd_held(1) [OF holds_at_append(1) [OF h], of "v + 98"]
  note h = holds_at_append(2) [OF h]
  note val = rd_held(3) [OF holds_at_append(1) [OF h], of "v + 100"]
  have "length (encode_value (i, Inode_Rec j parent len)) = 140" by (simp add: encode_value_def Some)
  with num type len val show ?thesis
    by (simp add: inode_size_def Let_def Some add.assoc)
qed

text \<open>A record is read back.\<close>

lemma encoded_decode_pair:
  assumes ok: "record_ok x" and k: "holds_at mem k (encode_key x)" and v: "holds_at mem v (encode_value x)"
  shows "decode_pair mem \<lparr>kv_key = k, valueLength = int (length (encode_value x)), kv_value = v\<rparr> = Inr (snd x)"
proof (cases x)
  case (Pair i r)
  note kw = encoded_key_word [OF k, unfolded Pair, simplified]
  have id: "obj_id (APFS_TYPE_ID t i) = i" for t
    using ok by (intro obj_id_of_key) (simp add: record_ok_def Pair)
  show ?thesis
  proof (cases r)
    case (Inode_Rec j parent len)
    have "holds_at mem v (encode_value (i, Inode_Rec j parent len))" using v by (simp add: Pair Inode_Rec)
    note size = encoded_inode_size [OF this]
    have "holds_at mem v (le_bytes 8 parent @ drop 8 (encode_value x))"
      using v by (simp add: encode_value_def Pair Inode_Rec)
    then have "rd64 mem v = Inr parent" using rd_held(3) [OF holds_at_append(1) _] by blast
    with kw size ok id show ?thesis
      by (simp add: decode_pair_def Pair Inode_Rec record_type_def record_ok_def)
  next
    case (Extent_Rec la pb len)
    have h: "holds_at mem v (le_bytes 8 len @ le_bytes 8 pb @ replicate 8 0)"
      "holds_at mem k (le_bytes 8 (APFS_TYPE_ID APFS_TYPE_FILE_EXTENT i) @ le_bytes 8 la)"
      using v k by (simp_all add: encode_value_def encode_key_def record_type_def Pair Extent_Rec)
    note rd = rd_held(3) [OF holds_at_append(1) [OF h(1)], of v]
      rd_held(3) [OF holds_at_append(1) [OF holds_at_append(2) [OF h(1)]], of "v + 8"]
      rd_held(3) [OF holds_at_append(2) [OF h(2)], of "k + 8"]
    from kw rd ok show ?thesis
      by (simp add: decode_pair_def Pair Extent_Rec record_type_def record_ok_def)
  next
    case (Dir_Rec file_id nam t)
    have h: "holds_at mem v (le_bytes 8 file_id @ replicate 8 0 @ le_bytes 2 (ucast t :: u16))"
      "holds_at mem k (le_bytes 8 (APFS_TYPE_ID APFS_TYPE_DIR_REC i) @ le_bytes 4 (of_nat (length nam + 1) :: u32) @ nam @ [0])"
      using v k by (simp_all add: encode_value_def encode_key_def record_type_def Pair Dir_Rec)
    note rd = rd_held(3) [OF holds_at_append(1) [OF h(1)], of v]
      rd_held(1) [OF holds_at_append(2) [OF holds_at_append(2) [OF h(1)]], of "v + 16"]
    have nam: "rd_cstring mem (k + 12) = Inr nam"
      using cstring_held [OF holds_at_append(2) [OF holds_at_append(2) [OF h(2)]], of "k + 12"] ok
      by (simp add: record_ok_def Pair Dir_Rec)
    have "ucast (ucast t :: u16) AND DREC_TYPE_MASK = t"
      using ok by (intro dir_type_narrow) (simp add: record_ok_def Pair Dir_Rec)
    with kw rd nam show ?thesis
      by (simp add: decode_pair_def Pair Dir_Rec record_type_def)
  next
    case Other_Rec
    with kw show ?thesis by (simp add: decode_pair_def Pair record_type_def)
  qed
qed

section \<open>Nodes\<close>

text \<open>
  The table of contents: for each item where its key begins, from the start of the keys, where its
  value begins, back from the end of the values, and the two lengths.
\<close>

fun encode_toc :: "nat \<Rightarrow> nat \<Rightarrow> (u64 \<times> fs_record) list \<Rightarrow> u8 list" where
  "encode_toc k v [] = []"
| "encode_toc k v (x # xs) =
     le_bytes 2 (of_nat k :: u16) @ le_bytes 2 (of_nat (length (encode_key x)) :: u16) @
     le_bytes 2 (of_nat (v + length (encode_value x)) :: u16) @ le_bytes 2 (of_nat (length (encode_value x)) :: u16) @
     encode_toc (k + length (encode_key x)) (v + length (encode_value x)) xs"

fun encoded_pairs :: "int \<Rightarrow> int \<Rightarrow> (u64 \<times> fs_record) list \<Rightarrow> KeyValuePair list" where
  "encoded_pairs k v [] = []"
| "encoded_pairs k v (x # xs) =
     \<lparr>kv_key = k, valueLength = int (length (encode_value x)), kv_value = v - int (length (encode_value x))\<rparr>
     # encoded_pairs (k + int (length (encode_key x))) (v - int (length (encode_value x))) xs"

definition encode_keys :: "(u64 \<times> fs_record) list \<Rightarrow> u8 list" where
  "encode_keys xs = concat (map encode_key xs)"

definition encode_values :: "(u64 \<times> fs_record) list \<Rightarrow> u8 list" where
  "encode_values xs = concat (rev (map encode_value xs))"

lemma length_encode_toc [simp]: "length (encode_toc k v xs) = 8 * length xs"
  by (induction k v xs rule: encode_toc.induct) simp_all

lemma encode_keys_Cons [simp]: "encode_keys (x # xs) = encode_key x @ encode_keys xs"
  and encode_values_Cons [simp]: "encode_values (x # xs) = encode_values xs @ encode_value x"
  and encode_Nil [simp]: "encode_keys [] = []" "encode_values [] = []"
  by (simp_all add: encode_keys_def encode_values_def)

lemma uint_of_nat_u16: "n < 65536 \<Longrightarrow> uint (of_nat n :: u16) = int n"
  by (simp add: uint_nat unsigned_of_nat take_bit_nat_eq_self)

lemma toc_read_back:
  assumes "holds_at mem p (encode_toc k v xs)" "k + length (encode_keys xs) < 65536"
    "v + length (encode_values xs) < 65536"
  shows "\<exists>locs. toc_variable mem p (length xs) = Inr locs \<and>
    map (\<lambda>loc. \<lparr>kv_key = kb + uint (k_off loc), valueLength = uint (v_len loc), kv_value = vb - uint (v_off loc)\<rparr>) locs =
    encoded_pairs (kb + int k) (vb - int v) xs"
  using assms
proof (induction xs arbitrary: p k v)
  case (Cons x xs)
  let ?k = "length (encode_key x)" and ?v = "length (encode_value x)"
  have b: "k < 65536" "v + ?v < 65536" "?v < 65536" using Cons.prems(2,3) by simp_all
  note h = Cons.prems(1) [unfolded encode_toc.simps]
  note r1 = rd_held(1) [OF holds_at_append(1) [OF h], of p]
  note h = holds_at_append(2) [OF h]
  note r2 = rd_held(1) [OF holds_at_append(1) [OF h], of "p + 2"]
  note h = holds_at_append(2) [OF h]
  note r3 = rd_held(1) [OF holds_at_append(1) [OF h], of "p + 4"]
  note h = holds_at_append(2) [OF h]
  note r4 = rd_held(1) [OF holds_at_append(1) [OF h], of "p + 6"]
  note h = holds_at_append(2) [OF h]
  have "holds_at mem (p + 8) (encode_toc (k + ?k) (v + ?v) xs)" using h by (simp add: add.assoc)
  from Cons.IH [OF this] Cons.prems(2,3) obtain locs where
    "toc_variable mem (p + 8) (length xs) = Inr locs"
    "map (\<lambda>loc. \<lparr>kv_key = kb + uint (k_off loc), valueLength = uint (v_len loc), kv_value = vb - uint (v_off loc)\<rparr>) locs =
      encoded_pairs (kb + int (k + ?k)) (vb - int (v + ?v)) xs" by auto
  with r1 r2 r3 r4 show ?case
    using uint_of_nat_u16 [OF b(1)] uint_of_nat_u16 [OF b(2)] uint_of_nat_u16 [OF b(3)]
    by (simp add: add.assoc diff_diff_eq)
qed simp

lemma items_read_back:
  assumes "\<forall>x \<in> set xs. record_ok x" "holds_at mem k (encode_keys xs)"
    "holds_at mem (v - int (length (encode_values xs))) (encode_values xs)"
  shows "decode_items mem (encoded_pairs k v xs) = Inr xs"
  using assms
proof (induction xs arbitrary: k v)
  case (Cons x xs)
  let ?v = "v - int (length (encode_value x))"
  have ok: "record_ok x" using Cons.prems(1) by simp
  note hk = Cons.prems(2) [unfolded encode_keys_Cons]
  note hv = Cons.prems(3) [unfolded encode_values_Cons]
  have key: "holds_at mem k (encode_key x)" by (rule holds_at_append(1) [OF hk])
  have val: "holds_at mem ?v (encode_value x)" using holds_at_append(2) [OF hv] by simp
  have "holds_at mem (?v - int (length (encode_values xs))) (encode_values xs)"
    using holds_at_append(1) [OF hv] by (simp add: diff_diff_eq add.commute)
  from Cons.IH [OF _ holds_at_append(2) [OF hk] this] Cons.prems(1)
  have "decode_items mem (encoded_pairs (k + int (length (encode_key x))) ?v xs) = Inr xs" by simp
  moreover have "obj_id (APFS_TYPE_ID (record_type (snd x)) (fst x)) = fst x"
    using ok by (intro obj_id_of_key) (simp add: record_ok_def)
  ultimately show ?case
    using encoded_key_word [OF key] encoded_decode_pair [OF ok key val] by simp
qed simp

text \<open>
  The node behind its checksum, for a block of \<open>bs\<close> bytes: object header, node header, table of
  contents, keys, free space, values.
\<close>

definition encode_body :: "u32 \<Rightarrow> u64 \<Rightarrow> (u64 \<times> fs_record) list \<Rightarrow> u8 list" where
  "encode_body bs xid xs =
     le_bytes 8 (0 :: u64) @ le_bytes 8 xid @ le_bytes 4 OBJECT_TYPE_BTREE_NODE @ le_bytes 4 (14 :: u32) @
     le_bytes 2 BTNODE_LEAF @ le_bytes 2 (0 :: u16) @ le_bytes 4 (of_nat (length xs) :: u32) @
     le_bytes 2 (0 :: u16) @ le_bytes 2 (of_nat (8 * length xs) :: u16) @ replicate 12 0 @
     encode_toc 0 0 xs @ encode_keys xs @
     replicate (unat bs - (56 + 8 * length xs + length (encode_keys xs) + length (encode_values xs))) 0 @
     encode_values xs"

definition encode_node :: "u32 \<Rightarrow> u64 \<Rightarrow> (u64 \<times> fs_record) list \<Rightarrow> u8 list" where
  "encode_node bs xid xs =
     le_bytes 8 (of_nat (fl_reference (words_of (encode_body bs xid xs))) :: u64) @ encode_body bs xid xs"

text \<open>The records fit a block whose size is a multiple of four and that 16 bits can address.\<close>

definition fits_node :: "u32 \<Rightarrow> (u64 \<times> fs_record) list \<Rightarrow> bool" where
  "fits_node bs xs \<longleftrightarrow> unat bs < 65536 \<and> 4 dvd unat bs \<and>
     56 + 8 * length xs + length (encode_keys xs) + length (encode_values xs) \<le> unat bs \<and>
     (\<forall>x \<in> set xs. record_ok x)"

lemma length_encode_body: "fits_node bs xs \<Longrightarrow> length (encode_body bs xid xs) = unat bs - 8"
  unfolding fits_node_def encode_body_def by (simp del: suc_rules)

lemma length_encode_node: "fits_node bs xs \<Longrightarrow> length (encode_node bs xid xs) = unat bs"
  unfolding encode_node_def by (simp add: length_encode_body) (simp add: fits_node_def)

section \<open>A node is read back\<close>

lemma length_words_of: "length (words_of bs) = length bs div 4"
  by (induction bs rule: words_of.induct) simp_all

lemma encoded_header:
  "rd64 (encode_node bs xid xs) 0 = Inr (of_nat (fl_reference (words_of (encode_body bs xid xs))))"
  "rd32 (encode_node bs xid xs) 24 = Inr OBJECT_TYPE_BTREE_NODE"
  "rd16 (encode_node bs xid xs) 32 = Inr BTNODE_LEAF"
  "rd32 (encode_node bs xid xs) 36 = Inr (of_nat (length xs))"
  "rd16 (encode_node bs xid xs) 40 = Inr 0"
  "rd16 (encode_node bs xid xs) 42 = Inr (of_nat (8 * length xs))"
  "rd64 (encode_node bs xid xs) 16 = Inr xid"
  and encoded_tail: "holds_at (encode_node bs xid xs) 56
     (encode_toc 0 0 xs @ encode_keys xs @
      replicate (unat bs - (56 + 8 * length xs + length (encode_keys xs) + length (encode_values xs))) 0 @
      encode_values xs)"
proof -
  let ?m = "encode_node bs xid xs" and ?ck = "of_nat (fl_reference (words_of (encode_body bs xid xs))) :: u64"
  have "holds_at ?m 0 ?m" using holds_atI [of "[]" 0 ?m "[]"] by simp
  then have h: "holds_at ?m 0 (le_bytes 8 ?ck @ encode_body bs xid xs)" by (simp only: encode_node_def)
  show "rd64 ?m 0 = Inr ?ck" by (rule rd_held(3) [OF holds_at_append(1) [OF h] refl])
  note h = holds_at_append(2) [OF h, unfolded encode_body_def]
  note h = holds_at_append(2) [OF h]
  show "rd64 ?m 16 = Inr xid" by (rule rd_held(3) [OF holds_at_append(1) [OF h]]) simp
  note h = holds_at_append(2) [OF h]
  show "rd32 ?m 24 = Inr OBJECT_TYPE_BTREE_NODE" by (rule rd_held(2) [OF holds_at_append(1) [OF h]]) simp
  note h = holds_at_append(2) [OF holds_at_append(2) [OF h]]
  show "rd16 ?m 32 = Inr BTNODE_LEAF" by (rule rd_held(1) [OF holds_at_append(1) [OF h]]) simp
  note h = holds_at_append(2) [OF holds_at_append(2) [OF h]]
  show "rd32 ?m 36 = Inr (of_nat (length xs))" by (rule rd_held(2) [OF holds_at_append(1) [OF h]]) simp
  note h = holds_at_append(2) [OF h]
  show "rd16 ?m 40 = Inr 0" by (rule rd_held(1) [OF holds_at_append(1) [OF h]]) simp
  note h = holds_at_append(2) [OF h]
  show "rd16 ?m 42 = Inr (of_nat (8 * length xs))" by (rule rd_held(1) [OF holds_at_append(1) [OF h]]) simp
  note h = holds_at_append(2) [OF holds_at_append(2) [OF h]]
  show "holds_at ?m 56 (encode_toc 0 0 xs @ encode_keys xs @
      replicate (unat bs - (56 + 8 * length xs + length (encode_keys xs) + length (encode_values xs))) 0 @
      encode_values xs)"
    using h by simp
qed

lemma encoded_parts:
  "holds_at (encode_node bs xid xs) 56 (encode_toc 0 0 xs)"
  "holds_at (encode_node bs xid xs) (56 + 8 * int (length xs)) (encode_keys xs)"
  "fits_node bs xs \<Longrightarrow> holds_at (encode_node bs xid xs) (uint bs - int (length (encode_values xs))) (encode_values xs)"
proof -
  let ?m = "encode_node bs xid xs"
  note h = encoded_tail [where bs = bs and xid = xid and xs = xs]
  show "holds_at ?m 56 (encode_toc 0 0 xs)" by (rule holds_at_append(1) [OF h])
  note h = holds_at_append(2) [OF h]
  then show "holds_at ?m (56 + 8 * int (length xs)) (encode_keys xs)" using holds_at_append(1) [OF h] by simp
  note h = holds_at_append(2) [OF holds_at_append(2) [OF h]]
  let ?gap = "unat bs - (56 + 8 * length xs + length (encode_keys xs) + length (encode_values xs))"
  assume "fits_node bs xs"
  then have le: "56 + 8 * length xs + length (encode_keys xs) + length (encode_values xs) \<le> unat bs"
    by (simp only: fits_node_def)
  have "56 + int (length (encode_toc 0 0 xs)) + int (length (encode_keys xs)) + int (length (replicate ?gap (0 :: u8))) =
      uint bs - int (length (encode_values xs))"
    unfolding length_encode_toc length_replicate uint_nat using le by linarith
  with h show "holds_at ?m (uint bs - int (length (encode_values xs))) (encode_values xs)" by (simp only:)
qed

lemma encoded_block_valid:
  assumes "fits_node bs xs"
  shows "block_valid bs (encode_node bs xid xs) = Inr True"
proof -
  let ?b = "encode_body bs xid xs" and ?m = "encode_node bs xid xs"
  let ?n = "ucast (ucast bs - MAX_CKSUM_SIZE) :: u32"
  have bs: "unat bs < 65536" "56 \<le> unat bs" using assms by (auto simp: fits_node_def)
  have n: "unat ?n = unat bs - 8"
  proof -
    have u: "unat (ucast bs :: u64) = unat bs"
      using bs(1) by (simp add: unsigned_ucast_eq take_bit_nat_eq_self)
    have "unat (ucast bs - 8 :: u64) = unat bs - 8"
      using bs(2) by (subst unat_sub) (simp_all add: word_le_nat_alt u)
    then show ?thesis using bs by (simp add: MAX_CKSUM_SIZE_def unsigned_ucast_eq take_bit_nat_eq_self)
  qed
  have buf: "in_buf ?m (uint MAX_CKSUM_SIZE) (4 * (unat ?n div 4))"
  proof -
    have "8 + 4 * ((unat bs - 8) div 4) \<le> unat bs" using bs(2) by linarith
    then have "int (8 + 4 * ((unat bs - 8) div 4)) \<le> int (unat bs)" by (simp only: of_nat_le_iff)
    then show ?thesis by (simp add: in_buf_def length_encode_node [OF assms] n) (simp add: MAX_CKSUM_SIZE_def)
  qed
  have "words_at ?m (int 8) (unat ?n div 4) = take (unat ?n div 4) (words_of (drop 8 ?m))"
    using bs by (intro words_at_words_of) (simp add: length_encode_node [OF assms] n)
  also have "drop 8 ?m = ?b" by (simp add: encode_node_def)
  finally have w: "words_at ?m 8 (unat ?n div 4) = words_of ?b"
    by (simp add: length_words_of length_encode_body [OF assms] n)
  from buf obtain r where r: "fletcher64 ?m (uint MAX_CKSUM_SIZE) ?n = Inr r"
    "unat r = fl_reference (words_at ?m (uint MAX_CKSUM_SIZE) (unat ?n div 4))"
    by (rule fletcher64_reference)
  have "uint MAX_CKSUM_SIZE = 8" by (simp add: MAX_CKSUM_SIZE_def)
  with r(2) w have "unat r = fl_reference (words_of ?b)" by simp
  then have "of_nat (fl_reference (words_of ?b)) = (of_nat (unat r) :: u64)" by (simp only:)
  also have "\<dots> = r" by simp
  finally have "r = of_nat (fl_reference (words_of ?b))" by (rule sym)
  with r(1) encoded_header(1,2) [where bs = bs and xid = xid and xs = xs] show ?thesis
    by (simp add: block_valid_def OBJECT_TYPE_BTREE_NODE_def)
qed

lemma encoded_pairs_read:
  assumes "fits_node bs xs"
  shows "node_pairs bs (encode_node bs xid xs) = Inr (encoded_pairs (56 + 8 * int (length xs)) (uint bs) xs)"
proof -
  let ?m = "encode_node bs xid xs"
  have b: "8 * length xs < 65536" "length (encode_keys xs) < 65536" "length (encode_values xs) < 65536"
    using assms by (simp_all add: fits_node_def)
  have n: "uint (of_nat (8 * length xs) :: u16) = 8 * int (length xs)"
    using uint_of_nat_u16 [OF b(1)] by simp
  have "unat (of_nat (length xs) :: u32) = length xs"
    using b(1) by (simp add: unsigned_of_nat take_bit_nat_eq_self)
  moreover have "BTNODE_LEAF AND BTNODE_ROOT = 0" "BTNODE_LEAF AND BTNODE_FIXED_KV_SIZE = 0"
    by (simp_all add: BTNODE_LEAF_def BTNODE_ROOT_def BTNODE_FIXED_KV_SIZE_def)
  moreover obtain locs where "toc_variable ?m 56 (length xs) = Inr locs"
    "map (\<lambda>loc. \<lparr>kv_key = (56 + 8 * int (length xs)) + uint (k_off loc), valueLength = uint (v_len loc),
       kv_value = uint bs - uint (v_off loc)\<rparr>) locs = encoded_pairs (56 + 8 * int (length xs)) (uint bs) xs"
    using toc_read_back [OF encoded_parts(1) [where bs = bs and xid = xid and xs = xs],
        of "56 + 8 * int (length xs)" "uint bs"] b by auto
  ultimately show ?thesis
    using encoded_header(3-7) [where bs = bs and xid = xid and xs = xs] n by (simp add: node_pairs_def Let_def)
qed

text \<open>Every list of records that fits a block is what a block holds.\<close>

lemma encoded_node_block:
  assumes "fits_node bs xs"
  shows "node_block bs (encode_node bs xid xs) xid xs"
proof -
  have "decode_items (encode_node bs xid xs) (encoded_pairs (56 + 8 * int (length xs)) (uint bs) xs) = Inr xs"
    using assms encoded_parts(2,3) by (intro items_read_back) (auto simp: fits_node_def)
  with encoded_block_valid [OF assms] encoded_pairs_read [OF assms] encoded_header [where bs = bs and xid = xid and xs = xs]
  show ?thesis
    by (simp add: node_block_def node_xid_def OBJECT_TYPE_BTREE_NODE_def OBJECT_TYPE_BTREE_def)
qed

end
