(* ===== verification/Volume.thy ===== *)
theory Volume
  imports Node_Encoding
begin

text \<open>
  What a volume is recovered to. A volume is a set of objects (files and directories), each with its
  inode record, the directory records of its children and its extents; a writer lays the records of
  whole objects out in leaf nodes, in any distribution over the nodes. The lemmas show that the
  effects of the nodes, in whatever order the nodes lie on the disk, add up to the catalog of the
  volume: nothing is lost and nothing is left over.
\<close>

section \<open>Objects\<close>

record fs_object =
  oid :: u64
  oparent :: u64
  olength :: "u64 option"
  okids :: "(u64 \<times> cpp_string \<times> u32) list"
  oextents :: "extent_row list"

definition object_records :: "fs_object \<Rightarrow> fs_record list" where
  "object_records ob = Inode_Rec (oid ob) (oparent ob) (olength ob)
     # map (\<lambda>(f, nam, t). Dir_Rec f nam t) (okids ob)
     @ map (\<lambda>(la, pb, len). Extent_Rec la pb len) (oextents ob)"

definition node_items :: "fs_object list \<Rightarrow> (u64 \<times> fs_record) list" where
  "node_items obs = concat (map (\<lambda>ob. map (Pair (oid ob)) (object_records ob)) obs)"

text \<open>
  Every object has an id of its own, every child is an object of the volume that knows its parent,
  and no object is listed twice.
\<close>

definition links :: "fs_object list \<Rightarrow> (u64 \<times> cpp_string \<times> u32) list" where
  "links obs = concat (map okids obs)"

definition volume_ok :: "fs_object list \<Rightarrow> bool" where
  "volume_ok obs \<longleftrightarrow> distinct (map oid obs) \<and> distinct (map fst (links obs)) \<and>
     (\<forall>ob \<in> set obs. \<forall>k \<in> set (okids ob). \<exists>kid \<in> set obs. oid kid = fst k \<and> oparent kid = oid ob)"

text \<open>The catalog of a volume that was written in transaction \<open>xid\<close>.\<close>

definition object_row :: "u64 \<Rightarrow> fs_object list \<Rightarrow> fs_object \<Rightarrow> entry_row" where
  "object_row xid obs ob =
     (let (nam, t) = (case map_of (links obs) (oid ob) of None \<Rightarrow> ([], 0) | Some l \<Rightarrow> l)
      in \<lparr>row_inode = oid ob, row_parent = oparent ob, row_version = xid, row_type = scast t,
          row_name = nam, row_length = (case olength ob of None \<Rightarrow> 0 | Some n \<Rightarrow> n),
          row_extver = (if oextents ob = [] then 0 else xid)\<rparr>)"

definition volume_catalog :: "u64 \<Rightarrow> fs_object list \<Rightarrow> catalog" where
  "volume_catalog xid obs = map_of (map (\<lambda>ob. (oid ob, (object_row xid obs ob, mset (oextents ob)))) obs)"

section \<open>Stages of the recovery\<close>

text \<open>
  The catalog when the inode records of \<open>I\<close>, the directory records of \<open>D\<close> and the extents \<open>X\<close>
  have been met, on the way to the catalog \<open>c\<close>.
\<close>

definition stage_row :: "u64 \<Rightarrow> u64 set \<Rightarrow> u64 set \<Rightarrow> (u64 \<Rightarrow> extent_row multiset) \<Rightarrow> u64 \<Rightarrow> entry_row \<Rightarrow> entry_row" where
  "stage_row xid I D X i r =
     r\<lparr>row_inode := i, row_version := xid, row_type := (if i \<in> D then row_type r else 0),
       row_name := (if i \<in> D then row_name r else []), row_length := (if i \<in> I then row_length r else 0),
       row_extver := (if X i = {#} then 0 else xid)\<rparr>"

definition stage :: "u64 \<Rightarrow> catalog \<Rightarrow> u64 set \<Rightarrow> u64 set \<Rightarrow> (u64 \<Rightarrow> extent_row multiset) \<Rightarrow> catalog" where
  "stage xid c I D X i =
     (if i \<in> I \<union> D then map_option (\<lambda>(r, _). (stage_row xid I D X i r, X i)) (c i) else None)"

lemma stage_inode:
  assumes "c i = Some (r, x)" "i \<notin> I" "X i = {#}" "row_parent r = p"
    "row_length r = (case len of None \<Rightarrow> 0 | Some n \<Rightarrow> n)"
  shows "spec_inode xid i p len (stage xid c I D X) = stage xid c (insert i I) D X"
proof
  fix j
  show "spec_inode xid i p len (stage xid c I D X) j = stage xid c (insert i I) D X j"
    using assms
    by (cases "j = i"; cases "i \<in> D"; cases r; cases len)
      (auto simp: spec_inode_def stage_def stage_row_def cat_get_def blank_row_def split: option.split)
qed

lemma stage_dirrec:
  assumes "c f = Some (r, x)" "f \<notin> I \<Longrightarrow> X f = {#}" "row_parent r = i" "row_name r = nam" "row_type r = scast t"
  shows "spec_dirrec xid (Some i) f nam t (stage xid c I D X) = stage xid c I (insert f D) X"
proof
  fix j
  show "spec_dirrec xid (Some i) f nam t (stage xid c I D X) j = stage xid c I (insert f D) X j"
    using assms
    by (cases "j = f"; cases "f \<in> I"; cases "f \<in> D"; cases r)
      (auto simp: spec_dirrec_def stage_def stage_row_def cat_get_def blank_row_def split: option.split)
qed

lemma stage_extent:
  assumes "c i = Some (r, x)" "i \<in> I"
  shows "spec_extent xid (Some i) la pb len (stage xid c I D X) =
    stage xid c I D (X(i := add_mset (la, pb, len) (X i)))"
proof
  fix j
  show "spec_extent xid (Some i) la pb len (stage xid c I D X) j =
      stage xid c I D (X(i := add_mset (la, pb, len) (X i))) j"
    using assms
    by (cases "j = i"; cases r)
      (auto simp: spec_extent_def stage_def stage_row_def cat_get_def split: option.split)
qed

section \<open>The records of an object\<close>

lemma stage_kids:
  assumes "\<And>f nam t. (f, nam, t) \<in> set ks \<Longrightarrow>
      \<exists>r x. c f = Some (r, x) \<and> row_parent r = i \<and> row_name r = nam \<and> row_type r = scast t"
    and "\<And>j. j \<notin> I \<Longrightarrow> X j = {#}"
  shows "fold (spec_record xid) (map (\<lambda>(f, nam, t). Dir_Rec f nam t) ks) (Some i, stage xid c I D X) =
    (Some i, stage xid c I (D \<union> fst ` set ks) X)"
  using assms(1)
proof (induction ks arbitrary: D)
  case (Cons k ks)
  obtain f nam t where k: "k = (f, nam, t)" by (cases k)
  then obtain r x where "c f = Some (r, x)" "row_parent r = i" "row_name r = nam" "row_type r = scast t"
    using Cons.prems [of f nam t] by auto
  then have "spec_dirrec xid (Some i) f nam t (stage xid c I D X) = stage xid c I (insert f D) X"
    using assms(2) by (intro stage_dirrec) simp_all
  with Cons.IH [of "insert f D"] Cons.prems show ?case by (simp add: k)
qed simp

lemma stage_extents:
  assumes "c i = Some (r, x)" "i \<in> I"
  shows "fold (spec_record xid) (map (\<lambda>(la, pb, len). Extent_Rec la pb len) es) (Some i, stage xid c I D X) =
    (Some i, stage xid c I D (X(i := X i + mset es)))"
proof (induction es arbitrary: X)
  case (Cons e es)
  obtain la pb len where e: "e = (la, pb, len)" by (cases e)
  let ?X = "X(i := add_mset (la, pb, len) (X i))"
  have X: "?X(i := ?X i + mset es) = X(i := X i + mset (e # es))" by (simp add: e)
  have "spec_extent xid (Some i) la pb len (stage xid c I D X) = stage xid c I D ?X"
    by (rule stage_extent [where c = c and i = i, OF assms])
  with Cons.IH [of ?X, unfolded X] show ?case by (simp only: list.map e fold_simps prod.case spec_record.simps)
qed simp

text \<open>The entries of the catalog of a volume.\<close>

lemma catalog_object:
  assumes "volume_ok obs" "ob \<in> set obs"
  shows "volume_catalog xid obs (oid ob) = Some (object_row xid obs ob, mset (oextents ob))"
  using assms unfolding volume_catalog_def volume_ok_def
  by (intro map_of_is_SomeI) (auto simp: comp_def image_iff)

lemma set_links: "k \<in> set (links obs) \<longleftrightarrow> (\<exists>ob \<in> set obs. k \<in> set (okids ob))"
  by (auto simp: links_def)

lemma ids_of_links: "fst ` set (links obs) = (\<Union>ob \<in> set obs. fst ` set (okids ob))"
  by (auto simp: links_def)

lemma catalog_kid:
  assumes "volume_ok obs" "ob \<in> set obs" "(f, nam, t) \<in> set (okids ob)"
  shows "\<exists>r x. volume_catalog xid obs f = Some (r, x) \<and> row_parent r = oid ob \<and> row_name r = nam \<and> row_type r = scast t"
proof -
  from assms obtain kid where kid: "kid \<in> set obs" "oid kid = f" "oparent kid = oid ob"
    unfolding volume_ok_def by fastforce
  have "map_of (links obs) f = Some (nam, t)"
    using assms by (intro map_of_is_SomeI) (auto simp: volume_ok_def set_links)
  with catalog_object [OF assms(1) kid(1), of xid] kid show ?thesis by (simp add: object_row_def)
qed

lemma stage_object:
  assumes vol: "volume_ok obs" "ob \<in> set obs" and new: "oid ob \<notin> I" and X: "\<And>j. j \<notin> I \<Longrightarrow> X j = {#}"
  shows "spec_group xid (object_records ob) (stage xid (volume_catalog xid obs) I D X) =
    stage xid (volume_catalog xid obs) (insert (oid ob) I) (D \<union> fst ` set (okids ob)) (X(oid ob := mset (oextents ob)))"
proof -
  let ?c = "volume_catalog xid obs" and ?I = "insert (oid ob) I"
  note c = catalog_object [OF vol, of xid]
  have 1: "spec_inode xid (oid ob) (oparent ob) (olength ob) (stage xid ?c I D X) = stage xid ?c ?I D X"
    using new X by (intro stage_inode [where c = ?c, OF c]) (simp_all add: object_row_def split: option.split prod.split)
  have 2: "fold (spec_record xid) (map (\<lambda>(f, nam, t). Dir_Rec f nam t) (okids ob)) (Some (oid ob), stage xid ?c ?I D X) =
      (Some (oid ob), stage xid ?c ?I (D \<union> fst ` set (okids ob)) X)"
    using catalog_kid [OF vol] X by (intro stage_kids) simp_all
  have 3: "fold (spec_record xid) (map (\<lambda>(la, pb, len). Extent_Rec la pb len) (oextents ob))
      (Some (oid ob), stage xid ?c ?I (D \<union> fst ` set (okids ob)) X) =
      (Some (oid ob), stage xid ?c ?I (D \<union> fst ` set (okids ob)) (X(oid ob := X (oid ob) + mset (oextents ob))))"
    by (rule stage_extents [where c = ?c, OF c]) simp
  show ?thesis
    using 1 2 3 X [OF new] by (simp add: spec_group_def object_records_def)
qed

section \<open>The objects that have been met\<close>

text \<open>The catalog when the records of the objects in \<open>I\<close> have been met, and no others.\<close>

definition recovered :: "u64 \<Rightarrow> fs_object list \<Rightarrow> u64 set \<Rightarrow> catalog" where
  "recovered xid obs I = stage xid (volume_catalog xid obs) I
     (fst ` set (links (filter (\<lambda>ob. oid ob \<in> I) obs)))
     (\<lambda>i. if i \<in> I then snd (the (volume_catalog xid obs i)) else {#})"

lemma recovered_none: "recovered xid obs {} = Map.empty"
  by (simp add: recovered_def stage_def links_def fun_eq_iff)

lemma recovered_object:
  assumes "volume_ok obs" "ob \<in> set obs" "oid ob \<notin> I"
  shows "spec_group xid (object_records ob) (recovered xid obs I) = recovered xid obs (insert (oid ob) I)"
proof -
  have d: "distinct (map oid obs)" using assms(1) by (simp add: volume_ok_def)
  have same: "ob' = ob" if "ob' \<in> set obs" "oid ob' = oid ob" for ob'
    using d that assms(2) by (metis distinct_map inj_onD)
  have "set (filter (\<lambda>ob'. oid ob' \<in> insert (oid ob) I) obs) = insert ob (set (filter (\<lambda>ob. oid ob \<in> I) obs))"
    using assms(2) same by auto
  then have "fst ` set (links (filter (\<lambda>ob'. oid ob' \<in> insert (oid ob) I) obs)) =
      fst ` set (links (filter (\<lambda>ob. oid ob \<in> I) obs)) \<union> fst ` set (okids ob)"
    by (simp add: ids_of_links Un_commute)
  moreover have "(\<lambda>i. if i \<in> insert (oid ob) I then snd (the (volume_catalog xid obs i)) else {#}) =
      (\<lambda>i. if i \<in> I then snd (the (volume_catalog xid obs i)) else {#})(oid ob := mset (oextents ob))"
    using catalog_object [OF assms(1,2), of xid] by auto
  ultimately show ?thesis
    unfolding recovered_def by (subst stage_object [OF assms]) simp_all
qed

lemma recovered_all:
  assumes "volume_ok obs" "oid ` set obs \<subseteq> I"
  shows "recovered xid obs I = volume_catalog xid obs"
proof
  fix i
  show "recovered xid obs I i = volume_catalog xid obs i"
  proof (cases "i \<in> oid ` set obs")
    case True
    then obtain ob where ob: "ob \<in> set obs" "oid ob = i" by blast
    have all: "filter (\<lambda>ob. oid ob \<in> I) obs = obs" using assms(2) by (auto intro: filter_True)
    have "i \<in> I" using assms(2) True by blast
    moreover have "i \<in> fst ` set (links obs) \<longleftrightarrow> map_of (links obs) i \<noteq> None"
      by (simp add: map_of_eq_None_iff)
    ultimately show ?thesis
      using catalog_object [OF assms(1) ob(1), of xid] ob(2)
      by (cases "map_of (links obs) i") (auto simp: recovered_def stage_def stage_row_def all object_row_def)
  next
    case False
    then have "volume_catalog xid obs i = None"
      by (auto simp: volume_catalog_def map_of_eq_None_iff image_iff)
    then show ?thesis by (simp add: recovered_def stage_def)
  qed
qed

section \<open>The nodes of a volume\<close>

text \<open>
  A node holds pieces of a volume, each a group of records with one id. What is shown of the recovery
  piece by piece holds of it node by node: \<open>st P c\<close> says that the catalog \<open>c\<close> has met the pieces
  in \<open>P\<close>.
\<close>

locale piece_by_piece =
  fixes xid :: u64 and ident :: "'p \<Rightarrow> u64" and recs :: "'p \<Rightarrow> fs_record list"
    and fine :: "'p \<Rightarrow> bool" and st :: "'p set \<Rightarrow> catalog \<Rightarrow> bool"
  assumes some: "fine p \<Longrightarrow> recs p \<noteq> []"
    and piece: "fine p \<Longrightarrow> p \<notin> P \<Longrightarrow> st P c \<Longrightarrow> st (insert p P) (spec_group xid (recs p) c)"
begin

lemma item_ids:
  "(\<And>p. p \<in> set ps \<Longrightarrow> fine p) \<Longrightarrow> fst ` set (concat (map (\<lambda>p. map (Pair (ident p)) (recs p)) ps)) = ident ` set ps"
proof (induction ps)
  case (Cons p ps)
  then have "recs p \<noteq> []" by (intro some) simp
  then have "fst ` set (map (Pair (ident p)) (recs p)) = {ident p}" by (cases "recs p") auto
  with Cons show ?case by (simp add: image_Un)
qed simp

lemma records_of_piece:
  assumes "distinct (map ident ps)" "p \<in> set ps"
  shows "records_of (ident p) (concat (map (\<lambda>p. map (Pair (ident p)) (recs p)) ps)) = recs p"
  using assms
proof (induction ps)
  case (Cons q ps)
  have other: "records_of i (concat (map (\<lambda>p. map (Pair (ident p)) (recs p)) xs)) = []" if "i \<notin> ident ` set xs" for i xs
    using that by (auto simp: records_of_def filter_empty_conv)
  have split: "records_of i (concat (map (\<lambda>p. map (Pair (ident p)) (recs p)) (q # ps))) =
      (if i = ident q then recs q else []) @ records_of i (concat (map (\<lambda>p. map (Pair (ident p)) (recs p)) ps))" for i
    by (simp add: records_of_def filter_map comp_def)
  show ?case
  proof (cases "p = q")
    case True
    then have "ident p \<notin> ident ` set ps" using Cons.prems(1) by simp
    with True split [of "ident p"] other [of "ident p" ps] show ?thesis by simp
  next
    case False
    with Cons.prems have "p \<in> set ps" "ident p \<noteq> ident q" by (auto simp: image_iff)
    with Cons split [of "ident p"] show ?thesis by simp
  qed
qed simp

lemma pieces:
  assumes "\<And>p. p \<in> set ps \<Longrightarrow> fine p" "distinct (map ident ps)"
    and "distinct qs" "set qs \<subseteq> set ps" "set qs \<inter> P = {}" "st P c"
  shows "st (P \<union> set qs) (fold (\<lambda>i. spec_group xid (records_of i (concat (map (\<lambda>p. map (Pair (ident p)) (recs p)) ps))))
    (map ident qs) c)"
  using assms(3-6)
proof (induction qs arbitrary: P c)
  case (Cons q qs)
  have "st (insert q P) (spec_group xid (recs q) c)" using assms(1) Cons.prems(2-4) by (intro piece) auto
  with Cons.IH [of "insert q P"] Cons.prems show ?case by (simp add: records_of_piece [OF assms(2)])
qed simp

lemma node:
  assumes "\<And>p. p \<in> set ps \<Longrightarrow> fine p" "distinct (map ident ps)" "set ps \<inter> P = {}" "st P c"
  shows "st (P \<union> set ps) (spec_node xid (concat (map (\<lambda>p. map (Pair (ident p)) (recs p)) ps)) c)"
proof -
  let ?items = "concat (map (\<lambda>p. map (Pair (ident p)) (recs p)) ps)"
  let ?ids = "sort (remdups (map fst ?items))" and ?f = "the_inv_into (set ps) ident"
  have inj: "inj_on ident (set ps)" using assms(2) by (simp add: distinct_map)
  have ids: "set ?ids = ident ` set ps" using item_ids [OF assms(1)] by simp
  have "map ident (map ?f ?ids) = ?ids"
    unfolding map_map comp_def by (rule map_idI) (use f_the_inv_into_f [OF inj] ids in blast)
  moreover have "set (map ?f ?ids) = set ps"
    using ids the_inv_into_onto [OF inj] by simp
  moreover have "distinct (map ?f ?ids)"
    using ids inj_on_the_inv_into [OF inj] by (simp add: distinct_map)
  ultimately show ?thesis
    using pieces [OF assms(1,2), of "map ?f ?ids" P c] assms(3,4) unfolding spec_node_def by simp
qed

end

interpretation exactly: piece_by_piece xid oid object_records "\<lambda>ob. ob \<in> set obs"
  "\<lambda>P c. volume_ok obs \<and> P \<subseteq> set obs \<and> c = recovered xid obs (oid ` P)" for xid obs
proof
  fix p P c assume p: "p \<in> set obs" "p \<notin> P" and P: "volume_ok obs \<and> P \<subseteq> set obs \<and> c = recovered xid obs (oid ` P)"
  then have "inj_on oid (set obs)" by (simp add: volume_ok_def distinct_map)
  then have "oid p \<notin> oid ` P" using p P by (auto dest: inj_onD)
  with p P show "volume_ok obs \<and> insert p P \<subseteq> set obs \<and> spec_group xid (object_records p) c = recovered xid obs (oid ` insert p P)"
    by (simp add: recovered_object)
qed (simp add: object_records_def)

lemma recovered_nodes:
  assumes "volume_ok obs" "set (concat nodes) \<subseteq> set obs" "distinct (map oid (concat nodes))"
    "set (concat nodes) \<inter> P = {}" "P \<subseteq> set obs"
  shows "fold (\<lambda>f c. f c) (map (\<lambda>os. spec_node xid (node_items os)) nodes) (recovered xid obs (oid ` P)) =
    recovered xid obs (oid ` (P \<union> set (concat nodes)))"
  using assms(2-5)
proof (induction nodes arbitrary: P)
  case (Cons os nodes)
  have "set os \<inter> P = {}" "set os \<subseteq> set obs" "distinct (map oid os)" using Cons.prems by auto
  then have os: "spec_node xid (node_items os) (recovered xid obs (oid ` P)) = recovered xid obs (oid ` (P \<union> set os))"
    using exactly.node [of os obs P "recovered xid obs (oid ` P)" xid] assms(1) Cons.prems(4)
    by (auto simp: node_items_def)
  have "set os \<inter> set (concat nodes) = {}" using Cons.prems(2) by auto
  then have "set (concat nodes) \<inter> (P \<union> set os) = {}" using Cons.prems(3) by auto
  then show ?case
    using Cons.IH [of "P \<union> set os"] Cons.prems os by (simp add: Un_assoc)
qed simp

text \<open>The nodes of a volume recover its catalog.\<close>

lemma volume_recovered:
  assumes "volume_ok (concat nodes)"
  shows "fold (\<lambda>f c. f c) (map (\<lambda>os. spec_node xid (node_items os)) nodes) Map.empty =
    volume_catalog xid (concat nodes)"
proof -
  have "distinct (map oid (concat nodes))" using assms by (simp add: volume_ok_def)
  from recovered_nodes [OF assms subset_refl this, of "{}" xid] show ?thesis
    using recovered_all [OF assms, of "oid ` set (concat nodes)" xid] by (simp add: recovered_none)
qed

end
