(* ===== verification/Recovery.thy ===== *)
theory Recovery
  imports Filehunter Fuse_Session Volume
begin

text \<open>
  From the disk to the mounted files: \<open>filehunter\<close> scans an image on which the nodes of a volume lie
  among other blocks, and \<open>sbbfuse\<close> serves the database it leaves.
\<close>

section \<open>Images\<close>

text \<open>
  \<open>lays_out xid nodes blocks\<close>: the blocks hold the nodes, whole objects in each, written in
  transaction \<open>xid\<close>, and between them blocks the scanner makes nothing of: superblocks of the same
  block size, objects of other kinds, the data of files and free space, whatever has no valid checksum.
\<close>

inductive lays_out :: "u64 \<Rightarrow> fs_object list list \<Rightarrow> u8 list list \<Rightarrow> bool" for xid where
  finished: "lays_out xid [] []"
| node: "fits_node 4096 (node_items os) \<Longrightarrow> lays_out xid nodes blocks \<Longrightarrow>
    lays_out xid (os # nodes) (encode_node 4096 xid (node_items os) # blocks)"
| other: "b \<noteq> [] \<Longrightarrow> clean_block 4096 b (\<lambda>c. c) \<Longrightarrow> lays_out xid nodes blocks \<Longrightarrow>
    lays_out xid nodes (b # blocks)"

text \<open>The effects of the blocks are those of the nodes.\<close>

lemma lays_out_effects:
  assumes "lays_out xid nodes blocks"
  obtains fs where "list_all2 (\<lambda>b f. b \<noteq> [] \<and> clean_block 4096 b f) blocks fs"
    "\<forall>c. fold (\<lambda>f c. f c) fs c = fold (\<lambda>f c. f c) (map (\<lambda>os. spec_node xid (node_items os)) nodes) c"
proof -
  have "\<exists>fs. list_all2 (\<lambda>b f. b \<noteq> [] \<and> clean_block 4096 b f) blocks fs \<and>
      (\<forall>c. fold (\<lambda>f c. f c) fs c = fold (\<lambda>f c. f c) (map (\<lambda>os. spec_node xid (node_items os)) nodes) c)"
    using assms
  proof induction
    case finished
    show ?case by (rule exI [of _ "[]"]) simp
  next
    case (node os nodes blocks)
    then obtain fs where "list_all2 (\<lambda>b f. b \<noteq> [] \<and> clean_block 4096 b f) blocks fs"
      "\<forall>c. fold (\<lambda>f c. f c) fs c = fold (\<lambda>f c. f c) (map (\<lambda>os. spec_node xid (node_items os)) nodes) c" by blast
    moreover have "clean_block 4096 (encode_node 4096 xid (node_items os)) (spec_node xid (node_items os))"
      by (rule clean_block.node [OF encoded_node_block [OF node.hyps(1)]])
    moreover have "encode_node 4096 xid (node_items os) \<noteq> []"
      using length_encode_node [OF node.hyps(1), of xid] by auto
    ultimately show ?case by (intro exI [of _ "spec_node xid (node_items os) # fs"]) simp
  next
    case (other b nodes blocks)
    then obtain fs where "list_all2 (\<lambda>b f. b \<noteq> [] \<and> clean_block 4096 b f) blocks fs"
      "\<forall>c. fold (\<lambda>f c. f c) fs c = fold (\<lambda>f c. f c) (map (\<lambda>os. spec_node xid (node_items os)) nodes) c" by blast
    with other.hyps show ?case by (intro exI [of _ "(\<lambda>c. c) # fs"]) simp
  qed
  then obtain fs where fs: "list_all2 (\<lambda>b f. b \<noteq> [] \<and> clean_block 4096 b f) blocks fs"
    "\<forall>c. fold (\<lambda>f c. f c) fs c = fold (\<lambda>f c. f c) (map (\<lambda>os. spec_node xid (node_items os)) nodes) c" by blast
  show thesis by (rule that [OF fs])
qed

lemma lays_out_volume:
  assumes "lays_out xid nodes blocks" "volume_ok (concat nodes)"
  obtains fs where "list_all2 (\<lambda>b f. b \<noteq> [] \<and> clean_block 4096 b f) blocks fs"
    "fold (\<lambda>f c. f c) fs Map.empty = volume_catalog xid (concat nodes)"
proof -
  obtain fs where fs: "list_all2 (\<lambda>b f. b \<noteq> [] \<and> clean_block 4096 b f) blocks fs"
    "\<forall>c. fold (\<lambda>f c. f c) fs c = fold (\<lambda>f c. f c) (map (\<lambda>os. spec_node xid (node_items os)) nodes) c"
    by (rule lays_out_effects [OF assms(1)])
  show thesis using fs(2) volume_recovered [OF assms(2), of xid] by (intro that [OF fs(1)]) simp
qed

section \<open>An example volume\<close>

text \<open>The root and a file \<open>a\<close> of five bytes in one extent, each in a node of its own.\<close>

definition ex_dir :: fs_object where
  "ex_dir = \<lparr>oid = 2, oparent = 1, olength = None, okids = [(16, [97], 8)], oextents = []\<rparr>"

definition ex_leaf :: fs_object where
  "ex_leaf = \<lparr>oid = 16, oparent = 2, olength = Some 5, okids = [], oextents = [(0, 40, 4096)]\<rparr>"

definition ex_image_blocks :: "u8 list list" where
  "ex_image_blocks = [encode_node 4096 7 (node_items [ex_leaf]), replicate 4096 0, encode_node 4096 7 (node_items [ex_dir])]"

lemmas ex_volume_defs = node_items_def object_records_def ex_dir_def ex_leaf_def

lemma ex_volume_ok: "volume_ok (concat [[ex_leaf], [ex_dir]])"
  by (simp add: volume_ok_def links_def ex_dir_def ex_leaf_def)

lemma ex_fits: "fits_node 4096 (node_items [ex_leaf])" "fits_node 4096 (node_items [ex_dir])"
  by (simp_all add: fits_node_def ex_volume_defs encode_key_def encode_value_def record_ok_def
      OBJ_TYPE_MASK_def J_FILE_EXTENT_LEN_MASK_def DREC_TYPE_MASK_def)

lemma ex_lays_out: "lays_out 7 [[ex_leaf], [ex_dir]] ex_image_blocks"
proof -
  have "replicate 4096 (0 :: u8) \<noteq> []" by simp
  then show ?thesis
    unfolding ex_image_blocks_def
    by (intro lays_out.node lays_out.other lays_out.finished ex_fits ex_zero_clean)
qed

definition ex_root_row :: entry_row where
  "ex_root_row = \<lparr>row_inode = 2, row_parent = 1, row_version = 7, row_type = 0, row_name = [],
     row_length = 0, row_extver = 0\<rparr>"

definition ex_leaf_row :: entry_row where
  "ex_leaf_row = \<lparr>row_inode = 16, row_parent = 2, row_version = 7, row_type = 8, row_name = [97],
     row_length = 5, row_extver = 7\<rparr>"

lemma ex_volume_catalog:
  "volume_catalog 7 (concat [[ex_leaf], [ex_dir]]) = [2 \<mapsto> (ex_root_row, {#}), 16 \<mapsto> (ex_leaf_row, {#(0, 40, 4096)#})]"
  by (simp add: volume_catalog_def object_row_def links_def ex_dir_def ex_leaf_def ex_root_row_def ex_leaf_row_def
      fun_eq_iff)

section \<open>Properties\<close>

text \<open>
  C6. A node is read back. Every list of records that fits a block, laid out as the format says in a
  leaf node of transaction \<open>xid\<close>, is scanned without a fault by a scanner of the same block size,
  and the catalog changes as the records say.
\<close>
theorem node_round_trip:
  assumes "sql_store db ents exts good" and "fs_inv ents exts good fs"
    and "fits_node (m_currentBlockSize sc) items"
  shows "\<exists>ids fs'. scanBlock db pos (encode_node (m_currentBlockSize sc) xid items) (sc, fs) =
      Inr (sc\<lparr>m_objId2inode := ids\<rparr>, fs') \<and> fs_inv ents exts good fs' \<and>
    catalog_of ents exts (m_database fs') = spec_node xid items (catalog_of ents exts (m_database fs))"
proof -
  obtain ids fs' where "scanBlock db pos (encode_node (m_currentBlockSize sc) xid items) (sc, fs) =
      Inr (sc\<lparr>m_objId2inode := ids\<rparr>, fs')" "fs_inv ents exts good fs'"
    "catalog_of ents exts (m_database fs') = spec_node xid items (catalog_of ents exts (m_database fs))"
    by (rule sql_store.scanBlock_refines [OF assms(1,2) encoded_node_block [OF assms(3)]])
  then show ?thesis by blast
qed

theorem node_round_trip_witness:
  "\<exists>ids fs'. scanBlock mem_db 0 (encode_node 4096 7 [(16, Inode_Rec 16 2 (Some 5)), (16, Extent_Rec 0 40 4096)])
       (new_scanner, init mem_db no_tables) = Inr (new_scanner\<lparr>m_objId2inode := ids\<rparr>, fs') \<and>
     catalog_of mem_ents mem_exts (m_database fs') = [16 \<mapsto> (\<lparr>row_inode = 16, row_parent = 2, row_version = 7,
       row_type = 0, row_name = [], row_length = 5, row_extver = 7\<rparr>, {#(0, 40, 4096)#})]"
proof -
  let ?items = "[(16, Inode_Rec 16 2 (Some 5)), (16, Extent_Rec 0 40 4096)]"
  have sz: "m_currentBlockSize new_scanner = 4096" by (simp add: new_scanner_def)
  have fits: "fits_node (m_currentBlockSize new_scanner) ?items"
    unfolding sz by (simp add: fits_node_def encode_key_def encode_value_def record_ok_def OBJ_TYPE_MASK_def J_FILE_EXTENT_LEN_MASK_def)
  have spec: "spec_node 7 ?items Map.empty = [16 \<mapsto> (\<lparr>row_inode = 16, row_parent = 2, row_version = 7,
       row_type = 0, row_name = [], row_length = 5, row_extver = 7\<rparr>, {#(0, 40, 4096)#})]"
    by (simp add: spec_node_def records_of_def spec_group_def spec_inode_def spec_extent_def cat_get_def
        blank_row_def fun_eq_iff)
  have "fs_inv mem_ents mem_exts mem_good (init mem_db no_tables)" by (rule ex_empty_inv)
  from node_round_trip [OF mem.sql_store_axioms this fits, of 0 7] show ?thesis
    unfolding sz ex_empty_catalog spec by blast
qed

text \<open>
  C4. A volume is recovered. When the nodes of a volume lie on an image in any order and among any
  other blocks that carry no records, whole objects in each node, then \<open>filehunter\<close> leaves exactly
  the catalog of the volume in its database, with every object, name, length and extent, nothing
  else, and prints its tree.
\<close>
theorem volume_is_recovered:
  assumes "sql_store db ents exts good" and "db_inv ents exts good (open_db (argv ! 2))"
    and "m_scanners raw = []" and "2 < length argv"
    and "lays_out xid nodes blocks" and "volume_ok (concat nodes)" and "scan_end ending"
    and "\<And>i j. child_of (volume_catalog xid (concat nodes)) i j \<Longrightarrow> rank j < (rank i :: nat)"
    and "rank 2 < fuel"
  shows "\<exists>ls d. filehunter_main db open_disk open_db raw fuel
      (Call_Scan # map (\<lambda>b. Iterate (Read_Bytes b [])) blocks @ ending) argv = Some (Inr (0, ls, Some d)) \<and>
    catalog_of ents exts d = volume_catalog xid (concat nodes) \<and> prints_tree (volume_catalog xid (concat nodes)) ls"
proof -
  obtain fs where fs: "list_all2 (\<lambda>b f. b \<noteq> [] \<and> clean_block 4096 b f) blocks fs"
    "fold (\<lambda>f c. f c) fs Map.empty = volume_catalog xid (concat nodes)"
    by (rule lays_out_volume [OF assms(5,6)])
  obtain ls d where "filehunter_main db open_disk open_db raw fuel
      (Call_Scan # map (\<lambda>b. Iterate (Read_Bytes b [])) blocks @ ending) argv = Some (Inr (0, ls, Some d))"
    "catalog_of ents exts d = volume_catalog xid (concat nodes)" "prints_tree (volume_catalog xid (concat nodes)) ls"
    by (rule sql_store.main_recovers [where open_db = open_db and open_disk = open_disk
        and c = "volume_catalog xid (concat nodes)", OF assms(1-4) fs(1) assms(7) fs(2) runs_out_ranked [where rank = rank, OF assms(8,9)]])
  then show ?thesis by blast
qed

lemma ex_rank:
  assumes "child_of (volume_catalog 7 (concat [[ex_leaf], [ex_dir]])) i j"
  shows "(if j = 1 then 2 else if j = 2 then 1 else 0 :: nat) < (if i = 1 then 2 else if i = 2 then 1 else 0)"
  using assms unfolding ex_volume_catalog
  by (auto simp: child_of_def ex_root_row_def ex_leaf_row_def split: if_splits)

lemma ex_tree:
  assumes tree: "prints_tree [2 \<mapsto> (ex_root_row, {#}), 16 \<mapsto> (ex_leaf_row, {#(0, 40, 4096)#})] ts"
  shows "ts = [TitleLine, EntryLine 0 2 [] 0 0, EntryLine 1 16 [97] 8 5, ExtentLine 1 0 40 4096]"
proof -
  let ?c = "[2 \<mapsto> (ex_root_row, {#}), 16 \<mapsto> (ex_leaf_row, {#(0, 40, 4096)#})] :: catalog"
  have kids: "{j. child_of ?c 2 j} = {16}" "{j. child_of ?c 16 j} = {}"
    by (auto simp: child_of_def ex_root_row_def ex_leaf_row_def split: if_splits)
  have leaf: "ls = [EntryLine 1 16 [97] 8 5, ExtentLine 1 0 40 4096]" if "prints ?c (Suc 0) 16 ls" for ls
  proof -
    from that obtain ks lss where k: "set ks = {j. child_of ?c 16 j}" "list_all2 (prints ?c (Suc (Suc 0))) ks lss"
      "ls = [EntryLine 1 16 [97] 8 5, ExtentLine 1 0 40 4096] @ concat lss"
      by (cases rule: prints.cases) (auto simp: ex_leaf_row_def)
    then show ?thesis unfolding kids(2) by simp
  qed
  from tree obtain ls where ts: "ts = TitleLine # ls" "prints ?c 0 2 ls" by (rule prints_treeE)
  from ts(2) obtain ks lss where k: "distinct ks" "set ks = {16}" "list_all2 (prints ?c (Suc 0)) ks lss"
    "ls = EntryLine 0 2 [] 0 0 # concat lss"
    using kids(1) by (cases rule: prints.cases) (auto simp: ex_root_row_def)
  then have "ks = [16]" by (simp add: distinct_singleton)
  with k(3) obtain l where "lss = [l]" "prints ?c (Suc 0) 16 l" by (auto simp: list_all2_Cons1)
  with leaf [of l] k(4) ts(1) show ?thesis by simp
qed

theorem volume_is_recovered_witness:
  "\<exists>d. filehunter_main mem_db (\<lambda>_. 3) (\<lambda>_. no_tables) ex_disk 2
       (Call_Scan # map (\<lambda>b. Iterate (Read_Bytes b [])) ex_image_blocks @ [Iterate (Read_Bytes [] [])])
       [[102], [105], [100]] =
       Some (Inr (0, [TitleLine, EntryLine 0 2 [] 0 0, EntryLine 1 16 [97] 8 5, ExtentLine 1 0 40 4096], Some d)) \<and>
     catalog_of mem_ents mem_exts d = [2 \<mapsto> (ex_root_row, {#}), 16 \<mapsto> (ex_leaf_row, {#(0, 40, 4096)#})]"
proof -
  have d: "db_inv mem_ents mem_exts mem_good ((\<lambda>_. no_tables) ([[102], [105], [100 :: u8]] ! 2))"
    using ex_no_tables by simp
  have n: "m_scanners ex_disk = []" "2 < length [[102], [105], [100 :: u8]]" by (simp_all add: ex_disk_def)
  have fuel: "(if 2 = (1 :: u64) then 2 else if 2 = (2 :: u64) then 1 else 0 :: nat) < 2" by simp
  from volume_is_recovered [where open_db = "\<lambda>_. no_tables" and open_disk = "\<lambda>_. 3" and argv = "[[102], [105], [100]]"
      and nodes = "[[ex_leaf], [ex_dir]]" and rank = "\<lambda>i. if i = 1 then 2 else if i = 2 then 1 else 0",
      OF mem.sql_store_axioms d n ex_lays_out ex_volume_ok scan_end.end_of_disk [of "[]"] ex_rank fuel]
  obtain ls d where r: "filehunter_main mem_db (\<lambda>_. 3) (\<lambda>_. no_tables) ex_disk 2
       (Call_Scan # map (\<lambda>b. Iterate (Read_Bytes b [])) ex_image_blocks @ [Iterate (Read_Bytes [] [])])
       [[102], [105], [100]] = Some (Inr (0, ls, Some d))"
    "catalog_of mem_ents mem_exts d = volume_catalog 7 (concat [[ex_leaf], [ex_dir]])"
    "prints_tree (volume_catalog 7 (concat [[ex_leaf], [ex_dir]])) ls" by blast
  from r(1,2) ex_tree [OF r(3) [unfolded ex_volume_catalog]] show ?thesis unfolding ex_volume_catalog by blast
qed

text \<open>
  C3. From the image to the files. The database that \<open>filehunter\<close> has written from an image with the
  nodes of a volume can be mounted by \<open>sbbfuse\<close>, when the volume has a root and no two names of a
  directory are the same (\<open>mountable\<close>). Then every sequence of requests on the same image, in which a
  file that is read has its extents in the image without a hole and a read asks for less than
  2 GB that end below \<open>2 ^ 64\<close> (\<open>servable\<close>), is answered as the volume determines: a path of the
  volume gives the attributes, the listing and the bytes of the object it leads to.
\<close>
theorem recovered_volume_served:
  assumes "sql_store db ents exts good" and "db_inv ents exts good (open_db (argv ! 2))"
    and "m_scanners raw = []" and "2 < length argv"
    and "lays_out xid nodes blocks" and "volume_ok (concat nodes)" and "scan_end ending"
    and "\<And>i j. child_of (volume_catalog xid (concat nodes)) i j \<Longrightarrow> rank j < (rank i :: nat)"
    and "rank 2 < fuel"
    and "mountable (volume_catalog xid (concat nodes))" and "image_device (pread fd) (concat blocks @ unread)"
    and "\<forall>req \<in> set reqs. servable (volume_catalog xid (concat nodes)) splitString (concat blocks @ unread) req"
  shows "\<exists>ls d replies d'. filehunter_main db open_disk open_db raw fuel
      (Call_Scan # map (\<lambda>b. Iterate (Read_Bytes b [])) blocks @ ending) argv = Some (Inr (0, ls, Some d)) \<and>
    sbb_main splitString db pread d fd raw' reqs = Inr (0, replies, d') \<and>
    list_all2 (answers (volume_catalog xid (concat nodes)) splitString (concat blocks @ unread)) reqs replies"
proof -
  obtain fs where fs: "list_all2 (\<lambda>b f. b \<noteq> [] \<and> clean_block 4096 b f) blocks fs"
    "fold (\<lambda>f c. f c) fs Map.empty = volume_catalog xid (concat nodes)"
    by (rule lays_out_volume [OF assms(5,6)])
  obtain ls d where main: "filehunter_main db open_disk open_db raw fuel
      (Call_Scan # map (\<lambda>b. Iterate (Read_Bytes b [])) blocks @ ending) argv = Some (Inr (0, ls, Some d))"
    "catalog_of ents exts d = volume_catalog xid (concat nodes)" "db_inv ents exts good d"
    by (rule sql_store.main_recovers [where open_db = open_db and open_disk = open_disk
        and c = "volume_catalog xid (concat nodes)", OF assms(1-4) fs(1) assms(7) fs(2) runs_out_ranked [where rank = rank, OF assms(8,9)]])
  obtain replies d' where "sbb_main splitString db pread d fd raw' reqs = Inr (0, replies, d')"
    "list_all2 (answers (volume_catalog xid (concat nodes)) splitString (concat blocks @ unread)) reqs replies"
    by (rule sql_store.sbb_main_serves [where pread = pread and fd = fd and splitString = splitString
        and d = d and ents = ents and exts = exts, unfolded main(2), OF assms(1) main(3) assms(10-12)])
  with main(1) show ?thesis by blast
qed

text \<open>The example image: behind the blocks that are scanned, \<open>n\<close> bytes, lies the data of the file.\<close>

definition ex_unread :: "nat \<Rightarrow> u8 list" where
  "ex_unread n = replicate (unat (image_offset ex_mapped) - n) 0 @ [1, 2, 3, 4, 5, 6] @ replicate 4090 0"

lemma ex_image_data:
  assumes "length scanned = n" "n \<le> 20480"
  shows "length (scanned @ ex_unread n) = unat (image_offset ex_mapped) + 4096"
    "drop (unat (image_offset ex_mapped)) (scanned @ ex_unread n) = [1, 2, 3, 4, 5, 6] @ replicate 4090 0"
proof -
  have o: "unat (image_offset ex_mapped) = 0xc82d000" by (simp add: image_offset_def ex_mapped_def)
  show "length (scanned @ ex_unread n) = unat (image_offset ex_mapped) + 4096"
    using assms by (simp add: ex_unread_def o)
  show "drop (unat (image_offset ex_mapped)) (scanned @ ex_unread n) = [1, 2, 3, 4, 5, 6] @ replicate 4090 0"
    using assms by (simp add: ex_unread_def o)
qed

lemma ex_image_well:
  assumes "length scanned = n" "n \<le> 20480"
  shows "well_mapped (scanned @ ex_unread n) 5 [ex_mapped]"
proof -
  have "unat (image_offset ex_mapped) = 0xc82d000" by (simp add: image_offset_def ex_mapped_def)
  then have "readable (scanned @ ex_unread n) ex_mapped"
    unfolding readable_def ex_image_data(1) [OF assms] by simp (simp add: ex_mapped_def)
  then show ?thesis by (simp add: well_mapped_def) (simp add: ex_mapped_def)
qed

lemma ex_image_content:
  assumes "length scanned = n" "n \<le> 20480"
  shows "file_content (scanned @ ex_unread n) 5 [ex_mapped] = [1, 2, 3, 4, 5]"
  unfolding file_content_def extent_bytes_def list.map concat.simps ex_image_data(2) [OF assms] by (simp add: ex_mapped_def)

lemma ex_blocks_length: "length (concat ex_image_blocks) = 12288"
  using length_encode_node [OF ex_fits(1), of 7] length_encode_node [OF ex_fits(2), of 7]
  by (simp add: ex_image_blocks_def)

definition ex_found :: catalog where
  "ex_found = [2 \<mapsto> (ex_root_row, {#}), 16 \<mapsto> (ex_leaf_row, {#(0, 40, 4096)#})]"

lemma ex_found_volume: "volume_catalog 7 (concat [[ex_leaf], [ex_dir]]) = ex_found"
  by (simp only: ex_found_def ex_volume_catalog)

lemma ex_found_lookup: "lookup_path ex_found [[97]] k x \<longleftrightarrow> k = 16 \<and> x = (ex_leaf_row, {#(0, 40, 4096)#})"
  unfolding lookup_path_def path_to_Cons path_to_Nil ex_found_def
  by (auto simp: ex_root_row_def ex_leaf_row_def split: if_splits)

lemma ex_found_mountable: "mountable ex_found"
  by (auto simp: mountable_def unique_names_def ex_found_def ex_root_row_def ex_leaf_row_def split: if_splits)

theorem recovered_volume_served_witness:
  "\<exists>ls d d'. filehunter_main mem_db (\<lambda>_. 3) (\<lambda>_. no_tables) ex_disk 2
       (Call_Scan # map (\<lambda>b. Iterate (Read_Bytes b [])) ex_image_blocks @ [Call_Stop, Iterate Read_Error])
       [[102], [105], [100]] = Some (Inr (0, ls, Some d)) \<and>
     sbb_main ex_split mem_db (\<lambda>_. image_pread (concat ex_image_blocks @ ex_unread 12288)) d 3 ex_disk
       [Read_Request [47, 97] 9 1] = Inr (0, [Read_Reply 4 (map Some [2, 3, 4, 5])], d')"
proof -
  let ?img = "concat ex_image_blocks @ ex_unread 12288"
  have d: "db_inv mem_ents mem_exts mem_good ((\<lambda>_. no_tables) ([[102], [105], [100 :: u8]] ! 2))"
    using ex_no_tables by simp
  have n: "m_scanners ex_disk = []" "2 < length [[102], [105], [100 :: u8]]" by (simp_all add: ex_disk_def)
  have fuel: "(if 2 = (1 :: u64) then 2 else if 2 = (2 :: u64) then 1 else 0 :: nat) < 2" by simp
  have len: "unat (row_length ex_leaf_row) = 5" by (simp add: ex_leaf_row_def)
  have x: "image_mset row_of_extent {#ex_mapped#} = {#(0, 40, 4096)#}" by (simp add: row_of_extent_def ex_mapped_def)
  have "servable ex_found ex_split ?img (Read_Request [47, 97] 9 1)"
    using x ex_image_well [OF ex_blocks_length] by (auto simp: servable_def ex_found_lookup len intro!: exI [of _ "[ex_mapped]"])
  then have ok: "\<forall>req \<in> set [Read_Request [47, 97] 9 1]. servable ex_found ex_split ?img req" by simp
  from recovered_volume_served [where open_db = "\<lambda>_. no_tables" and open_disk = "\<lambda>_. 3" and argv = "[[102], [105], [100]]"
      and nodes = "[[ex_leaf], [ex_dir]]" and rank = "\<lambda>i. if i = 1 then 2 else if i = 2 then 1 else 0"
      and pread = "\<lambda>_. image_pread ?img" and fd = 3 and unread = "ex_unread 12288" and xid = 7 and splitString = ex_split and raw' = ex_disk,
      unfolded ex_found_volume,
      OF mem.sql_store_axioms d n ex_lays_out ex_volume_ok scan_end.signal [of Read_Error] ex_rank [unfolded ex_found_volume]
        fuel ex_found_mountable image.image_device_axioms ok]
  obtain ls d replies d' where r: "filehunter_main mem_db (\<lambda>_. 3) (\<lambda>_. no_tables) ex_disk 2
       (Call_Scan # map (\<lambda>b. Iterate (Read_Bytes b [])) ex_image_blocks @ [Call_Stop, Iterate Read_Error])
       [[102], [105], [100]] = Some (Inr (0, ls, Some d))"
    "sbb_main ex_split mem_db (\<lambda>_. image_pread ?img) d 3 ex_disk [Read_Request [47, 97] 9 1] = Inr (0, replies, d')"
    "list_all2 (answers ex_found ex_split ?img) [Read_Request [47, 97] 9 1] replies" by blast
  have "reply = Read_Reply 4 (map Some [2, 3, 4, 5])" if "answers ex_found ex_split ?img (Read_Request [47, 97] 9 1) reply"
    for reply
    using that
  proof (cases rule: answers_readE [consumes 1, case_names missing found])
    case missing
    then show ?thesis by (simp add: ex_found_lookup)
  next
    case (found k row xs)
    then have k: "row = ex_leaf_row" "image_mset row_of_extent (mset xs) = {#(0, 40, 4096)#}"
      by (simp_all add: ex_found_lookup)
    from ex_mapped_only [OF k(2)] found(1) show ?thesis by (simp add: k(1) len ex_image_content [OF ex_blocks_length])
  qed
  with r(3) have "replies = [Read_Reply 4 (map Some [2, 3, 4, 5])]" by (auto simp: list_all2_Cons1)
  with r(1,2) show ?thesis by blast
qed

end
