(* ===== verification/Newest_Records.thy ===== *)
theory Newest_Records
  imports Volume
begin

text \<open>
  What a sequence of nodes leaves of one object, whatever else the nodes hold. The records of an
  object lie in different nodes, which a copy-on-write tree writes in different transactions: its
  inode record and extents in one node, the directory record that names it in another, and older
  versions of both anywhere on the disk. The lemmas follow one entry of the catalog through the nodes.
\<close>

section \<open>Entries\<close>

lemma cat_get_inode:
  "cat_get (spec_inode xid i p len c) j =
     (if j = i \<and> row_version (fst (cat_get c i)) \<le> xid
      then (fst (cat_get c i)\<lparr>row_parent := p, row_version := xid,
              row_length := (case len of None \<Rightarrow> row_length (fst (cat_get c i)) | Some n \<Rightarrow> n)\<rparr>, snd (cat_get c i))
      else cat_get c j)"
  by (auto simp: spec_inode_def cat_get_def split: option.split prod.split)

lemma cat_get_dirrec:
  "cat_get (spec_dirrec xid cur f nam t c) j =
     (if j = f \<and> row_version (fst (cat_get c f)) \<le> xid
      then (fst (cat_get c f)\<lparr>row_parent := (case cur of None \<Rightarrow> row_parent (fst (cat_get c f)) | Some i \<Rightarrow> i),
              row_name := nam, row_version := xid, row_type := scast t\<rparr>, snd (cat_get c f))
      else cat_get c j)"
  by (auto simp: spec_dirrec_def cat_get_def split: option.split prod.split)

lemma cat_get_extent:
  "fst (cat_get (spec_extent xid cur la pb len c) j) =
     (if cur = Some j \<and> row_extver (fst (cat_get c j)) \<le> xid
      then fst (cat_get c j)\<lparr>row_extver := xid\<rparr> else fst (cat_get c j))"
  by (auto simp: spec_extent_def cat_get_def split: option.split prod.split)

lemmas cat_get_record = cat_get_inode cat_get_dirrec cat_get_extent

text \<open>The inode a record makes an entry for.\<close>

fun makes_entry :: "fs_record \<Rightarrow> u64 option" where
  "makes_entry (Inode_Rec i p len) = Some i"
| "makes_entry (Extent_Rec la pb len) = None"
| "makes_entry (Dir_Rec f nam t) = Some f"
| "makes_entry Other_Rec = None"

section \<open>Walking through a node\<close>

text \<open>
  What every record of a node keeps, the node keeps; and what one of its records brings about holds
  after the node when the other records keep it.
\<close>

lemma records_walk:
  assumes "\<And>r cur c. r \<in> set rs \<Longrightarrow> cur = None \<or> cur = Some i \<Longrightarrow> P c \<Longrightarrow> P (snd (spec_record x r (cur, c)))"
    and "\<And>j p len. Inode_Rec j p len \<in> set rs \<Longrightarrow> j = i" and "cur = None \<or> cur = Some i" and "P c"
  shows "P (snd (fold (spec_record x) rs (cur, c))) \<and>
    (fst (fold (spec_record x) rs (cur, c)) = None \<or> fst (fold (spec_record x) rs (cur, c)) = Some i)"
  using assms
proof (induction rs arbitrary: cur c)
  case (Cons r rs)
  have "P (snd (spec_record x r (cur, c)))" using Cons.prems(1,3,4) by simp
  moreover have "fst (spec_record x r (cur, c)) = None \<or> fst (spec_record x r (cur, c)) = Some i"
    using Cons.prems(2,3) by (cases r) auto
  moreover have "P (snd (spec_record x q (cur, c)))" if "q \<in> set rs" "cur = None \<or> cur = Some i" "P c" for q cur c
    using Cons.prems(1) that by simp
  moreover have "j = i" if "Inode_Rec j p len \<in> set rs" for j p len
    using that by (intro Cons.prems(2) [of j p len]) simp
  ultimately show ?case
    using Cons.IH [of "fst (spec_record x r (cur, c))" "snd (spec_record x r (cur, c))"] by simp
qed simp

lemma group_walk:
  assumes "own_inodes items"
    and "\<And>i r cur c. (i, r) \<in> set items \<Longrightarrow> cur = None \<or> cur = Some i \<Longrightarrow> P c \<Longrightarrow> P (snd (spec_record x r (cur, c)))"
    and "P c"
  shows "P (spec_group x (records_of i items) c)"
  unfolding spec_group_def
  by (rule conjunct1 [OF records_walk [where i = i]]) (use assms in \<open>auto simp: records_of_def dest: own_inodesD\<close>)

lemma groups_walk:
  assumes "own_inodes items"
    and "\<And>i r cur c. (i, r) \<in> set items \<Longrightarrow> cur = None \<or> cur = Some i \<Longrightarrow> P c \<Longrightarrow> P (snd (spec_record x r (cur, c)))"
    and "P c"
  shows "P (fold (\<lambda>i. spec_group x (records_of i items)) ids c)"
  using assms(3) by (induction ids arbitrary: c) (simp_all add: group_walk [of items P, OF assms(1,2)])

lemma node_walk:
  assumes "own_inodes items"
    and "\<And>i r cur c. (i, r) \<in> set items \<Longrightarrow> cur = None \<or> cur = Some i \<Longrightarrow> P c \<Longrightarrow> P (snd (spec_record x r (cur, c)))"
    and "P c"
  shows "P (spec_node x items c)"
  unfolding spec_node_def by (rule groups_walk [of items P, OF assms])

lemma node_reach:
  assumes own: "own_inodes items" and item: "(i, r) \<in> set items" and "P c"
    and keep: "\<And>j q cur c. (j, q) \<in> set items \<Longrightarrow> cur = None \<or> cur = Some j \<Longrightarrow> P c \<Longrightarrow> P (snd (spec_record x q (cur, c)))"
    and hit: "\<And>cur c. cur = None \<or> cur = Some i \<Longrightarrow> P c \<Longrightarrow> Q (snd (spec_record x r (cur, c)))"
    and stay: "\<And>j q cur c. (j, q) \<in> set items \<Longrightarrow> cur = None \<or> cur = Some j \<Longrightarrow> Q c \<Longrightarrow> Q (snd (spec_record x q (cur, c)))"
  shows "Q (spec_node x items c)"
proof -
  let ?ids = "sort (remdups (map fst items))" and ?g = "\<lambda>i. spec_group x (records_of i items)"
  have "i \<in> set ?ids" using item by force
  from split_list [OF this] obtain before after where ids: "?ids = before @ i # after" by blast
  have "r \<in> set (records_of i items)" using item by (force simp: records_of_def)
  from split_list [OF this] obtain rs rs' where rs: "records_of i items = rs @ r # rs'" by blast
  have sub: "(i, q) \<in> set items" if "q \<in> set (rs @ r # rs')" for q
    using that unfolding rs [symmetric] by (auto simp: records_of_def)
  have inodes: "j = i" if "Inode_Rec j p len \<in> set (rs @ r # rs')" for j p len
    using sub [OF that] by (rule own_inodesD [OF own])
  let ?c = "fold ?g before c"
  have "P ?c" by (rule groups_walk [of items P, OF own keep assms(3)])
  moreover have "P (snd (spec_record x q (cur, c)))" if "q \<in> set rs" "cur = None \<or> cur = Some i" "P c" for q cur c
    using that by (intro keep [OF sub]) simp_all
  moreover have "j = i" if "Inode_Rec j p len \<in> set rs" for j p len
    using that by (intro inodes [of j p len]) simp
  ultimately have 1: "P (snd (fold (spec_record x) rs (None, ?c)))"
    "fst (fold (spec_record x) rs (None, ?c)) = None \<or> fst (fold (spec_record x) rs (None, ?c)) = Some i"
    using records_walk [of rs i P x None ?c] by simp_all
  let ?s = "fold (spec_record x) rs (None, ?c)"
  have 2: "Q (snd (spec_record x r ?s))" using hit [OF 1(2,1)] by simp
  have inode: "j = i" if "r = Inode_Rec j p len" for j p len using that by (intro inodes [of j p len]) simp
  have "fst (spec_record x r ?s) = None \<or> fst (spec_record x r ?s) = Some i"
    using 1(2) inode by (cases r; cases ?s) auto
  moreover have "Q (snd (spec_record x q (cur, c)))" if "q \<in> set rs'" "cur = None \<or> cur = Some i" "Q c" for q cur c
    using that by (intro stay [OF sub]) simp_all
  moreover have "j = i" if "Inode_Rec j p len \<in> set rs'" for j p len
    using that by (intro inodes [of j p len]) simp
  ultimately have "Q (snd (fold (spec_record x) rs' (fst (spec_record x r ?s), snd (spec_record x r ?s))))"
    using records_walk [of rs' i Q x "fst (spec_record x r ?s)" "snd (spec_record x r ?s)"] 2 by blast
  then have group: "Q (?g i ?c)" by (simp add: spec_group_def rs)
  have "Q (fold ?g after (?g i ?c))" by (rule groups_walk [of items Q, OF own stay group])
  then show ?thesis by (simp add: spec_node_def ids)
qed

section \<open>The newest records of an object\<close>

text \<open>
  The nodes that are scanned, in the order they lie on the disk, each with its transaction, and what
  they make of a catalog.
\<close>

type_synonym scanned_node = "u64 \<times> (u64 \<times> fs_record) list"

definition scan_nodes :: "scanned_node list \<Rightarrow> catalog \<Rightarrow> catalog" where
  "scan_nodes ns c = fold (\<lambda>(x, items). spec_node x items) ns c"

text \<open>The transactions of the newest inode record of an object, of the directory record that names it, and of its extents.\<close>

record newest_xids =
  inode_xid :: u64
  name_xid :: u64
  extent_xid :: u64

text \<open>
  A node says nothing newer of the object \<open>ob\<close>, whose name and type are \<open>l\<close>: an inode record or a
  directory record that names it is older than the newest one or says the same, and from the
  transaction of the inode record on it is found in one directory only (a file that is moved gets a
  new inode record). Extents may follow its inode record in any node that is not newer.
\<close>

definition inode_agrees :: "newest_xids \<Rightarrow> fs_object \<Rightarrow> scanned_node \<Rightarrow> bool" where
  "inode_agrees v ob = (\<lambda>(x, items). \<forall>i p len. (i, Inode_Rec (oid ob) p len) \<in> set items \<longrightarrow>
     x < inode_xid v \<or> x = inode_xid v \<and> p = oparent ob \<and> len = olength ob)"

definition name_agrees :: "newest_xids \<Rightarrow> fs_object \<Rightarrow> (cpp_string \<times> u32) option \<Rightarrow> scanned_node \<Rightarrow> bool" where
  "name_agrees v ob l = (\<lambda>(x, items). \<forall>i nam t. (i, Dir_Rec (oid ob) nam t) \<in> set items \<longrightarrow>
     (x < name_xid v \<or> x = name_xid v \<and> l = Some (nam, t)) \<and> (inode_xid v \<le> x \<longrightarrow> i = oparent ob))"

definition extents_agree :: "newest_xids \<Rightarrow> fs_object \<Rightarrow> scanned_node \<Rightarrow> bool" where
  "extents_agree v ob = (\<lambda>(x, items). counted_extents False (records_of (oid ob) items) = [] \<or> x \<le> extent_xid v)"

text \<open>
  An item is met in time when no node before it holds a newer inode record or directory record of the
  object: the two share one transaction number in the database.
\<close>

definition names_object :: "u64 \<Rightarrow> scanned_node \<Rightarrow> bool" where
  "names_object k = (\<lambda>(x, items). \<exists>r \<in> snd ` set items. makes_entry r = Some k)"

definition met_in_time :: "u64 \<Rightarrow> u64 \<Rightarrow> u64 \<times> fs_record \<Rightarrow> scanned_node list \<Rightarrow> bool" where
  "met_in_time k x item ns \<longleftrightarrow>
     (\<exists>before items after. ns = before @ (x, items) # after \<and> item \<in> set items \<and>
        (\<forall>n \<in> set before. names_object k n \<longrightarrow> fst n \<le> x))"

text \<open>The extents of the newest transaction lie in one node.\<close>

definition extents_once :: "newest_xids \<Rightarrow> fs_object \<Rightarrow> scanned_node list \<Rightarrow> bool" where
  "extents_once v ob ns \<longleftrightarrow>
     (\<exists>items. filter (\<lambda>(x, items). x = extent_xid v \<and> counted_extents False (records_of (oid ob) items) \<noteq> []) ns =
          [(extent_xid v, items)] \<and>
        mset (counted_extents False (records_of (oid ob) items)) = mset (oextents ob))"

definition settled_object :: "newest_xids \<Rightarrow> fs_object \<Rightarrow> (cpp_string \<times> u32) option \<Rightarrow> scanned_node list \<Rightarrow> bool" where
  "settled_object v ob l ns \<longleftrightarrow>
     0 < inode_xid v \<and> (\<forall>n \<in> set ns. inode_agrees v ob n \<and> name_agrees v ob l n) \<and>
     met_in_time (oid ob) (inode_xid v) (oid ob, Inode_Rec (oid ob) (oparent ob) (olength ob)) ns \<and>
     (\<forall>nam t. l = Some (nam, t) \<longrightarrow> met_in_time (oid ob) (name_xid v) (oparent ob, Dir_Rec (oid ob) nam t) ns) \<and>
     (oextents ob \<noteq> [] \<longrightarrow> 0 < extent_xid v \<and> (\<forall>n \<in> set ns. extents_agree v ob n) \<and> extents_once v ob ns)"

section \<open>What is kept of an entry\<close>

definition not_newer :: "u64 \<Rightarrow> u64 \<Rightarrow> catalog \<Rightarrow> bool" where
  "not_newer k x c \<longleftrightarrow> row_version (fst (cat_get c k)) \<le> x"

definition inode_kept :: "newest_xids \<Rightarrow> fs_object \<Rightarrow> catalog \<Rightarrow> bool" where
  "inode_kept v ob c \<longleftrightarrow> (let r = fst (cat_get c (oid ob)) in inode_xid v \<le> row_version r \<and>
     row_parent r = oparent ob \<and> (\<forall>n. olength ob = Some n \<longrightarrow> row_length r = n))"

definition name_kept :: "newest_xids \<Rightarrow> fs_object \<Rightarrow> cpp_string \<Rightarrow> u32 \<Rightarrow> catalog \<Rightarrow> bool" where
  "name_kept v ob nam t c \<longleftrightarrow> (let r = fst (cat_get c (oid ob)) in name_xid v \<le> row_version r \<and>
     row_name r = nam \<and> row_type r = scast t)"

lemma not_newer_record:
  assumes "makes_entry r = Some k \<longrightarrow> x \<le> y" "not_newer k y c"
  shows "not_newer k y (snd (spec_record x r (cur, c)))"
  using assms by (cases r) (auto simp: not_newer_def cat_get_record)

lemma inode_kept_record:
  assumes "inode_agrees v ob (x, items)" "name_agrees v ob l (x, items)" "(i, r) \<in> set items"
    "cur = None \<or> cur = Some i" "inode_kept v ob c"
  shows "inode_kept v ob (snd (spec_record x r (cur, c)))"
proof (cases "makes_entry r = Some (oid ob) \<and> not_newer (oid ob) x c")
  case True
  then have x: "inode_xid v \<le> x" using assms(5) by (auto simp: inode_kept_def not_newer_def Let_def intro: order_trans)
  show ?thesis
  proof (cases r)
    case (Inode_Rec j p len)
    with True assms(1,3) have "x < inode_xid v \<or> x = inode_xid v \<and> p = oparent ob \<and> len = olength ob" "j = oid ob"
      by (auto simp: inode_agrees_def)
    with x Inode_Rec assms(5) show ?thesis by (auto simp: inode_kept_def Let_def cat_get_inode)
  next
    case (Dir_Rec f nam t)
    with True assms(2,3) x have "i = oparent ob" "f = oid ob" by (auto simp: name_agrees_def)
    with x Dir_Rec assms(4,5) show ?thesis by (auto simp: inode_kept_def Let_def cat_get_dirrec)
  qed (use True in simp_all)
next
  case False
  with assms(5) show ?thesis by (cases r) (auto simp: inode_kept_def not_newer_def Let_def cat_get_record)
qed

lemma name_kept_record:
  assumes "name_agrees v ob (Some (nam, t)) (x, items)" "(i, r) \<in> set items" "name_kept v ob nam t c"
  shows "name_kept v ob nam t (snd (spec_record x r (cur, c)))"
proof (cases "makes_entry r = Some (oid ob) \<and> not_newer (oid ob) x c")
  case True
  then have x: "name_xid v \<le> x" using assms(3) by (auto simp: name_kept_def not_newer_def Let_def intro: order_trans)
  show ?thesis
  proof (cases r)
    case (Inode_Rec j p len)
    with x assms(3) show ?thesis by (auto simp: name_kept_def Let_def cat_get_inode)
  next
    case (Dir_Rec f nam' t')
    with True assms(1,2) have "x < name_xid v \<or> x = name_xid v \<and> nam' = nam \<and> t' = t" "f = oid ob"
      by (auto simp: name_agrees_def)
    with x Dir_Rec assms(3) show ?thesis by (auto simp: name_kept_def Let_def cat_get_dirrec)
  qed (use True in simp_all)
next
  case False
  with assms(3) show ?thesis by (cases r) (auto simp: name_kept_def not_newer_def Let_def cat_get_record)
qed

text \<open>The records that set the fields, when nothing newer has been met.\<close>

lemma inode_set:
  assumes "not_newer (oid ob) (inode_xid v) c"
  shows "inode_kept v ob (snd (spec_record (inode_xid v) (Inode_Rec (oid ob) (oparent ob) (olength ob)) (cur, c)))"
  using assms by (auto simp: inode_kept_def not_newer_def Let_def cat_get_inode)

lemma name_set:
  assumes "not_newer (oid ob) (name_xid v) c"
  shows "name_kept v ob nam t (snd (spec_record (name_xid v) (Dir_Rec (oid ob) nam t) (cur, c)))"
  using assms by (auto simp: name_kept_def not_newer_def Let_def cat_get_dirrec)

section \<open>Through the nodes\<close>

lemma scan_nodes_simps [simp]:
  "scan_nodes [] c = c" "scan_nodes ((x, items) # ns) c = scan_nodes ns (spec_node x items c)"
  "scan_nodes (ns @ ns') c = scan_nodes ns' (scan_nodes ns c)"
  by (simp_all add: scan_nodes_def)

definition own_nodes :: "scanned_node list \<Rightarrow> bool" where
  "own_nodes ns \<longleftrightarrow> (\<forall>(x, items) \<in> set ns. own_inodes items)"

lemma nodes_walk:
  assumes "own_nodes ns"
    and "\<And>x items i r cur c. (x, items) \<in> set ns \<Longrightarrow> (i, r) \<in> set items \<Longrightarrow> cur = None \<or> cur = Some i \<Longrightarrow> P c \<Longrightarrow>
      P (snd (spec_record x r (cur, c)))"
    and "P c"
  shows "P (scan_nodes ns c)"
  using assms
proof (induction ns arbitrary: c)
  case (Cons n ns)
  obtain x items where n: "n = (x, items)" by (cases n)
  have own: "own_inodes items" "own_nodes ns" using Cons.prems(1) by (simp_all add: n own_nodes_def)
  have "P (spec_node x items c)"
    by (rule node_walk [of items P, OF own(1) _ Cons.prems(3)]) (rule Cons.prems(2), simp_all add: n)
  then have "P (scan_nodes ns (spec_node x items c))"
    by (rule Cons.IH [OF own(2), rotated]) (rule Cons.prems(2), simp_all)
  then show ?case by (simp add: n)
qed simp

text \<open>An item that is met in time sets what the nodes behind it keep.\<close>

lemma nodes_reach:
  assumes own: "own_nodes ns" and item: "met_in_time k x (i, r) ns" and "not_newer k x c"
    and hit: "\<And>cur c. not_newer k x c \<Longrightarrow> Q (snd (spec_record x r (cur, c)))"
    and stay: "\<And>y items j q cur c. (y, items) \<in> set ns \<Longrightarrow> (j, q) \<in> set items \<Longrightarrow> cur = None \<or> cur = Some j \<Longrightarrow> Q c \<Longrightarrow>
      Q (snd (spec_record y q (cur, c)))"
  shows "Q (scan_nodes ns c)"
proof -
  from item obtain before items after where ns: "ns = before @ (x, items) # after" "(i, r) \<in> set items"
    "\<forall>n \<in> set before. names_object k n \<longrightarrow> fst n \<le> x" by (auto simp: met_in_time_def)
  have own': "own_nodes before" "own_inodes items" "own_nodes after" using own by (auto simp: ns(1) own_nodes_def)
  have "not_newer k x (scan_nodes before c)"
  proof (rule nodes_walk [of before "not_newer k x", OF own'(1) _ assms(3)])
    fix y its j q cur c assume "(y, its) \<in> set before" "(j, q) \<in> set its" "not_newer k x c"
    with ns(3) show "not_newer k x (snd (spec_record y q (cur, c)))"
      by (intro not_newer_record) (force simp: names_object_def)+
  qed
  then have "Q (spec_node x items (scan_nodes before c))"
    by (rule node_reach [of items i r "not_newer k x" _ _ Q, OF own'(2) ns(2)])
      (auto simp: ns(1) intro: not_newer_record hit stay)
  then have "Q (scan_nodes after (spec_node x items (scan_nodes before c)))"
    by (rule nodes_walk [of after Q, OF own'(3), rotated]) (auto simp: ns(1) intro: stay)
  then show ?thesis by (simp add: ns(1))
qed

section \<open>Extents\<close>

lemma scan_nodes_extents:
  assumes "own_nodes ns"
  shows "cat_exts (scan_nodes ns c) k =
    fold (\<lambda>(x, items). exts_after x (counted_extents False (records_of k items))) ns (cat_exts c k)"
  using assms
proof (induction ns arbitrary: c)
  case (Cons n ns)
  then show ?case by (cases n) (simp add: own_nodes_def spec_node_extents)
qed simp

text \<open>Extents of older transactions stay below the newest, and later leave it alone.\<close>

lemma older_extents_before:
  assumes "\<forall>(x, es) \<in> set xs. es = [] \<or> x < v" "fst vx < v"
  shows "fst (fold (\<lambda>(x, es). exts_after x es) xs vx) < v"
  using assms
proof (induction xs arbitrary: vx)
  case (Cons n xs)
  then show ?case by (cases n) (auto simp: exts_after_def)
qed simp

lemma older_extents_after:
  assumes "\<forall>(x, es) \<in> set xs. es = [] \<or> x < v" "fst vx = v"
  shows "fold (\<lambda>(x, es). exts_after x es) xs vx = vx"
  using assms
proof (induction xs)
  case (Cons n xs)
  then show ?case by (cases n) (auto simp: exts_after_def)
qed simp

lemma newest_extents:
  assumes "own_nodes ns" "\<forall>n \<in> set ns. extents_agree v ob n" "extents_once v ob ns" "fst (cat_exts c (oid ob)) < extent_xid v"
    and "oextents ob \<noteq> []"
  shows "cat_exts (scan_nodes ns c) (oid ob) = (extent_xid v, mset (oextents ob))"
proof -
  let ?es = "\<lambda>(x, items). (x, counted_extents False (records_of (oid ob) items))"
  let ?f = "\<lambda>(x, es). exts_after x es"
  from assms(3) obtain items where items:
    "filter (\<lambda>(x, items). x = extent_xid v \<and> counted_extents False (records_of (oid ob) items) \<noteq> []) ns = [(extent_xid v, items)]"
    "mset (counted_extents False (records_of (oid ob) items)) = mset (oextents ob)" by (auto simp: extents_once_def)
  let ?p = "\<lambda>(x, items). x = extent_xid v \<and> counted_extents False (records_of (oid ob) items) \<noteq> []"
  from items(1) obtain before after where ns: "ns = before @ (extent_xid v, items) # after"
    "\<forall>n \<in> set before. \<not> ?p n" "[] = filter ?p after" unfolding filter_eq_Cons_iff by blast
  have "\<forall>n \<in> set after. \<not> ?p n" using ns(3) [symmetric] by (simp only: filter_empty_conv)
  with ns(2) have others: "\<not> ?p n" if "n \<in> set (before @ after)" for n using that by auto
  have older: "es = [] \<or> x < extent_xid v" if n: "(x, its) \<in> set (before @ after)" and es: "es = counted_extents False (records_of (oid ob) its)"
    for x its es
  proof -
    have "(x, its) \<in> set ns" using n by (auto simp: ns(1))
    then have "es = [] \<or> x \<le> extent_xid v" using assms(2) es by (auto simp: extents_agree_def)
    moreover have "es = [] \<or> x \<noteq> extent_xid v" using others [OF n] es by auto
    ultimately show ?thesis by (auto simp: order_less_le)
  qed
  have some: "counted_extents False (records_of (oid ob) items) \<noteq> []" using items(2) assms(5) by auto
  have all: "\<forall>(x, es) \<in> set (map ?es before). es = [] \<or> x < extent_xid v"
    "\<forall>(x, es) \<in> set (map ?es after). es = [] \<or> x < extent_xid v"
    using older by auto
  have "cat_exts (scan_nodes ns c) (oid ob) = fold ?f (map ?es ns) (cat_exts c (oid ob))"
    by (simp add: scan_nodes_extents [OF assms(1)] fold_map comp_def case_prod_unfold)
  also have "\<dots> = fold ?f (map ?es after)
      (exts_after (extent_xid v) (counted_extents False (records_of (oid ob) items)) (fold ?f (map ?es before) (cat_exts c (oid ob))))"
    by (simp add: ns(1))
  also have "\<dots> = fold ?f (map ?es after) (extent_xid v, mset (oextents ob))"
    using exts_after_new [OF older_extents_before [OF all(1) assms(4)] some] items(2) by simp
  also have "\<dots> = (extent_xid v, mset (oextents ob))" by (rule older_extents_after [OF all(2)]) simp
  finally show ?thesis .
qed

section \<open>The entry of an object\<close>

text \<open>
  An entry says of an object what its newest records say. A length is kept when the newest inode
  record has none, a name when no directory record names the object, and extents when it has no
  newest extent record.
\<close>

definition newest_entry :: "fs_object \<Rightarrow> (cpp_string \<times> u32) option \<Rightarrow> catalog_entry \<Rightarrow> bool" where
  "newest_entry ob l e \<longleftrightarrow> row_parent (fst e) = oparent ob \<and>
     (\<forall>n. olength ob = Some n \<longrightarrow> row_length (fst e) = n) \<and>
     (\<forall>nam t. l = Some (nam, t) \<longrightarrow> row_name (fst e) = nam \<and> row_type (fst e) = scast t) \<and>
     (oextents ob \<noteq> [] \<longrightarrow> snd e = mset (oextents ob))"

lemma settled_entry:
  assumes own: "own_nodes ns" and ob: "settled_object v ob l ns"
  shows "\<exists>e. scan_nodes ns Map.empty (oid ob) = Some e \<and> newest_entry ob l e"
proof -
  let ?c = "scan_nodes ns Map.empty"
  let ?e = "cat_get ?c (oid ob)"
  have agrees: "inode_agrees v ob n" "name_agrees v ob l n" if "n \<in> set ns" for n
    using ob that by (simp_all add: settled_object_def)
  have new: "not_newer k x Map.empty" for k x by (simp add: not_newer_def cat_get_def blank_row_def)
  have inode: "inode_kept v ob ?c"
  proof (rule nodes_reach [where Q = "inode_kept v ob", OF own _ new inode_set])
    show "met_in_time (oid ob) (inode_xid v) (oid ob, Inode_Rec (oid ob) (oparent ob) (olength ob)) ns"
      using ob by (simp add: settled_object_def)
  qed (assumption, rule inode_kept_record [OF agrees], assumption+)
  have name: "name_kept v ob nam t ?c" if l: "l = Some (nam, t)" for nam t
  proof (rule nodes_reach [where Q = "name_kept v ob nam t", OF own _ new name_set])
    show "met_in_time (oid ob) (name_xid v) (oparent ob, Dir_Rec (oid ob) nam t) ns"
      using ob l by (simp add: settled_object_def)
  qed (assumption, rule name_kept_record [OF agrees(2) [unfolded l]], assumption+)
  have extents: "snd ?e = mset (oextents ob)" if "oextents ob \<noteq> []"
  proof -
    have "cat_exts ?c (oid ob) = (extent_xid v, mset (oextents ob))"
      using ob that by (intro newest_extents [OF own]) (auto simp: settled_object_def cat_exts_def cat_get_def blank_row_def)
    then show ?thesis by (simp add: cat_exts_def)
  qed
  have "newest_entry ob l ?e"
    using inode name extents by (auto simp: newest_entry_def inode_kept_def name_kept_def Let_def)
  moreover have "?c (oid ob) \<noteq> None"
  proof
    assume "?c (oid ob) = None"
    then have "row_version (fst ?e) = 0" by (simp add: cat_get_def blank_row_def)
    with inode ob show False by (simp add: inode_kept_def settled_object_def Let_def)
  qed
  then obtain e where "?c (oid ob) = Some e" by blast
  moreover from this have "?e = e" by (simp add: cat_get_def)
  ultimately show ?thesis by auto
qed

section \<open>What the nodes leave alone\<close>

lemma spec_record_other:
  assumes "fst s \<noteq> Some k" "makes_entry r \<noteq> Some k"
  shows "snd (spec_record x r s) k = snd s k \<and> fst (spec_record x r s) \<noteq> Some k"
  using assms
  by (cases s; cases r) (auto simp: spec_inode_def spec_dirrec_def spec_extent_def split: option.split prod.split)

lemma spec_node_other:
  assumes "\<not> names_object k (x, items)"
  shows "spec_node x items c k = c k"
proof -
  have rs: "snd (fold (spec_record x) rs s) k = snd s k" if "\<forall>r \<in> set rs. makes_entry r \<noteq> Some k" "fst s \<noteq> Some k" for rs s
    using that by (induction rs arbitrary: s) (simp_all add: spec_record_other)
  have "\<forall>r \<in> set (records_of i items). makes_entry r \<noteq> Some k" for i
    using assms by (auto simp: records_of_def names_object_def)
  then have "spec_group x (records_of i items) c k = c k" for i c
    using rs [of "records_of i items" "(None, c)"] by (simp add: spec_group_def)
  then have "fold (\<lambda>i. spec_group x (records_of i items)) ids c k = c k" for ids
    by (induction ids arbitrary: c) simp_all
  then show ?thesis by (simp add: spec_node_def)
qed

lemma scan_nodes_other:
  assumes "\<forall>n \<in> set ns. \<not> names_object k n"
  shows "scan_nodes ns c k = c k"
  using assms
proof (induction ns arbitrary: c)
  case (Cons n ns)
  then show ?case by (cases n) (simp add: spec_node_other)
qed simp

lemma scan_nodes_finite:
  assumes "finite (dom c)"
  shows "finite (dom (scan_nodes ns c))"
proof -
  have node: "finite (dom (spec_node x items c))" if "finite (dom c)" for x items c
    by (rule spec_node_induct [where P = "\<lambda>c. finite (dom c)"])
      (use that in \<open>auto simp: spec_inode_def spec_dirrec_def spec_extent_def split: option.split prod.split\<close>)
  show ?thesis
    using assms
  proof (induction ns arbitrary: c)
    case (Cons n ns)
    then show ?case by (cases n) (simp add: node)
  qed simp
qed

section \<open>Names that are lost\<close>

text \<open>
  The inode record and the directory record of an object share one transaction number: once an inode
  record of transaction \<open>x\<close> has been met, older directory records give no name.
\<close>

definition names_before :: "u64 \<Rightarrow> u64 \<Rightarrow> scanned_node \<Rightarrow> bool" where
  "names_before x k = (\<lambda>(y, items). \<forall>i nam t. (i, Dir_Rec k nam t) \<in> set items \<longrightarrow> y < x)"

definition nameless :: "u64 \<Rightarrow> catalog \<Rightarrow> bool" where
  "nameless k c \<longleftrightarrow> row_name (fst (cat_get c k)) = [] \<and> row_type (fst (cat_get c k)) = 0"

definition nameless_since :: "u64 \<Rightarrow> u64 \<Rightarrow> catalog \<Rightarrow> bool" where
  "nameless_since x k c \<longleftrightarrow> nameless k c \<and> x \<le> row_version (fst (cat_get c k))"

lemma nameless_record:
  assumes "\<And>nam t. r \<noteq> Dir_Rec k nam t" "nameless k c"
  shows "nameless k (snd (spec_record x r (cur, c)))"
  using assms by (cases r) (auto simp: nameless_def cat_get_record)

lemma nameless_since_record:
  assumes "names_before x k (y, items)" "(i, r) \<in> set items" "nameless_since x k c"
  shows "nameless_since x k (snd (spec_record y r (cur, c)))"
proof (cases r)
  case (Dir_Rec f nam t)
  show ?thesis
  proof (cases "f = k")
    case True
    then have "y < x" using assms(1,2) Dir_Rec by (auto simp: names_before_def)
    then have "\<not> row_version (fst (cat_get c k)) \<le> y" using assms(3) by (auto simp: nameless_since_def)
    with assms(3) Dir_Rec True show ?thesis by (simp add: nameless_since_def nameless_def cat_get_dirrec)
  next
    case False
    with assms(3) Dir_Rec show ?thesis by (simp add: nameless_since_def nameless_def cat_get_dirrec)
  qed
next
  case (Inode_Rec j p len)
  with assms(3) show ?thesis
    by (auto simp: nameless_since_def nameless_def cat_get_inode intro: order_trans)
qed (use assms(3) in \<open>auto simp: nameless_since_def nameless_def cat_get_extent\<close>)

lemma name_lost:
  assumes own: "own_nodes (before @ (x, items) # after)" and item: "(k, Inode_Rec k p len) \<in> set items" and x: "0 < x"
    and none: "\<forall>(y, its) \<in> set (before @ [(x, items)]). \<forall>i nam t. (i, Dir_Rec k nam t) \<notin> set its"
    and older: "\<forall>n \<in> set after. names_before x k n"
  shows "\<exists>row exs. scan_nodes (before @ (x, items) # after) Map.empty k = Some (row, exs) \<and> row_name row = [] \<and> row_type row = 0"
proof -
  let ?c = "scan_nodes (before @ (x, items) # after) Map.empty"
  have own': "own_nodes before" "own_inodes items" "own_nodes after" using own by (auto simp: own_nodes_def)
  have "nameless k Map.empty" by (simp add: nameless_def cat_get_def blank_row_def)
  then have 1: "nameless k (scan_nodes before Map.empty)"
    by (rule nodes_walk [of before "nameless k", OF own'(1), rotated]) (rule nameless_record, use none in auto)
  have 2: "nameless_since x k (spec_node x items (scan_nodes before Map.empty))"
  proof (rule node_reach [of items k _ "nameless k", OF own'(2) item 1])
    fix j q cur c assume "(j, q) \<in> set items" "nameless k c"
    then show "nameless k (snd (spec_record x q (cur, c)))" by (intro nameless_record) (use none in auto)
  next
    fix cur c assume "nameless k c"
    then show "nameless_since x k (snd (spec_record x (Inode_Rec k p len) (cur, c)))"
      by (auto simp: nameless_since_def nameless_def cat_get_inode)
  next
    fix j q cur c assume "(j, q) \<in> set items" "nameless_since x k c"
    moreover have "names_before x k (x, items)" using none by (auto simp: names_before_def)
    ultimately show "nameless_since x k (snd (spec_record x q (cur, c)))" by (intro nameless_since_record)
  qed
  have "nameless_since x k (scan_nodes after (spec_node x items (scan_nodes before Map.empty)))"
    by (rule nodes_walk [of after "nameless_since x k", OF own'(3) _ 2]) (rule nameless_since_record, use older in auto)
  then have since: "nameless_since x k ?c" by simp
  obtain e where e: "?c k = Some e"
  proof (cases "?c k")
    case None
    with since x show thesis by (simp add: nameless_since_def cat_get_def blank_row_def)
  qed (use that in blast)
  with since show ?thesis by (cases e) (simp add: nameless_since_def nameless_def cat_get_def)
qed

end
