(* ===== verification/Newest_Volume.thy ===== *)
theory Newest_Volume
  imports Recovery Newest_Records
begin

text \<open>
  A volume that has been changed. A copy-on-write tree leaves on the image nodes of many transactions:
  the newest state of a volume is spread over nodes of different transactions, and around them lie
  older nodes, with whatever they say. What the older say of an object gives way to what the newest
  say of it.
\<close>

section \<open>Images\<close>

text \<open>
  \<open>image_of ns blocks\<close>: the blocks hold the nodes \<open>ns\<close>, in this order, and between them blocks the
  scanner makes nothing of.
\<close>

inductive image_of :: "scanned_node list \<Rightarrow> u8 list list \<Rightarrow> bool" where
  finished: "image_of [] []"
| node: "b \<noteq> [] \<Longrightarrow> node_block 4096 b x items \<Longrightarrow> image_of ns blocks \<Longrightarrow> image_of ((x, items) # ns) (b # blocks)"
| other: "b \<noteq> [] \<Longrightarrow> clean_block 4096 b (\<lambda>c. c) \<Longrightarrow> image_of ns blocks \<Longrightarrow> image_of ns (b # blocks)"

lemma image_own: "image_of ns blocks \<Longrightarrow> own_nodes ns"
  by (induction rule: image_of.induct) (auto simp: own_nodes_def intro: node_block_own)

lemma image_effects:
  assumes "image_of ns blocks"
  shows "\<exists>fs. list_all2 (\<lambda>b f. b \<noteq> [] \<and> clean_block 4096 b f) blocks fs \<and>
    (\<forall>c. fold (\<lambda>f c. f c) fs c = scan_nodes ns c)"
  using assms
proof induction
  case finished
  show ?case by (rule exI [of _ "[]"]) simp
next
  case (node b x items ns blocks)
  then obtain fs where "list_all2 (\<lambda>b f. b \<noteq> [] \<and> clean_block 4096 b f) blocks fs"
    "\<forall>c. fold (\<lambda>f c. f c) fs c = scan_nodes ns c" by blast
  with node.hyps show ?case by (intro exI [of _ "spec_node x items # fs"]) (simp add: clean_block.node)
next
  case (other b ns blocks)
  then obtain fs where "list_all2 (\<lambda>b f. b \<noteq> [] \<and> clean_block 4096 b f) blocks fs"
    "\<forall>c. fold (\<lambda>f c. f c) fs c = scan_nodes ns c" by blast
  with other.hyps show ?case by (intro exI [of _ "(\<lambda>c. c) # fs"]) simp
qed

section \<open>The newest state of a volume\<close>

text \<open>
  The nodes hold the newest records of every object. The parent of the root directory
  (\<open>ROOT_DIR_PARENT\<close>) may be among the objects: it has directory records and no inode record.
\<close>

definition newest_state :: "(u64 \<Rightarrow> newest_xids) \<Rightarrow> fs_object list \<Rightarrow> scanned_node list \<Rightarrow> bool" where
  "newest_state v obs ns \<longleftrightarrow> volume_ok obs \<and> ROOT_DIR_PARENT \<notin> fst ` set (links obs) \<and>
     (\<forall>ob \<in> set obs. oid ob \<noteq> ROOT_DIR_PARENT \<longrightarrow> settled_object (v (oid ob)) ob (map_of (links obs) (oid ob)) ns)"

lemma newest_entries:
  assumes "newest_state v obs ns" "own_nodes ns" "ob \<in> set obs" "oid ob \<noteq> ROOT_DIR_PARENT"
  obtains e where "scan_nodes ns Map.empty (oid ob) = Some e" "newest_entry ob (map_of (links obs) (oid ob)) e"
proof -
  have "settled_object (v (oid ob)) ob (map_of (links obs) (oid ob)) ns"
    using assms(1,3,4) by (simp add: newest_state_def)
  from settled_entry [OF assms(2) this] that show thesis by blast
qed

text \<open>A link of the volume is a link of the catalog, and so is a path.\<close>

lemma newest_link:
  assumes new: "newest_state v obs ns" "own_nodes ns" and link: "dir \<in> set obs" "(f, nam, t) \<in> set (okids dir)"
  obtains kid e where "kid \<in> set obs" "oid kid = f" "f \<noteq> ROOT_DIR_PARENT" "map_of (links obs) f = Some (nam, t)"
    "scan_nodes ns Map.empty f = Some e" "newest_entry kid (Some (nam, t)) e" "row_parent (fst e) = oid dir" "row_name (fst e) = nam"
proof -
  have vol: "volume_ok obs" "ROOT_DIR_PARENT \<notin> fst ` set (links obs)" using new(1) by (simp_all add: newest_state_def)
  from vol(1) link obtain kid where kid: "kid \<in> set obs" "oid kid = f" "oparent kid = oid dir"
    unfolding volume_ok_def by fastforce
  have l: "map_of (links obs) f = Some (nam, t)"
    using vol(1) link by (intro map_of_is_SomeI) (auto simp: volume_ok_def set_links)
  have f: "f \<noteq> ROOT_DIR_PARENT" using vol(2) map_of_SomeD [OF l] by force
  from newest_entries [OF new kid(1)] f obtain e where
    e: "scan_nodes ns Map.empty f = Some e" "newest_entry kid (Some (nam, t)) e" by (auto simp: kid(2) l)
  with kid have "row_parent (fst e) = oid dir" "row_name (fst e) = nam" by (auto simp: newest_entry_def)
  with kid(1,2) f l e show thesis by (rule that)
qed

inductive volume_path :: "fs_object list \<Rightarrow> u64 \<Rightarrow> cpp_string list \<Rightarrow> u64 \<Rightarrow> bool" for obs where
  here: "volume_path obs i [] i"
| down: "dir \<in> set obs \<Longrightarrow> (f, nam, t) \<in> set (okids dir) \<Longrightarrow> volume_path obs f ns k \<Longrightarrow>
    volume_path obs (oid dir) (nam # ns) k"

inductive_simps volume_path_Nil: "volume_path obs i [] k"
inductive_simps volume_path_Cons: "volume_path obs i (nam # ns) k"

lemma volume_path_followed:
  assumes "volume_path obs i names k" and new: "newest_state v obs ns" "own_nodes ns"
  shows "path_to (scan_nodes ns Map.empty) i names k"
  using assms(1)
proof induction
  case (down dir f nam t names k)
  obtain e where "scan_nodes ns Map.empty f = Some e" "row_parent (fst e) = oid dir" "row_name (fst e) = nam"
    by (rule newest_link [OF new down.hyps(1,2)])
  with down.IH show ?case by (cases e) (auto intro: path_to.down)
qed (rule path_to.here)

text \<open>The root has an entry, and the tree below it is finite when nothing makes an entry for its parent.\<close>

lemma newest_tree:
  assumes new: "newest_state v obs ns" "own_nodes ns" and root: "root \<in> set obs" "oid root = 2" "oparent root = ROOT_DIR_PARENT"
    and none: "\<forall>n \<in> set ns. \<not> names_object ROOT_DIR_PARENT n" and fuel: "card (dom (scan_nodes ns Map.empty)) < fuel"
  shows "\<not> runs_out (scan_nodes ns Map.empty) fuel 2"
proof (rule runs_out_finite)
  let ?c = "scan_nodes ns Map.empty"
  show "finite (dom ?c)" by (rule scan_nodes_finite) simp
  have "oid root \<noteq> ROOT_DIR_PARENT" by (simp add: root(2) ROOT_DIR_PARENT_def)
  then obtain e where "?c (oid root) = Some e" "newest_entry root (map_of (links obs) (oid root)) e"
    by (rule newest_entries [OF new root(1)])
  then have "?c 2 = Some (fst e, snd e)" "row_parent (fst e) = ROOT_DIR_PARENT" by (simp_all add: root newest_entry_def)
  with scan_nodes_other [OF none, of Map.empty] show "(2, 2) \<notin> (parent_of ?c)\<^sup>+" by (intro root_not_on_cycle [where row = "fst e" and x = "snd e"]) simp_all
qed (rule fuel)

text \<open>The program on such an image.\<close>

lemma newest_volume_recovered:
  assumes "sql_store db ents exts good" and "db_inv ents exts good (open_db (argv ! 2))"
    and "m_scanners raw = []" and "2 < length argv"
    and "image_of ns blocks" and "scan_end ending"
    and "\<not> runs_out (scan_nodes ns Map.empty) fuel 2"
  obtains ls d where "filehunter_main db open_disk open_db raw fuel
      (Call_Scan # map (\<lambda>b. Iterate (Read_Bytes b [])) blocks @ ending) argv = Some (Inr (0, ls, Some d))"
    "catalog_of ents exts d = scan_nodes ns Map.empty" "prints_tree (scan_nodes ns Map.empty) ls" "db_inv ents exts good d"
proof -
  obtain fs where fs: "list_all2 (\<lambda>b f. b \<noteq> [] \<and> clean_block 4096 b f) blocks fs"
    "\<forall>c. fold (\<lambda>f c. f c) fs c = scan_nodes ns c" using image_effects [OF assms(5)] by blast
  show thesis
    by (rule sql_store.main_recovers [where open_db = open_db and open_disk = open_disk,
        OF assms(1-4) fs(1) assms(6) spec [OF fs(2), of Map.empty] assms(7)]) (rule that)
qed

section \<open>An example\<close>

text \<open>
  The example volume once more. The node of the root directory is of transaction 5, the inode record of
  the file of transaction 6, and the directory record that names it of transaction 7. Between them lies
  a node of transaction 3, when the file was larger, lay elsewhere and was called \<open>b\<close>, and beside it was
  a file with the name \<open>[gone]\<close> that has been deleted since.
\<close>

definition ex_top :: fs_object where
  "ex_top = \<lparr>oid = 1, oparent = 0, olength = None, okids = [(2, [114, 111, 111, 116], 4)], oextents = []\<rparr>"

definition ex_newest :: "fs_object list" where
  "ex_newest = [ex_top, ex_dir, ex_leaf]"

definition ex_xids :: "u64 \<Rightarrow> newest_xids" where
  "ex_xids k = (if k = 2 then \<lparr>inode_xid = 5, name_xid = 5, extent_xid = 5\<rparr> else \<lparr>inode_xid = 6, name_xid = 7, extent_xid = 6\<rparr>)"

definition ex_nodes :: "u8 \<Rightarrow> scanned_node list" where
  "ex_nodes gone =
     [(5, [(1, Dir_Rec 2 [114, 111, 111, 116] 4), (2, Inode_Rec 2 1 None), (2, Other_Rec)]),
      (3, [(2, Inode_Rec 2 1 None), (2, Dir_Rec 16 [98] 8), (2, Dir_Rec 17 [gone] 8), (16, Inode_Rec 16 2 (Some 9)), (16, Extent_Rec 0 50 8192)]),
      (6, [(16, Inode_Rec 16 2 (Some 5)), (16, Other_Rec), (16, Extent_Rec 0 40 4096)]),
      (7, [(2, Dir_Rec 16 [97] 8)])]"

definition ex_changed_image :: "u8 \<Rightarrow> u8 list list" where
  "ex_changed_image gone = map (\<lambda>(x, items). encode_node 4096 x items) (take 2 (ex_nodes gone)) @ [replicate 4096 0] @
     map (\<lambda>(x, items). encode_node 4096 x items) (drop 2 (ex_nodes gone))"

lemma ex_nodes_fit: "gone \<noteq> 0 \<Longrightarrow> \<forall>(x, items) \<in> set (ex_nodes gone). fits_node 4096 items"
  by (simp add: ex_nodes_def fits_node_def encode_key_def encode_value_def record_ok_def
      OBJ_TYPE_MASK_def J_FILE_EXTENT_LEN_MASK_def DREC_TYPE_MASK_def)

lemma image_of_encoded:
  assumes "\<forall>(x, items) \<in> set ns. fits_node 4096 items" "image_of ns' blocks"
  shows "image_of (ns @ ns') (map (\<lambda>(x, items). encode_node 4096 x items) ns @ blocks)"
  using assms
proof (induction ns)
  case (Cons n ns)
  obtain x items where n: "n = (x, items)" by (cases n)
  with Cons.prems(1) have "fits_node 4096 items" by simp
  from encoded_node_block [OF this, of x] length_encode_node [OF this, of x] Cons show ?case
    by (auto simp: n intro!: image_of.node)
qed simp

lemma ex_image:
  assumes "gone \<noteq> 0"
  shows "image_of (ex_nodes gone) (ex_changed_image gone)"
proof -
  have "\<forall>(x, items) \<in> set (drop 2 (ex_nodes gone)). fits_node 4096 items" "\<forall>(x, items) \<in> set (take 2 (ex_nodes gone)). fits_node 4096 items"
    using ex_nodes_fit [OF assms] by (auto dest: in_set_dropD in_set_takeD)
  moreover have "replicate 4096 (0 :: u8) \<noteq> []" by simp
  ultimately have "image_of (take 2 (ex_nodes gone) @ drop 2 (ex_nodes gone) @ []) (map (\<lambda>(x, items). encode_node 4096 x items) (take 2 (ex_nodes gone)) @
      replicate 4096 0 # map (\<lambda>(x, items). encode_node 4096 x items) (drop 2 (ex_nodes gone)) @ [])"
    by (intro image_of_encoded image_of.other image_of.finished ex_zero_clean)
  then show ?thesis by (simp add: ex_changed_image_def)
qed

lemma ex_links: "links ex_newest = [(2, [114, 111, 111, 116], 4), (16, [97], 8)]"
  by (simp add: links_def ex_newest_def ex_top_def ex_dir_def ex_leaf_def)

lemma met_in_timeI:
  "ns = before @ (x, items) # after \<Longrightarrow> item \<in> set items \<Longrightarrow> \<forall>n \<in> set before. names_object k n \<longrightarrow> fst n \<le> x \<Longrightarrow>
     met_in_time k x item ns"
  by (auto simp: met_in_time_def)

lemma ex_settled:
  "settled_object (ex_xids 2) ex_dir (Some ([114, 111, 111, 116], 4)) (ex_nodes gone)"
  "settled_object (ex_xids 16) ex_leaf (Some ([97], 8)) (ex_nodes gone)"
proof -
  have "met_in_time 2 5 (2, Inode_Rec 2 1 None) (ex_nodes gone)" "met_in_time 2 5 (1, Dir_Rec 2 [114, 111, 111, 116] 4) (ex_nodes gone)"
    by (rule met_in_timeI [where before = "take 0 (ex_nodes gone)" and items = "snd (ex_nodes gone ! 0)" and after = "drop 1 (ex_nodes gone)"];
        simp add: ex_nodes_def)+
  then show "settled_object (ex_xids 2) ex_dir (Some ([114, 111, 111, 116], 4)) (ex_nodes gone)"
    by (simp add: settled_object_def ex_xids_def ex_dir_def)
      (simp add: ex_nodes_def inode_agrees_def name_agrees_def)
  have "met_in_time 16 6 (16, Inode_Rec 16 2 (Some 5)) (ex_nodes gone)"
    by (rule met_in_timeI [where before = "take 2 (ex_nodes gone)" and items = "snd (ex_nodes gone ! 2)" and after = "drop 3 (ex_nodes gone)"];
        simp add: ex_nodes_def names_object_def)
  moreover have "met_in_time 16 7 (2, Dir_Rec 16 [97] 8) (ex_nodes gone)"
    by (rule met_in_timeI [where before = "take 3 (ex_nodes gone)" and items = "snd (ex_nodes gone ! 3)" and after = "drop 4 (ex_nodes gone)"];
        simp add: ex_nodes_def names_object_def)
  moreover have "extents_once (ex_xids 16) ex_leaf (ex_nodes gone)"
    by (simp add: extents_once_def ex_nodes_def ex_xids_def ex_leaf_def records_of_def)
  ultimately show "settled_object (ex_xids 16) ex_leaf (Some ([97], 8)) (ex_nodes gone)"
    by (simp add: settled_object_def ex_xids_def ex_leaf_def)
      (simp add: ex_nodes_def inode_agrees_def name_agrees_def extents_agree_def records_of_def)
qed

lemma ex_newest_state: "newest_state ex_xids ex_newest (ex_nodes gone)"
  using ex_settled
  by (simp add: newest_state_def ex_links volume_ok_def)
    (simp add: ex_newest_def ex_top_def ex_dir_def ex_leaf_def ROOT_DIR_PARENT_def)

lemma ex_no_parent: "\<forall>n \<in> set (ex_nodes gone). \<not> names_object ROOT_DIR_PARENT n"
  by (simp add: ex_nodes_def names_object_def ROOT_DIR_PARENT_def)

section \<open>Properties\<close>

text \<open>
  C2. The newest state wins. The image holds nodes of a volume that has been changed, between blocks
  without records, and they are in the order \<open>newest_state\<close> asks for: for every object no node
  has a newer inode record, or directory record that names it, than the two newest ones, or another one of the same transaction;
  from the transaction of its inode record on it is named in one directory only; neither of the two
  records lies behind a node with a newer record of the object (\<open>met_in_time\<close>; a name that does
  is lost, as \<open>older_name_lost\<close> shows); and its newest extents lie together in one node, behind its inode
  record. Beyond this, older nodes may say anything of these objects and of objects that are gone.
  Then \<open>filehunter\<close> returns 0 with the tree of the catalog it leaves, given enough stack, and the catalog
  has for every object of the volume an entry with the parent, name, type, length and extents of its
  newest records; every path of the volume leads to its object in the catalog.
\<close>
theorem newest_volume_wins:
  assumes "sql_store db ents exts good" and "db_inv ents exts good (open_db (argv ! 2))"
    and "m_scanners raw = []" and "2 < length argv"
    and "image_of ns blocks" and "newest_state v obs ns"
    and "root \<in> set obs" and "oid root = 2" and "oparent root = ROOT_DIR_PARENT"
    and "\<forall>n \<in> set ns. \<not> names_object ROOT_DIR_PARENT n" and "scan_end ending"
  shows "\<exists>n. \<forall>fuel. n < fuel \<longrightarrow> (\<exists>ls d. filehunter_main db open_disk open_db raw fuel
      (Call_Scan # map (\<lambda>b. Iterate (Read_Bytes b [])) blocks @ ending) argv = Some (Inr (0, ls, Some d)) \<and>
    prints_tree (catalog_of ents exts d) ls \<and> db_inv ents exts good d \<and>
    (\<forall>ob \<in> set obs. oid ob \<noteq> ROOT_DIR_PARENT \<longrightarrow>
       (\<exists>e. catalog_of ents exts d (oid ob) = Some e \<and> newest_entry ob (map_of (links obs) (oid ob)) e)) \<and>
    (\<forall>names k. volume_path obs 2 names k \<longrightarrow> path_to (catalog_of ents exts d) 2 names k))"
    (is "\<exists>n. \<forall>fuel. n < fuel \<longrightarrow> ?recovers fuel")
proof (rule exI [of _ "card (dom (scan_nodes ns Map.empty))"], intro allI impI)
  fix fuel assume fuel: "card (dom (scan_nodes ns Map.empty)) < fuel"
  note own = image_own [OF assms(5)]
  obtain ls d where d: "filehunter_main db open_disk open_db raw fuel
      (Call_Scan # map (\<lambda>b. Iterate (Read_Bytes b [])) blocks @ ending) argv = Some (Inr (0, ls, Some d))"
    "catalog_of ents exts d = scan_nodes ns Map.empty" "prints_tree (scan_nodes ns Map.empty) ls" "db_inv ents exts good d"
    by (rule newest_volume_recovered [where open_db = open_db and open_disk = open_disk and argv = argv,
        OF assms(1-5,11) newest_tree [OF assms(6) own assms(7-10) fuel]])
  have "\<exists>e. scan_nodes ns Map.empty (oid ob) = Some e \<and> newest_entry ob (map_of (links obs) (oid ob)) e"
    if "ob \<in> set obs" "oid ob \<noteq> ROOT_DIR_PARENT" for ob
    by (rule newest_entries [OF assms(6) own that]) blast
  moreover note volume_path_followed [OF _ assms(6) own]
  ultimately show "?recovers fuel" using d by (intro exI [of _ ls] exI [of _ d]) simp
qed

lemma ex_start:
  "db_inv mem_ents mem_exts mem_good ((\<lambda>_. no_tables) ([[102], [105], [100 :: u8]] ! 2))"
  "m_scanners ex_disk = []" "2 < length [[102], [105], [100 :: u8]]"
  using ex_no_tables by (simp_all add: ex_disk_def)

lemma ex_root_object: "ex_dir \<in> set ex_newest" "oid ex_dir = 2" "oparent ex_dir = ROOT_DIR_PARENT"
  by (simp_all add: ex_newest_def ex_dir_def ROOT_DIR_PARENT_def)

lemma ex_leaf_object: "ex_leaf \<in> set ex_newest" "oid ex_leaf = 16"
  by (simp_all add: ex_newest_def ex_leaf_def)

lemma ex_volume_path: "volume_path ex_newest 2 [[97]] 16"
  using volume_path.down [of ex_dir ex_newest 16 "[97]" 8 "[]" 16] volume_path.here [of ex_newest 16]
  by (simp add: ex_newest_def ex_dir_def)

theorem newest_volume_wins_witness:
  "\<exists>fuel ls d r. filehunter_main mem_db (\<lambda>_. 3) (\<lambda>_. no_tables) ex_disk fuel
       (Call_Scan # map (\<lambda>b. Iterate (Read_Bytes b [])) (ex_changed_image 99) @ [Iterate (Read_Bytes [] [])])
       [[102], [105], [100]] = Some (Inr (0, ls, Some d)) \<and>
     catalog_of mem_ents mem_exts d 16 = Some (r, {#(0, 40, 4096)#}) \<and>
     row_name r = [97] \<and> row_length r = 5 \<and> row_type r = 8 \<and> row_parent r = 2 \<and>
     path_to (catalog_of mem_ents mem_exts d) 2 [[97]] 16"
proof -
  have image: "image_of (ex_nodes 99) (ex_changed_image 99)" by (rule ex_image) simp
  from newest_volume_wins [where open_db = "\<lambda>_. no_tables" and open_disk = "\<lambda>_. 3" and argv = "[[102], [105], [100]]",
      OF mem.sql_store_axioms ex_start image ex_newest_state ex_root_object ex_no_parent scan_end.end_of_disk [of "[]"]]
  obtain n where "\<forall>fuel. n < fuel \<longrightarrow> (\<exists>ls d. filehunter_main mem_db (\<lambda>_. 3) (\<lambda>_. no_tables) ex_disk fuel
       (Call_Scan # map (\<lambda>b. Iterate (Read_Bytes b [])) (ex_changed_image 99) @ [Iterate (Read_Bytes [] [])])
       [[102], [105], [100]] = Some (Inr (0, ls, Some d)) \<and>
     prints_tree (catalog_of mem_ents mem_exts d) ls \<and> db_inv mem_ents mem_exts mem_good d \<and>
     (\<forall>ob \<in> set ex_newest. oid ob \<noteq> ROOT_DIR_PARENT \<longrightarrow>
       (\<exists>e. catalog_of mem_ents mem_exts d (oid ob) = Some e \<and> newest_entry ob (map_of (links ex_newest) (oid ob)) e)) \<and>
     (\<forall>names k. volume_path ex_newest 2 names k \<longrightarrow> path_to (catalog_of mem_ents mem_exts d) 2 names k))" by blast
  then obtain ls d where d: "filehunter_main mem_db (\<lambda>_. 3) (\<lambda>_. no_tables) ex_disk (Suc n)
       (Call_Scan # map (\<lambda>b. Iterate (Read_Bytes b [])) (ex_changed_image 99) @ [Iterate (Read_Bytes [] [])])
       [[102], [105], [100]] = Some (Inr (0, ls, Some d))"
    "\<forall>ob \<in> set ex_newest. oid ob \<noteq> ROOT_DIR_PARENT \<longrightarrow>
       (\<exists>e. catalog_of mem_ents mem_exts d (oid ob) = Some e \<and> newest_entry ob (map_of (links ex_newest) (oid ob)) e)"
    "\<forall>names k. volume_path ex_newest 2 names k \<longrightarrow> path_to (catalog_of mem_ents mem_exts d) 2 names k"
    using lessI [of n] by blast
  have "(16 :: u64) \<noteq> ROOT_DIR_PARENT" by (simp add: ROOT_DIR_PARENT_def)
  with d(2) ex_leaf_object obtain e where e: "catalog_of mem_ents mem_exts d 16 = Some e" "newest_entry ex_leaf (map_of (links ex_newest) 16) e"
    by force
  then have "snd e = {#(0, 40, 4096)#}" "row_name (fst e) = [97]" "row_length (fst e) = 5" "row_type (fst e) = 8" "row_parent (fst e) = 2"
    by (simp_all add: newest_entry_def ex_links) (simp_all add: ex_leaf_def)
  with e(1) have "catalog_of mem_ents mem_exts d 16 = Some (fst e, {#(0, 40, 4096)#}) \<and> row_name (fst e) = [97] \<and>
      row_length (fst e) = 5 \<and> row_type (fst e) = 8 \<and> row_parent (fst e) = 2" by (cases e) simp
  with d(1,3) ex_volume_path show ?thesis by blast
qed

text \<open>
  C37. A deleted file may take the place of a live one. An entry that older nodes have left of an object
  that no newer node names stays, which is how deleted files are recovered; but when a file of
  the newest state has its name in the same directory, two entries share the name, and which of the
  two \<open>findByName\<close> gives a path to is left to the database.
\<close>
theorem deleted_file_shares_name:
  assumes "sql_store db ents exts good" and "db_inv ents exts good (open_db (argv ! 2))"
    and "m_scanners raw = []" and "2 < length argv" and "scan_end ending"
    and "image_of (older @ newer) blocks" and "newest_state v obs (older @ newer)"
    and "\<not> runs_out (scan_nodes (older @ newer) Map.empty) fuel 2"
    and "dir \<in> set obs" and "(f, nam, t) \<in> set (okids dir)" and "k \<notin> oid ` set obs"
    and "\<forall>n \<in> set newer. \<not> names_object k n" and "scan_nodes older Map.empty k = Some (row, x)"
    and "row_parent row = oid dir" and "row_name row = nam"
  shows "\<exists>ls d. filehunter_main db open_disk open_db raw fuel
      (Call_Scan # map (\<lambda>b. Iterate (Read_Bytes b [])) blocks @ ending) argv = Some (Inr (0, ls, Some d)) \<and>
    catalog_of ents exts d k = Some (row, x) \<and> \<not> unique_names (catalog_of ents exts d)"
proof -
  let ?c = "scan_nodes (older @ newer) Map.empty"
  obtain ls d where d: "filehunter_main db open_disk open_db raw fuel
      (Call_Scan # map (\<lambda>b. Iterate (Read_Bytes b [])) blocks @ ending) argv = Some (Inr (0, ls, Some d))"
    "catalog_of ents exts d = ?c"
    by (rule newest_volume_recovered [where open_db = open_db and open_disk = open_disk and argv = argv, OF assms(1-4,6,5,8)])
  have left: "?c k = Some (row, x)" using scan_nodes_other [OF assms(12)] assms(13) by simp
  obtain kid e where e: "kid \<in> set obs" "oid kid = f" "?c f = Some e" "row_parent (fst e) = oid dir" "row_name (fst e) = nam"
    by (rule newest_link [OF assms(7) image_own [OF assms(6)] assms(9,10)])
  have "f \<noteq> k" using e(1,2) assms(11) by auto
  with left e(3-5) assms(14,15) have "\<not> unique_names ?c" unfolding unique_names_def by (cases e) fastforce
  with d left show ?thesis by auto
qed

definition ex_gone_row :: entry_row where
  "ex_gone_row = \<lparr>row_inode = 17, row_parent = 2, row_version = 3, row_type = 8, row_name = [97], row_length = 0, row_extver = 0\<rparr>"

lemma ex_gone: "scan_nodes (take 2 (ex_nodes 97)) Map.empty 17 = Some (ex_gone_row, {#})"
  by (simp add: ex_nodes_def spec_node_def records_of_def spec_group_def spec_dirrec_def spec_inode_def spec_extent_def
      cat_get_def blank_row_def ex_gone_row_def)

theorem deleted_file_shares_name_witness:
  "\<exists>fuel ls d. filehunter_main mem_db (\<lambda>_. 3) (\<lambda>_. no_tables) ex_disk fuel
       (Call_Scan # map (\<lambda>b. Iterate (Read_Bytes b [])) (ex_changed_image 97) @ [Iterate (Read_Bytes [] [])])
       [[102], [105], [100]] = Some (Inr (0, ls, Some d)) \<and>
     catalog_of mem_ents mem_exts d 17 = Some (ex_gone_row, {#}) \<and> \<not> unique_names (catalog_of mem_ents mem_exts d)"
proof -
  let ?old = "take 2 (ex_nodes 97)" and ?new = "drop 2 (ex_nodes 97)"
  have ns: "image_of (?old @ ?new) (ex_changed_image 97)" "newest_state ex_xids ex_newest (?old @ ?new)"
    using ex_image [of 97] ex_newest_state [of 97] by simp_all
  have fuel: "\<not> runs_out (scan_nodes (?old @ ?new) Map.empty) (Suc (card (dom (scan_nodes (?old @ ?new) Map.empty)))) 2"
    using newest_tree [OF ns(2) image_own [OF ns(1)] ex_root_object _ lessI] ex_no_parent [of 97] by simp
  have "ex_dir \<in> set ex_newest" "(16, [97], 8) \<in> set (okids ex_dir)" "17 \<notin> oid ` set ex_newest"
    "\<forall>n \<in> set ?new. \<not> names_object 17 n"
    by (simp_all add: ex_newest_def ex_top_def ex_dir_def ex_leaf_def ex_nodes_def names_object_def)
  moreover have "row_parent ex_gone_row = oid ex_dir" "row_name ex_gone_row = [97]"
    by (simp_all add: ex_gone_row_def ex_dir_def)
  ultimately show ?thesis
    using deleted_file_shares_name [where open_db = "\<lambda>_. no_tables" and open_disk = "\<lambda>_. 3" and argv = "[[102], [105], [100]]",
        OF mem.sql_store_axioms ex_start scan_end.end_of_disk [of "[]"] ns fuel _ _ _ _ ex_gone] by blast
qed

text \<open>
  C36. A name may be lost. The inode record and the directory record of a file share one transaction
  number in the database. When the node with the inode record was written after the node with the
  directory record, as by any change of the file, and lies before it on the disk, the directory record
  is taken for outdated: \<open>filehunter\<close> leaves the file without name and type, and no name leads to it.
\<close>
theorem older_name_lost:
  assumes "sql_store db ents exts good" and "db_inv ents exts good (open_db (argv ! 2))"
    and "m_scanners raw = []" and "2 < length argv" and "scan_end ending"
    and "image_of (before @ (x, items) # after) blocks"
    and "\<not> runs_out (scan_nodes (before @ (x, items) # after) Map.empty) fuel 2"
    and "(k, Inode_Rec k p len) \<in> set items" and "0 < x"
    and "\<forall>(y, its) \<in> set (before @ [(x, items)]). \<forall>i nam t. (i, Dir_Rec k nam t) \<notin> set its"
    and "\<forall>n \<in> set after. names_before x k n"
  shows "\<exists>ls d row xs. filehunter_main db open_disk open_db raw fuel
      (Call_Scan # map (\<lambda>b. Iterate (Read_Bytes b [])) blocks @ ending) argv = Some (Inr (0, ls, Some d)) \<and>
    catalog_of ents exts d k = Some (row, xs) \<and> row_name row = [] \<and> row_type row = 0 \<and>
    (\<forall>i nam. nam \<noteq> [] \<longrightarrow> \<not> path_to (catalog_of ents exts d) i [nam] k)"
proof -
  let ?c = "scan_nodes (before @ (x, items) # after) Map.empty"
  obtain ls d where d: "filehunter_main db open_disk open_db raw fuel
      (Call_Scan # map (\<lambda>b. Iterate (Read_Bytes b [])) blocks @ ending) argv = Some (Inr (0, ls, Some d))"
    "catalog_of ents exts d = ?c"
    by (rule newest_volume_recovered [where open_db = open_db and open_disk = open_disk and argv = argv, OF assms(1-4,6,5,7)])
  obtain row xs where e: "?c k = Some (row, xs)" "row_name row = []" "row_type row = 0"
    using name_lost [OF image_own [OF assms(6)] assms(8-11)] by blast
  then have "\<not> path_to ?c i [nam] k" if "nam \<noteq> []" for i nam using that by (auto simp: path_to_Cons)
  with d e show ?thesis by auto
qed

text \<open>The directory record of the example file is of transaction 5, its inode record of transaction 6 comes first.\<close>

definition ex_late_name :: "u64 \<times> (u64 \<times> fs_record) list" where
  "ex_late_name = (5, [(2, Inode_Rec 2 1 None), (2, Dir_Rec 16 [97] 8)])"

definition ex_early_inode :: "u64 \<times> (u64 \<times> fs_record) list" where
  "ex_early_inode = (6, [(16, Inode_Rec 16 2 (Some 5)), (16, Extent_Rec 0 40 4096)])"

lemma ex_late_image:
  "image_of ([] @ (6, snd ex_early_inode) # [ex_late_name]) (map (\<lambda>(x, items). encode_node 4096 x items) [ex_early_inode, ex_late_name] @ [])"
proof -
  have "\<forall>(x, items) \<in> set [ex_early_inode, ex_late_name]. fits_node 4096 items"
    by (simp add: ex_late_name_def ex_early_inode_def fits_node_def encode_key_def encode_value_def record_ok_def
        OBJ_TYPE_MASK_def J_FILE_EXTENT_LEN_MASK_def DREC_TYPE_MASK_def)
  from image_of_encoded [OF this image_of.finished] show ?thesis by (simp add: ex_early_inode_def)
qed

lemma ex_late_tree: "\<not> runs_out (scan_nodes ([] @ (6, snd ex_early_inode) # [ex_late_name]) Map.empty) 3 2"
proof (rule runs_out_finite)
  let ?c = "scan_nodes ([] @ (6, snd ex_early_inode) # [ex_late_name]) Map.empty"
  have row: "row_parent (blank_row 2\<lparr>row_parent := 1, row_version := 5\<rparr>) = 1" by simp
  have c: "?c 2 = Some (blank_row 2\<lparr>row_parent := 1, row_version := 5\<rparr>, {#})" "?c 1 = None" "dom ?c = {2, 16}"
    by (auto simp: ex_early_inode_def ex_late_name_def spec_node_def records_of_def spec_group_def spec_dirrec_def
        spec_inode_def spec_extent_def cat_get_def blank_row_def)
  show "finite (dom ?c)" "card (dom ?c) < 3" unfolding c(3) by simp_all
  show "(2, 2) \<notin> (parent_of ?c)\<^sup>+" by (rule root_not_on_cycle [where c = ?c and r = 2, OF c(1), unfolded row, OF c(2)])
qed

theorem older_name_lost_witness:
  "\<exists>ls d row xs. filehunter_main mem_db (\<lambda>_. 3) (\<lambda>_. no_tables) ex_disk 3
       (Call_Scan # map (\<lambda>b. Iterate (Read_Bytes b [])) (map (\<lambda>(x, items). encode_node 4096 x items) [ex_early_inode, ex_late_name] @ []) @
         [Iterate (Read_Bytes [] [])]) [[102], [105], [100]] = Some (Inr (0, ls, Some d)) \<and>
     catalog_of mem_ents mem_exts d 16 = Some (row, xs) \<and> row_name row = [] \<and> row_type row = 0 \<and>
     \<not> path_to (catalog_of mem_ents mem_exts d) 2 [[97]] 16"
proof -
  have "(16, Inode_Rec 16 2 (Some 5)) \<in> set (snd ex_early_inode)" "(0 :: u64) < 6"
    "\<forall>(y, its) \<in> set ([] @ [(6, snd ex_early_inode)]). \<forall>i nam t. (i, Dir_Rec 16 nam t) \<notin> set its"
    "\<forall>n \<in> set [ex_late_name]. names_before 6 16 n"
    by (simp_all add: ex_early_inode_def ex_late_name_def names_before_def)
  from older_name_lost [where open_db = "\<lambda>_. no_tables" and open_disk = "\<lambda>_. 3" and argv = "[[102], [105], [100]]",
      OF mem.sql_store_axioms ex_start scan_end.end_of_disk [of "[]"] ex_late_image ex_late_tree this]
  show ?thesis by blast
qed

section \<open>Extents in another node than the inode record\<close>

lemma extents_elsewhere:
  assumes "own_nodes ns"
    and "\<forall>(x, items) \<in> set ns. (\<exists>la pb len. (k, Extent_Rec la pb len) \<in> set items) \<longrightarrow>
      (\<forall>j p n. (k, Inode_Rec j p n) \<notin> set items)"
  shows "cat_exts (scan_nodes ns c) k = cat_exts c k"
proof -
  have none: "counted_extents False (records_of k items) = []" if "(x, items) \<in> set ns" for x items
  proof (cases "\<exists>la pb len. (k, Extent_Rec la pb len) \<in> set items")
    case True
    with assms(2) that have "\<forall>j p n. Inode_Rec j p n \<notin> set (records_of k items)" by (fastforce simp: records_of_def)
    then show ?thesis by (rule no_inode_no_extents)
  next
    case False
    then have "\<forall>la pb len. Extent_Rec la pb len \<notin> set (records_of k items)" by (force simp: records_of_def)
    then show ?thesis by (rule no_extents)
  qed
  have "fold (\<lambda>(x, items). exts_after x (counted_extents False (records_of k items))) ms vx = vx"
    if "set ms \<subseteq> set ns" for ms vx
    using that by (induction ms) (auto simp: none)
  then show ?thesis by (simp add: scan_nodes_extents [OF assms(1)])
qed

text \<open>What \<open>sbbfuse\<close> hands out of an entry without extents.\<close>


lemma read_without_extents:
  assumes "sql_store db ents exts good" and "db_inv ents exts good d" and "mountable (catalog_of ents exts d)"
    and "lookup_path (catalog_of ents exts d) (splitString path 47) k (row, {#})"
    and "unat offset + unat sz < 2 ^ 64" and "unat sz < 2 ^ 31"
  shows "\<exists>n d'. sbb_main splitString db pread d fd raw [Read_Request path sz offset] =
      Inr (0, [Read_Reply (int n) (replicate n None)], d') \<and> n = min (unat sz) (unat (row_length row) - unat offset)"
proof -
  note i = sql_store.init_spec [OF assms(1,2)]
  have c: "catalog_of ents exts (m_database (init db d)) = catalog_of ents exts d" using i by simp
  from assms(3) have m: "mountable (catalog_of ents exts (m_database (init db d)))" by (simp only: c)
  obtain p e fs' where f: "findByPath splitString db path (init db d) = Inr (Some p, fs')" "heap fs' p = Some e"
    "abs_entry e = (row, {#})"
  proof (rule sql_store.findByPath_cases [where splitString = splitString and path = path, OF assms(1) i(1) m])
    fix fs' assume "\<And>k x. \<not> lookup_path (catalog_of ents exts (m_database (init db d))) (splitString path 47) k x"
    with assms(4) show thesis unfolding c by blast
  next
    fix p e fs'
    assume a: "findByPath splitString db path (init db d) = Inr (Some p, fs')" "heap fs' p = Some e"
      "lookup_path (catalog_of ents exts (m_database (init db d))) (splitString path 47) (inode e) (abs_entry e)"
    have "abs_entry e = (row, {#})" using lookup_path_unique [OF assms(3) a(3) [unfolded c] assms(4)] by simp
    with a(1,2) show thesis by (rule that)
  qed
  have e: "extents e = []" "entry_length e = row_length row"
    using f(3) by (auto simp: abs_entry_def abs_extents_def row_of_def)
  obtain n where n: "read (pread fd) p offset sz fs' = Inr ((n, replicate (unat n) None), fs')"
    "unat n = min (unat sz) (unat (row_length row) - unat offset)"
    using read_nothing [OF f(2) e(1) assms(5), of "pread fd"] by (auto simp: e(2))
  have "unat n < 2 ^ 31" using n(2) assms(6) by simp
  then have "sint (ucast n :: u32) = int (unat n)" by (rule sint_small)
  with f(1) n show ?thesis
    by (intro exI [of _ "unat n"]) (simp add: sbb_main_def disk_open_def sbb_oper_def sbb_read_def read_entry_def)
qed

text \<open>
  C35. Extents may be lost. Extent records count only behind the inode record of their object in the same
  node; a file with many records fills several nodes, and the extents in the others are dropped. When on the
  image no node with extent records of a file has an inode record of it, \<open>filehunter\<close> ends with success and leaves
  an entry with the length of the file and no extents, and \<open>sbbfuse\<close> does not report that the content is
  missing: a read of the file succeeds with as many bytes as the file should have there, all of them
  bytes of a buffer that was never written.
\<close>
theorem extents_elsewhere_lost:
  assumes "sql_store db ents exts good" and "db_inv ents exts good (open_db (argv ! 2))"
    and "m_scanners raw = []" and "2 < length argv" and "scan_end ending"
    and "image_of ns blocks" and "\<not> runs_out (scan_nodes ns Map.empty) fuel 2"
    and "\<forall>(x, items) \<in> set ns. (\<exists>la pb len. (k, Extent_Rec la pb len) \<in> set items) \<longrightarrow>
      (\<forall>j p n. (k, Inode_Rec j p n) \<notin> set items)"
    and "mountable (scan_nodes ns Map.empty)" and "path_to (scan_nodes ns Map.empty) 2 (splitString path 47) k"
    and "scan_nodes ns Map.empty k = Some (row, xs)" and "unat offset + unat sz < 2 ^ 64" and "unat sz < 2 ^ 31"
  shows "\<exists>ls d n d'. filehunter_main db open_disk open_db raw fuel
      (Call_Scan # map (\<lambda>b. Iterate (Read_Bytes b [])) blocks @ ending) argv = Some (Inr (0, ls, Some d)) \<and>
    catalog_of ents exts d k = Some (row, {#}) \<and>
    sbb_main splitString db pread d fd raw' [Read_Request path sz offset] =
      Inr (0, [Read_Reply (int n) (replicate n None)], d') \<and> n = min (unat sz) (unat (row_length row) - unat offset)"
proof -
  let ?c = "scan_nodes ns Map.empty"
  obtain ls d where d: "filehunter_main db open_disk open_db raw fuel
      (Call_Scan # map (\<lambda>b. Iterate (Read_Bytes b [])) blocks @ ending) argv = Some (Inr (0, ls, Some d))"
    "catalog_of ents exts d = ?c" "db_inv ents exts good d"
    by (rule newest_volume_recovered [where open_db = open_db and open_disk = open_disk and argv = argv, OF assms(1-4,6,5,7)])
  have "xs = {#}"
    using extents_elsewhere [OF image_own [OF assms(6)] assms(8), of Map.empty] assms(11)
    by (simp add: cat_exts_def cat_get_def)
  with assms(11) have k: "?c k = Some (row, {#})" by simp
  with assms(10) have "lookup_path (catalog_of ents exts d) (splitString path 47) k (row, {#})"
    by (simp add: lookup_path_def d(2))
  from read_without_extents [where d = d and ents = ents and exts = exts and splitString = splitString and path = path
      and k = k and pread = pread and fd = fd and raw = raw', OF assms(1) d(3) assms(9) [folded d(2)] this assms(12,13)]
  show ?thesis using d(1,2) k by auto
qed

text \<open>A file of nine bytes whose inode record and extent lie in two nodes.\<close>

definition ex_split_nodes :: "scanned_node list" where
  "ex_split_nodes =
     [(5, [(2, Inode_Rec 2 1 None), (2, Dir_Rec 16 [97] 8)]),
      (6, [(16, Inode_Rec 16 2 (Some 9))]),
      (6, [(16, Other_Rec), (16, Extent_Rec 0 40 4096)])]"

lemma ex_split_image:
  "image_of (ex_split_nodes @ []) (map (\<lambda>(x, items). encode_node 4096 x items) ex_split_nodes @ [])"
proof -
  have "\<forall>(x, items) \<in> set ex_split_nodes. fits_node 4096 items"
    by (simp add: ex_split_nodes_def fits_node_def encode_key_def encode_value_def record_ok_def
        OBJ_TYPE_MASK_def J_FILE_EXTENT_LEN_MASK_def DREC_TYPE_MASK_def)
  from image_of_encoded [OF this image_of.finished] show ?thesis .
qed

lemma ex_split_catalog:
  "scan_nodes ex_split_nodes Map.empty =
     [2 \<mapsto> (blank_row 2\<lparr>row_parent := 1, row_version := 5\<rparr>, {#}),
      16 \<mapsto> (blank_row 16\<lparr>row_parent := 2, row_version := 6, row_type := 8, row_name := [97], row_length := 9\<rparr>, {#})]"
  by (simp add: ex_split_nodes_def spec_node_def records_of_def spec_group_def spec_dirrec_def
      spec_inode_def spec_extent_def cat_get_def blank_row_def fun_eq_iff)

theorem extents_elsewhere_lost_witness:
  "\<exists>ls d row d'. filehunter_main mem_db (\<lambda>_. 3) (\<lambda>_. no_tables) ex_disk 3
       (Call_Scan # map (\<lambda>b. Iterate (Read_Bytes b [])) (map (\<lambda>(x, items). encode_node 4096 x items) ex_split_nodes @ []) @
         [Iterate (Read_Bytes [] [])]) [[102], [105], [100]] = Some (Inr (0, ls, Some d)) \<and>
     catalog_of mem_ents mem_exts d 16 = Some (row, {#}) \<and>
     sbb_main ex_split mem_db (\<lambda>_. image_pread ex_mapped_image) d 3 ex_disk [Read_Request [47, 97] 4 1] =
       Inr (0, [Read_Reply 4 [None, None, None, None]], d')"
proof -
  let ?c = "scan_nodes (ex_split_nodes @ []) Map.empty"
  let ?row = "blank_row 16\<lparr>row_parent := 2, row_version := 6, row_type := 8, row_name := [97], row_length := 9\<rparr>"
  have c: "?c = [2 \<mapsto> (blank_row 2\<lparr>row_parent := 1, row_version := 5\<rparr>, {#}), 16 \<mapsto> (?row, {#})]"
    by (simp add: ex_split_catalog)
  have tree: "\<not> runs_out ?c 3 2"
  proof (rule runs_out_finite)
    show "finite (dom ?c)" "card (dom ?c) < 3" unfolding c by simp_all
    show "(2, 2) \<notin> (parent_of ?c)\<^sup>+"
      by (rule root_not_on_cycle [where row = "blank_row 2\<lparr>row_parent := 1, row_version := 5\<rparr>" and x = "{#}"]) (simp_all only: c, simp_all)
  qed
  have apart: "\<forall>(x, items) \<in> set (ex_split_nodes @ []). (\<exists>la pb len. (16, Extent_Rec la pb len) \<in> set items) \<longrightarrow>
      (\<forall>j p n. (16, Inode_Rec j p n) \<notin> set items)"
    by (simp add: ex_split_nodes_def)
  have m: "mountable ?c" unfolding c mountable_def unique_names_def by (auto simp: blank_row_def split: if_splits)
  have path: "path_to ?c 2 (ex_split [47, 97] 47) 16"
    unfolding c by (simp add: ex_split_def path_to_Cons)
  have row: "?c 16 = Some (?row, {#})" unfolding c by simp
  have b: "unat (1 :: u64) + unat (4 :: u64) < 2 ^ 64" "unat (4 :: u64) < 2 ^ 31" by simp_all
  from extents_elsewhere_lost [where open_db = "\<lambda>_. no_tables" and open_disk = "\<lambda>_. 3" and argv = "[[102], [105], [100]]"
      and pread = "\<lambda>_. image_pread ex_mapped_image" and fd = 3 and raw' = ex_disk and splitString = ex_split
      and path = "[47, 97]" and k = 16 and ns = "ex_split_nodes @ []" and ents = mem_ents and exts = mem_exts,
      OF mem.sql_store_axioms ex_start scan_end.end_of_disk [of "[]"] ex_split_image tree apart m path row b]
  obtain ls d n d' where r: "filehunter_main mem_db (\<lambda>_. 3) (\<lambda>_. no_tables) ex_disk 3
       (Call_Scan # map (\<lambda>b. Iterate (Read_Bytes b [])) (map (\<lambda>(x, items). encode_node 4096 x items) ex_split_nodes @ []) @
         [Iterate (Read_Bytes [] [])]) [[102], [105], [100]] = Some (Inr (0, ls, Some d))"
    "catalog_of mem_ents mem_exts d 16 = Some (?row, {#})"
    "sbb_main ex_split mem_db (\<lambda>_. image_pread ex_mapped_image) d 3 ex_disk [Read_Request [47, 97] 4 1] =
       Inr (0, [Read_Reply (int n) (replicate n None)], d')"
    "n = min (unat (4 :: u64)) (unat (row_length ?row) - unat (1 :: u64))" by blast
  have n: "n = 4" unfolding r(4) by simp
  have "replicate 4 (None :: u8 option) = [None, None, None, None]" by (simp add: numeral_eq_Suc)
  then show ?thesis using r(1,2) r(3) [unfolded n] by (intro exI conjI) simp_all
qed

end
