(* ===== verification/Newest_Served.thy ===== *)
theory Newest_Served
  imports Newest_Volume
begin

text \<open>
  The newest state of a volume, from the image to the answers of the mounted file system: what
  \<open>sbbfuse\<close> replies to requests for the paths of the volume, said of the volume alone.
\<close>

section \<open>What the volume answers\<close>

text \<open>
  The object a path of the volume leads to. The attributes of an object are those of \<open>getattr\<close>; a
  directory is listed with the names of its children and, unless \<open>alone\<close>, of deleted files that
  the database has for it too.
\<close>

definition volume_object :: "fs_object list \<Rightarrow> cpp_string list \<Rightarrow> fs_object \<Rightarrow> bool" where
  "volume_object obs parts ob \<longleftrightarrow> ob \<in> set obs \<and> oid ob \<noteq> ROOT_DIR_PARENT \<and> volume_path obs 2 parts (oid ob)"

definition object_attr :: "u32 \<Rightarrow> u64 \<Rightarrow> file_stat \<Rightarrow> file_stat" where
  "object_attr t n st =
     (if t = 8 then \<lparr>st_mode = 0x8124, st_nlink = 1, st_size = n\<rparr>
      else if t = 4 then st\<lparr>st_mode := 0x41ed, st_nlink := 2\<rparr> else st)"

definition kid_names :: "fs_object \<Rightarrow> cpp_string multiset" where
  "kid_names dir = mset (map (\<lambda>(f, nam, t). c_str nam) (okids dir))"

inductive volume_answers :: "bool \<Rightarrow> fs_object list \<Rightarrow> splitter \<Rightarrow> u8 list \<Rightarrow> fuse_request \<Rightarrow> fuse_reply \<Rightarrow> bool"
  for alone obs splitString img where
  getattr: "volume_object obs (splitString path 47) ob \<Longrightarrow> map_of (links obs) (oid ob) = Some (nam, t) \<Longrightarrow>
    (\<And>n. olength ob = Some n \<Longrightarrow> n = len) \<Longrightarrow>
    volume_answers alone obs splitString img (Getattr_Request path st) (Getattr_Reply 0 (object_attr t len st))"
| readdir: "volume_object obs (splitString path 47) dir \<Longrightarrow> kid_names dir \<subseteq># mset names \<Longrightarrow>
    (alone \<Longrightarrow> kid_names dir = mset names) \<Longrightarrow>
    volume_answers alone obs splitString img (Readdir_Request path) (Readdir_Reply 0 ([46] # [46, 46] # names))"
| opened: "volume_object obs (splitString path 47) ob \<Longrightarrow>
    volume_answers alone obs splitString img (Open_Request path flags) (Open_Reply (if flags AND 3 = 0 then 0 else - 13))"
| read: "volume_object obs (splitString path 47) ob \<Longrightarrow> olength ob = Some n \<Longrightarrow>
    mset (map row_of_extent xs) = mset (oextents ob) \<Longrightarrow> well_mapped img (unat n) xs \<Longrightarrow>
    volume_answers alone obs splitString img (Read_Request path sz offset)
      (Read_Reply (int (min (unat sz) (unat n - unat offset)))
        (map Some (take (unat sz) (drop (unat offset) (file_content img (unat n) xs)))))"

inductive_cases volume_getattrE: "volume_answers alone obs splitString img (Getattr_Request path st) reply"
inductive_cases volume_readdirE: "volume_answers alone obs splitString img (Readdir_Request path) reply"
inductive_cases volume_readE: "volume_answers alone obs splitString img (Read_Request path sz offset) reply"

text \<open>
  The requests for the volume: the path is one of the volume, \<open>getattr\<close> asks for an object that has a
  directory record, and \<open>read\<close> for a file with extents that lie in the image without a hole.
\<close>

fun volume_request :: "fs_object list \<Rightarrow> splitter \<Rightarrow> u8 list \<Rightarrow> fuse_request \<Rightarrow> bool" where
  "volume_request obs splitString img (Getattr_Request path st) \<longleftrightarrow>
     (\<exists>ob. volume_object obs (splitString path 47) ob \<and> map_of (links obs) (oid ob) \<noteq> None)"
| "volume_request obs splitString img (Readdir_Request path) \<longleftrightarrow> (\<exists>ob. volume_object obs (splitString path 47) ob)"
| "volume_request obs splitString img (Open_Request path flags) \<longleftrightarrow> (\<exists>ob. volume_object obs (splitString path 47) ob)"
| "volume_request obs splitString img (Read_Request path sz offset) \<longleftrightarrow>
     unat offset + unat sz < 2 ^ 64 \<and> unat sz < 2 ^ 31 \<and>
     (\<exists>ob n xs. volume_object obs (splitString path 47) ob \<and> olength ob = Some n \<and> oextents ob \<noteq> [] \<and>
        mset (map row_of_extent xs) = mset (oextents ob) \<and> well_mapped img (unat n) xs)"

text \<open>No node speaks of an object that is not in the volume, and every object has a name.\<close>

definition nothing_else :: "fs_object list \<Rightarrow> scanned_node list \<Rightarrow> bool" where
  "nothing_else obs ns \<longleftrightarrow> (\<forall>n \<in> set ns. \<forall>k. names_object k n \<longrightarrow> k \<in> fst ` set (links obs))"

section \<open>The catalog of the nodes\<close>

lemma volume_object_entry:
  assumes "newest_state v obs ns" "own_nodes ns" "volume_object obs parts ob"
  obtains row exs where "lookup_path (scan_nodes ns Map.empty) parts (oid ob) (row, exs)"
    "newest_entry ob (map_of (links obs) (oid ob)) (row, exs)"
proof -
  have ob: "ob \<in> set obs" "oid ob \<noteq> ROOT_DIR_PARENT" "volume_path obs 2 parts (oid ob)"
    using assms(3) by (simp_all add: volume_object_def)
  obtain e where "scan_nodes ns Map.empty (oid ob) = Some e" "newest_entry ob (map_of (links obs) (oid ob)) e"
    by (rule newest_entries [OF assms(1,2) ob(1,2)])
  with volume_path_followed [OF ob(3) assms(1,2)] show thesis
    by (intro that [of "fst e" "snd e"]) (simp_all add: lookup_path_def)
qed

text \<open>
  The children of a directory of the volume are among those of the catalog, each once, and there are no
  others when nothing else is on the image.
\<close>

lemma children_of_volume:
  assumes new: "newest_state v obs ns" "own_nodes ns" and u: "unique_names (scan_nodes ns Map.empty)" and dir: "dir \<in> set obs"
  obtains ys where "distinct ys" "kid_names dir = mset (map (\<lambda>y. c_str (row_name (fst y))) ys)"
    "set ys \<subseteq> {y. \<exists>j. scan_nodes ns Map.empty j = Some y \<and> row_parent (fst y) = oid dir}"
    "nothing_else obs ns \<longrightarrow> {y. \<exists>j. scan_nodes ns Map.empty j = Some y \<and> row_parent (fst y) = oid dir} \<subseteq> set ys"
proof -
  let ?c = "scan_nodes ns Map.empty"
  let ?ys = "map (\<lambda>k. the (?c (fst k))) (okids dir)"
  have kid: "\<exists>e. ?c (fst k) = Some e \<and> row_parent (fst e) = oid dir \<and> row_name (fst e) = fst (snd k)" if "k \<in> set (okids dir)" for k
  proof -
    obtain f nam t where k: "k = (f, nam, t)" by (cases k)
    from that show ?thesis unfolding k by (rule newest_link [OF new dir]) auto
  qed
  have same: "f = f'" if "?c f = Some e" "?c f' = Some e" for f f' e
    using u that unfolding unique_names_def by (cases e) blast
  have "distinct (map fst (okids dir))"
    using new(1) dir by (simp add: newest_state_def volume_ok_def links_def map_concat distinct_concat_iff)
  moreover have "inj_on (\<lambda>f. the (?c f)) (fst ` set (okids dir))"
  proof (rule inj_onI)
    fix f f' assume "f \<in> fst ` set (okids dir)" "f' \<in> fst ` set (okids dir)" "the (?c f) = the (?c f')"
    moreover from this kid obtain e e' where "?c f = Some e" "?c f' = Some e'" by (auto elim!: imageE) blast
    ultimately show "f = f'" using same by simp
  qed
  ultimately have "distinct (map (\<lambda>f. the (?c f)) (map fst (okids dir)))"
    unfolding distinct_map [of "\<lambda>f. the (?c f)"] set_map by (rule conjI)
  then have "distinct ?ys" by (simp add: comp_def)
  moreover have "map (\<lambda>y. c_str (row_name (fst y))) ?ys = map (\<lambda>(f, nam, t). c_str nam) (okids dir)"
    unfolding map_map by (rule map_cong [OF refl]) (use kid in \<open>fastforce simp: case_prod_unfold\<close>)
  then have "kid_names dir = mset (map (\<lambda>y. c_str (row_name (fst y))) ?ys)" by (simp only: kid_names_def)
  moreover have "set ?ys \<subseteq> {y. \<exists>j. ?c j = Some y \<and> row_parent (fst y) = oid dir}" using kid by fastforce
  moreover have others: "y \<in> set ?ys" if alone: "nothing_else obs ns" and y: "?c j = Some y" "row_parent (fst y) = oid dir" for j y
  proof -
    have "j \<in> fst ` set (links obs)"
    proof (rule ccontr)
      assume "j \<notin> fst ` set (links obs)"
      then have "\<forall>n \<in> set ns. \<not> names_object j n" using alone by (auto simp: nothing_else_def)
      from scan_nodes_other [OF this, of Map.empty] y(1) show False by simp
    qed
    then obtain dir' nam t where l: "dir' \<in> set obs" "(j, nam, t) \<in> set (okids dir')" by (auto simp: set_links)
    obtain e where "?c j = Some e" "row_parent (fst e) = oid dir'" by (rule newest_link [OF new l])
    with y have "oid dir' = oid dir" by simp
    then have "dir' = dir" using new(1) l(1) dir by (auto simp: newest_state_def volume_ok_def distinct_map dest: inj_onD)
    with l(2) y(1) show ?thesis by force
  qed
  moreover have "nothing_else obs ns \<longrightarrow> {y. \<exists>j. ?c j = Some y \<and> row_parent (fst y) = oid dir} \<subseteq> set ?ys" using others by blast
  ultimately show thesis by (intro that)
qed

lemma listing_of_volume:
  assumes new: "newest_state v obs ns" "own_nodes ns" and u: "unique_names (scan_nodes ns Map.empty)" and dir: "dir \<in> set obs"
    and cs: "distinct cs" "set cs = {y. \<exists>j. scan_nodes ns Map.empty j = Some y \<and> row_parent (fst y) = oid dir}"
  shows "kid_names dir \<subseteq># mset (map (\<lambda>y. c_str (row_name (fst y))) cs)"
    "nothing_else obs ns \<Longrightarrow> kid_names dir = mset (map (\<lambda>y. c_str (row_name (fst y))) cs)"
proof -
  obtain ys where ys: "distinct ys" "kid_names dir = mset (map (\<lambda>y. c_str (row_name (fst y))) ys)" "set ys \<subseteq> set cs"
    "nothing_else obs ns \<longrightarrow> set cs \<subseteq> set ys"
    by (rule children_of_volume [OF new u dir, folded cs(2)])
  have "mset ys \<subseteq># mset cs"
    unfolding mset_set_set [OF ys(1), symmetric] mset_set_set [OF cs(1), symmetric]
    by (rule subset_imp_msubset_mset_set [OF ys(3)]) simp
  then show "kid_names dir \<subseteq># mset (map (\<lambda>y. c_str (row_name (fst y))) cs)"
    unfolding ys(2) mset_map by (rule image_mset_subseteq_mono)
  assume "nothing_else obs ns"
  with ys(3,4) have "set ys = set cs" by blast
  then have "mset ys = mset cs" using ys(1) cs(1) by (simp add: set_eq_iff_mset_eq_distinct)
  then show "kid_names dir = mset (map (\<lambda>y. c_str (row_name (fst y))) cs)" by (simp add: ys(2))
qed

section \<open>From the catalog to the volume\<close>

lemma type_of_dir_record: "scast (t :: u32) = (8 :: u64) \<longleftrightarrow> t = 8" "scast (t :: u32) = (4 :: u64) \<longleftrightarrow> t = 4"
proof -
  have "t = ucast (scast t :: u64)" by (simp add: type_round_trip)
  then show "scast t = (8 :: u64) \<longleftrightarrow> t = 8" "scast t = (4 :: u64) \<longleftrightarrow> t = 4" by auto
qed

lemma attr_of_object:
  assumes "newest_entry ob (Some (nam, t)) (row, exs)"
  shows "attr_of row st = object_attr t (row_length row) st"
  using assms by (simp add: newest_entry_def attr_of_def object_attr_def type_of_dir_record)

lemma volume_request_servable:
  assumes new: "newest_state v obs ns" "own_nodes ns" and m: "mountable (scan_nodes ns Map.empty)"
    and req: "volume_request obs splitString img req"
  shows "servable (scan_nodes ns Map.empty) splitString img req"
proof (cases req)
  case (Read_Request path sz offset)
  with req obtain ob n xs where ob: "volume_object obs (splitString path 47) ob" "olength ob = Some n" "oextents ob \<noteq> []"
    "mset (map row_of_extent xs) = mset (oextents ob)" "well_mapped img (unat n) xs"
    and bounds: "unat offset + unat sz < 2 ^ 64" "unat sz < 2 ^ 31" by auto
  obtain row exs where l: "lookup_path (scan_nodes ns Map.empty) (splitString path 47) (oid ob) (row, exs)"
    and e: "newest_entry ob (map_of (links obs) (oid ob)) (row, exs)"
    by (rule volume_object_entry [OF new ob(1)])
  have "mset (map row_of_extent xs) = exs'" "well_mapped img (unat (row_length row')) xs"
    if "lookup_path (scan_nodes ns Map.empty) (splitString path 47) k (row', exs')" for k row' exs'
    using lookup_path_unique [OF m l that] e ob(2-5) by (simp_all add: newest_entry_def)
  with bounds show ?thesis unfolding Read_Request servable_def fuse_request.case by blast
qed (simp_all add: servable_def)

lemma answers_of_volume:
  assumes new: "newest_state v obs ns" "own_nodes ns" and m: "mountable (scan_nodes ns Map.empty)"
    and req: "volume_request obs splitString img req"
    and reply: "answers (scan_nodes ns Map.empty) splitString img req reply"
  shows "volume_answers (nothing_else obs ns) obs splitString img req reply"
  using reply
proof cases
  case (getattr_missing path st)
  with req volume_object_entry [OF new] show ?thesis by (metis volume_request.simps(1))
next
  case (getattr_found path k row exs st)
  with req obtain ob nam t where ob: "volume_object obs (splitString path 47) ob" "map_of (links obs) (oid ob) = Some (nam, t)" by auto
  obtain row' exs' where l: "lookup_path (scan_nodes ns Map.empty) (splitString path 47) (oid ob) (row', exs')"
    and e: "newest_entry ob (Some (nam, t)) (row', exs')"
    by (rule volume_object_entry [OF new ob(1), unfolded ob(2)])
  from lookup_path_unique [OF m l getattr_found(3)] have "row' = row" by simp
  with e attr_of_object [OF e, of st] show ?thesis
    unfolding getattr_found(1,2)
    by (auto simp: newest_entry_def intro!: volume_answers.getattr [where splitString = splitString and path = path, OF ob])
next
  case (readdir_missing path)
  with req volume_object_entry [OF new] show ?thesis by (metis volume_request.simps(2))
next
  case (readdir_found path k x cs)
  with req obtain ob where ob: "volume_object obs (splitString path 47) ob" by auto
  obtain row exs where l: "lookup_path (scan_nodes ns Map.empty) (splitString path 47) (oid ob) (row, exs)"
    by (rule volume_object_entry [OF new ob])
  from lookup_path_unique [OF m l readdir_found(3)] readdir_found(5)
  have cs: "set cs = {y. \<exists>j. scan_nodes ns Map.empty j = Some y \<and> row_parent (fst y) = oid ob}" by simp
  have u: "unique_names (scan_nodes ns Map.empty)" and dir: "ob \<in> set obs"
    using m ob by (simp_all add: mountable_def volume_object_def)
  from listing_of_volume [OF new u dir readdir_found(4) cs] show ?thesis
    unfolding readdir_found(1,2) by (intro volume_answers.readdir [where splitString = splitString and path = path, OF ob]) simp_all
next
  case (open_missing path flags)
  with req volume_object_entry [OF new] show ?thesis by (metis volume_request.simps(3))
next
  case (open_found path k x flags)
  with req obtain ob where "volume_object obs (splitString path 47) ob" by auto
  then show ?thesis unfolding open_found(1,2) by (rule volume_answers.opened)
next
  case (read_missing path sz offset)
  with req volume_object_entry [OF new] show ?thesis by (metis volume_request.simps(4))
next
  case (read_found path k row exs xs sz offset)
  with req obtain ob n where ob: "volume_object obs (splitString path 47) ob" "olength ob = Some n" "oextents ob \<noteq> []" by auto
  obtain row' exs' where l: "lookup_path (scan_nodes ns Map.empty) (splitString path 47) (oid ob) (row', exs')"
    and e: "newest_entry ob (map_of (links obs) (oid ob)) (row', exs')"
    by (rule volume_object_entry [OF new ob(1)])
  from lookup_path_unique [OF m l read_found(3)] e ob(2,3) have "row_length row = n" "exs = mset (oextents ob)"
    by (simp_all add: newest_entry_def)
  with read_found(4,5) have "mset (map row_of_extent xs) = mset (oextents ob)" "well_mapped img (unat n) xs" "row_length row = n"
    by simp_all
  then show ?thesis
    unfolding read_found(1,2)
    by (simp only:) (rule volume_answers.read [where splitString = splitString and path = path, OF ob(1,2)])
qed

section \<open>Properties\<close>

text \<open>
  C1. The newest state, from the image to the files. The database that \<open>filehunter\<close> has written from an
  image with the newest state of a volume (\<open>newest_state\<close>, with the order of records it asks for), among
  older nodes, is one \<open>sbbfuse\<close> can serve, as
  long as no two entries of a directory share a name: every sequence of requests for paths of the volume
  is answered as the volume says, with the attributes and the bytes of the object the path leads to. A
  directory is listed with the names of its children and of deleted files, and with no others when no node
  speaks of an object that is gone.
\<close>
theorem newest_volume_served:
  assumes "sql_store db ents exts good" and "db_inv ents exts good (open_db (argv ! 2))"
    and "m_scanners raw = []" and "2 < length argv"
    and "image_of ns blocks" and "newest_state v obs ns"
    and "root \<in> set obs" and "oid root = 2" and "oparent root = ROOT_DIR_PARENT"
    and "\<forall>n \<in> set ns. \<not> names_object ROOT_DIR_PARENT n" and "scan_end ending"
    and "unique_names (scan_nodes ns Map.empty)" and "image_device (pread fd) (concat blocks @ unread)"
    and "\<forall>req \<in> set reqs. volume_request obs splitString (concat blocks @ unread) req"
  shows "\<exists>n. \<forall>fuel. n < fuel \<longrightarrow> (\<exists>ls d replies d'. filehunter_main db open_disk open_db raw fuel
      (Call_Scan # map (\<lambda>b. Iterate (Read_Bytes b [])) blocks @ ending) argv = Some (Inr (0, ls, Some d)) \<and>
    sbb_main splitString db pread d fd raw' reqs = Inr (0, replies, d') \<and>
    list_all2 (volume_answers (nothing_else obs ns) obs splitString (concat blocks @ unread)) reqs replies)"
    (is "\<exists>n. \<forall>fuel. n < fuel \<longrightarrow> ?served fuel")
proof (rule exI [of _ "card (dom (scan_nodes ns Map.empty))"], intro allI impI)
  fix fuel assume fuel: "card (dom (scan_nodes ns Map.empty)) < fuel"
  let ?c = "scan_nodes ns Map.empty" and ?img = "concat blocks @ unread"
  note new = assms(6) image_own [OF assms(5)]
  obtain ls d where main: "filehunter_main db open_disk open_db raw fuel
      (Call_Scan # map (\<lambda>b. Iterate (Read_Bytes b [])) blocks @ ending) argv = Some (Inr (0, ls, Some d))"
    "catalog_of ents exts d = ?c" "db_inv ents exts good d"
    by (rule newest_volume_recovered [where open_db = open_db and open_disk = open_disk and argv = argv,
        OF assms(1-5,11) newest_tree [OF new assms(7-10) fuel]])
  have "oid root \<noteq> ROOT_DIR_PARENT" by (simp add: assms(8) ROOT_DIR_PARENT_def)
  then obtain e where "?c (oid root) = Some e" by (rule newest_entries [OF new assms(7)])
  then have m: "mountable ?c" using assms(12) by (simp add: mountable_def assms(8))
  have "\<forall>req \<in> set reqs. servable ?c splitString ?img req"
    using assms(14) volume_request_servable [OF new m] by blast
  then obtain replies d' where served: "sbb_main splitString db pread d fd raw' reqs = Inr (0, replies, d')"
    "list_all2 (answers ?c splitString ?img) reqs replies"
    using sql_store.sbb_main_serves [where pread = pread and fd = fd and splitString = splitString and img = ?img
        and reqs = reqs and raw = raw', OF assms(1) main(3), unfolded main(2), OF m assms(13)] by blast
  have "list_all2 (volume_answers (nothing_else obs ns) obs splitString ?img) reqs replies"
    using served(2)
  proof (rule list.rel_mono_strong)
    fix req reply assume "req \<in> set reqs" "answers ?c splitString ?img req reply"
    with assms(14) show "volume_answers (nothing_else obs ns) obs splitString ?img req reply"
      by (intro answers_of_volume [OF new m]) simp_all
  qed
  with main(1) served(1) show "?served fuel" by blast
qed

lemma ex_changed_length: "length (concat (ex_changed_image 99)) = 20480"
proof -
  have "\<forall>(x, items) \<in> set (ex_nodes 99). length (encode_node 4096 x items) = 4096"
    using ex_nodes_fit [of 99] length_encode_node [of 4096] by fastforce
  then show ?thesis by (simp add: ex_changed_image_def ex_nodes_def)
qed

definition ex_root_found :: entry_row where
  "ex_root_found = \<lparr>row_inode = 2, row_parent = 1, row_version = 5, row_type = 4, row_name = [114, 111, 111, 116], row_length = 0, row_extver = 0\<rparr>"

definition ex_file_found :: entry_row where
  "ex_file_found = \<lparr>row_inode = 16, row_parent = 2, row_version = 7, row_type = 8, row_name = [97], row_length = 5, row_extver = 6\<rparr>"

lemma ex_nodes_catalog:
  "scan_nodes (ex_nodes 99) Map.empty =
     [2 \<mapsto> (ex_root_found, {#}), 16 \<mapsto> (ex_file_found, {#(0, 40, 4096)#}), 17 \<mapsto> (ex_gone_row\<lparr>row_name := [99]\<rparr>, {#})]"
  by (simp add: ex_nodes_def spec_node_def records_of_def spec_group_def spec_dirrec_def spec_inode_def spec_extent_def
      cat_get_def blank_row_def ex_gone_row_def ex_root_found_def ex_file_found_def fun_eq_iff)

lemma ex_nodes_unique: "unique_names (scan_nodes (ex_nodes 99) Map.empty)"
  unfolding unique_names_def ex_nodes_catalog
  by (auto simp: ex_gone_row_def ex_root_found_def ex_file_found_def split: if_splits)

lemma ex_object:
  "volume_object ex_newest (ex_split [47] 47) ob \<longleftrightarrow> ob = ex_dir"
  "volume_object ex_newest (ex_split [47, 97] 47) ob \<longleftrightarrow> ob = ex_leaf"
proof -
  have objects: "ob \<in> set ex_newest \<longleftrightarrow> ob = ex_top \<or> ob = ex_dir \<or> ob = ex_leaf" by (auto simp: ex_newest_def)
  have "volume_path ex_newest 2 [] k \<longleftrightarrow> k = 2" for k by (auto simp: volume_path_Nil)
  moreover have "volume_path ex_newest 2 [[97]] k \<longleftrightarrow> k = 16" for k
  proof
    assume "volume_path ex_newest 2 [[97]] k"
    then show "k = 16"
      by (auto simp: volume_path_Nil volume_path_Cons ex_newest_def ex_top_def ex_dir_def ex_leaf_def)
  qed (use ex_volume_path in simp)
  ultimately show "volume_object ex_newest (ex_split [47] 47) ob \<longleftrightarrow> ob = ex_dir"
    "volume_object ex_newest (ex_split [47, 97] 47) ob \<longleftrightarrow> ob = ex_leaf"
    unfolding volume_object_def objects by (auto simp: ex_top_def ex_dir_def ex_leaf_def ROOT_DIR_PARENT_def)
qed

lemma ex_listing:
  assumes "volume_answers alone ex_newest ex_split img (Readdir_Request [47]) reply"
  obtains names where "reply = Readdir_Reply 0 ([46] # [46, 46] # names)" "[97] \<in> set names"
  using assms
proof (rule volume_readdirE)
  fix dir names assume l: "reply = Readdir_Reply 0 ([46] # [46, 46] # names)" "volume_object ex_newest (ex_split [47] 47) dir"
    "kid_names dir \<subseteq># mset names"
  then have "{#[97]#} \<subseteq># mset names" unfolding ex_object by (simp add: kid_names_def ex_dir_def c_str_def)
  with l(1) show thesis by (intro that) simp_all
qed

lemma ex_content_read:
  assumes "volume_answers alone ex_newest ex_split (concat (ex_changed_image 99) @ ex_unread 20480) (Read_Request [47, 97] 9 1) reply"
  shows "reply = Read_Reply 4 (map Some [2, 3, 4, 5])"
  using assms
proof (cases rule: volume_readE [consumes 1, case_names bytes])
  case (bytes ob n xs)
  then have "n = 5" "image_mset row_of_extent (mset xs) = {#(0, 40, 4096)#}" unfolding ex_object by (simp_all add: ex_leaf_def)
  with bytes(1) ex_mapped_only [OF this(2)] show ?thesis by (simp add: ex_image_content [OF ex_changed_length])
qed

theorem newest_volume_served_witness:
  "\<exists>fuel ls d d' names. filehunter_main mem_db (\<lambda>_. 3) (\<lambda>_. no_tables) ex_disk fuel
       (Call_Scan # map (\<lambda>b. Iterate (Read_Bytes b [])) (ex_changed_image 99) @ [Call_Stop, Iterate Read_Error])
       [[102], [105], [100]] = Some (Inr (0, ls, Some d)) \<and>
     sbb_main ex_split mem_db (\<lambda>_. image_pread (concat (ex_changed_image 99) @ ex_unread 20480)) d 3 ex_disk
       [Readdir_Request [47], Read_Request [47, 97] 9 1] =
       Inr (0, [Readdir_Reply 0 ([46] # [46, 46] # names), Read_Reply 4 (map Some [2, 3, 4, 5])], d') \<and> [97] \<in> set names"
proof -
  let ?img = "concat (ex_changed_image 99) @ ex_unread 20480"
  let ?reqs = "[Readdir_Request [47], Read_Request [47, 97] 9 1]"
  let ?answers = "volume_answers (nothing_else ex_newest (ex_nodes 99)) ex_newest ex_split ?img"
  have image: "image_of (ex_nodes 99) (ex_changed_image 99)" by (rule ex_image) simp
  have "mset (map row_of_extent [ex_mapped]) = mset (oextents ex_leaf)" "olength ex_leaf = Some 5" "oextents ex_leaf \<noteq> []"
    by (simp_all add: ex_leaf_def row_of_extent_def ex_mapped_def)
  moreover have "well_mapped ?img (unat (5 :: u64)) [ex_mapped]" using ex_image_well [OF ex_changed_length] by simp
  ultimately have "volume_request ex_newest ex_split ?img (Read_Request [47, 97] 9 1)"
    unfolding volume_request.simps ex_object
    by (intro conjI exI [of _ ex_leaf] exI [of _ 5] exI [of _ "[ex_mapped]"]) simp_all
  moreover have "volume_request ex_newest ex_split ?img (Readdir_Request [47])"
    unfolding volume_request.simps ex_object by (rule exI) (rule refl)
  ultimately have ok: "\<forall>req \<in> set ?reqs. volume_request ex_newest ex_split ?img req"
    unfolding list.set ball_simps by blast
  from newest_volume_served [where open_db = "\<lambda>_. no_tables" and open_disk = "\<lambda>_. 3" and argv = "[[102], [105], [100]]"
      and pread = "\<lambda>_. image_pread ?img" and fd = 3 and raw' = ex_disk,
      OF mem.sql_store_axioms ex_start image ex_newest_state ex_root_object ex_no_parent scan_end.signal [of Read_Error]
        ex_nodes_unique image.image_device_axioms ok]
  obtain n where "\<forall>fuel. n < fuel \<longrightarrow> (\<exists>ls d replies d'. filehunter_main mem_db (\<lambda>_. 3) (\<lambda>_. no_tables) ex_disk fuel
       (Call_Scan # map (\<lambda>b. Iterate (Read_Bytes b [])) (ex_changed_image 99) @ [Call_Stop, Iterate Read_Error])
       [[102], [105], [100]] = Some (Inr (0, ls, Some d)) \<and>
     sbb_main ex_split mem_db (\<lambda>_. image_pread ?img) d 3 ex_disk ?reqs = Inr (0, replies, d') \<and>
     list_all2 ?answers ?reqs replies)" by blast
  then obtain ls d replies d' where r: "filehunter_main mem_db (\<lambda>_. 3) (\<lambda>_. no_tables) ex_disk (Suc n)
       (Call_Scan # map (\<lambda>b. Iterate (Read_Bytes b [])) (ex_changed_image 99) @ [Call_Stop, Iterate Read_Error])
       [[102], [105], [100]] = Some (Inr (0, ls, Some d))"
    "sbb_main ex_split mem_db (\<lambda>_. image_pread ?img) d 3 ex_disk ?reqs = Inr (0, replies, d')"
    "list_all2 ?answers ?reqs replies" using lessI [of n] by blast
  from r(3) obtain r1 r2 where rs: "replies = [r1, r2]" "?answers (Readdir_Request [47]) r1" "?answers (Read_Request [47, 97] 9 1) r2"
    by (auto simp: list_all2_Cons1)
  from rs(2) obtain names where names: "r1 = Readdir_Reply 0 ([46] # [46, 46] # names)" "[97] \<in> set names"
    by (rule ex_listing)
  have "r2 = Read_Reply 4 (map Some [2, 3, 4, 5])" using rs(3) by (rule ex_content_read)
  with r(1,2) rs(1) names show ?thesis by blast
qed

end
