(* ===== verification/Fuse_Threads.thy ===== *)
theory Fuse_Threads
  imports Fuse_Session
begin

text \<open>
  Requests at the same time. \<open>fuse_main\<close> serves requests in several threads; they share the file
  system, and \<open>FileSystem::findByPath\<close> is the only function that takes the mutex. A request is a thread
  that takes turns: it waits for the mutex, resolves its path, gives the mutex back and answers. A search and
  an answer take time: each begins in one turn and ends in another, and other threads may
  have turns between the two. A thread that begins to change data another thread is at work on, or to
  use data another is changing, is in a data race, a fault that ends it. What a search or an answer does takes effect at its end, which is
  how it looks to the others as long as none of them uses the same data at the same time.
  The lemmas hold for every schedule of the turns.
\<close>

section \<open>Threads\<close>

fun path_of :: "fuse_request \<Rightarrow> cpp_string" where
  "path_of (Getattr_Request path st) = path"
| "path_of (Readdir_Request path) = path"
| "path_of (Open_Request path flags) = path"
| "path_of (Read_Request path sz offset) = path"

text \<open>An operation after its call of \<open>findByPath\<close>.\<close>

fun answer_request ::
  "('d, 'r) database \<Rightarrow> (u64 \<Rightarrow> u64 \<Rightarrow> u8 list option) \<Rightarrow> fuse_request \<Rightarrow> nat option \<Rightarrow> 'd filesystem
     \<Rightarrow> (fuse_reply \<times> 'd filesystem) res" where
  "answer_request db pread (Getattr_Request path st) entry fs =
     and_then (getattr_entry st entry fs) (\<lambda>((n, st), fs). Inr (Getattr_Reply n st, fs))"
| "answer_request db pread (Open_Request path flags) entry fs =
     and_then (open_entry flags entry fs) (\<lambda>(n, fs). Inr (Open_Reply n, fs))"
| "answer_request db pread (Read_Request path sz offset) entry fs =
     and_then (read_entry pread sz offset entry fs) (\<lambda>((n, bs), fs). Inr (Read_Reply n bs, fs))"
| "answer_request db pread (Readdir_Request path) entry fs =
     and_then (readdir_entry db entry fs) (\<lambda>((n, ns), fs). Inr (Readdir_Reply n ns, fs))"

text \<open>The two parts make up the operation that one thread runs.\<close>

lemma sbb_oper_parts:
  "sbb_oper splitString db pread req fs =
     and_then (findByPath splitString db (path_of req) fs) (\<lambda>(entry, fs). answer_request db pread req entry fs)"
  by (cases req; cases "findByPath splitString db (path_of req) fs")
    (auto simp: sbb_oper_def sbb_getattr_def sbb_readdir_def sbb_open_def sbb_read_def)

text \<open>
  Where a thread is: before \<open>lock\<close>, inside \<open>findByPath\<close> with the mutex in the search and after it,
  behind it with the entry it was given, at work on the answer, and at its end.
\<close>

datatype phase =
    Waiting
  | Resolving
  | Resolved "nat option"
  | Answering "nat option"
  | Working "nat option"
  | Replied fuse_reply
  | Crashed fault

record fuse_thread =
  request :: fuse_request
  phase :: phase

record 'd mount =
  m_databaseMutex :: "nat option"
  mounted :: "'d filesystem"
  fuse_threads :: "fuse_thread list"

definition start :: "fuse_request list \<Rightarrow> 'd filesystem \<Rightarrow> 'd mount" where
  "start reqs fs =
     \<lparr>m_databaseMutex = None, mounted = fs, fuse_threads = map (\<lambda>req. \<lparr>request = req, phase = Waiting\<rparr>) reqs\<rparr>"

definition go :: "nat \<Rightarrow> phase \<Rightarrow> 'd mount \<Rightarrow> 'd mount" where
  "go i ph m = m\<lparr>fuse_threads := (fuse_threads m)[i := (fuse_threads m ! i)\<lparr>phase := ph\<rparr>]\<rparr>"

text \<open>
  The shared data a thread is at work on, and whether it may change them. The cache is searched and
  filled by \<open>findByPath\<close> with the mutex and by \<open>findByParentInode\<close>, which \<open>readdir\<close> calls, without it; \<open>read\<close>
  sorts the extents of its entry, which leaves an empty vector alone. All other members of an entry are
  written once, when the object is made and before it is in the cache, and only read from then on; the database
  is shared under the locks of SQLite.
\<close>

datatype shared_data = Disk_Entries | Extents_Of nat

fun at_work :: "'d filesystem \<Rightarrow> fuse_thread \<Rightarrow> (shared_data \<times> bool) list" where
  "at_work fs t =
     (case (phase t, request t) of
        (Resolving, _) \<Rightarrow> [(Disk_Entries, True)]
      | (Working (Some p), Readdir_Request path) \<Rightarrow> [(Disk_Entries, True)]
      | (Working (Some p), Read_Request path sz offset) \<Rightarrow>
          [(Extents_Of p, case heap fs p of None \<Rightarrow> False | Some e \<Rightarrow> extents e \<noteq> [])]
      | _ \<Rightarrow> [])"

definition clash :: "(shared_data \<times> bool) list \<Rightarrow> (shared_data \<times> bool) list \<Rightarrow> bool" where
  "clash xs ys \<longleftrightarrow> list_ex (\<lambda>(d, w). list_ex (\<lambda>(d', w'). d = d' \<and> (w \<or> w')) ys) xs"

text \<open>Thread \<open>i\<close> would clash with another one in phase \<open>ph\<close>.\<close>

definition races :: "nat \<Rightarrow> phase \<Rightarrow> 'd mount \<Rightarrow> bool" where
  "races i ph m \<longleftrightarrow>
     list_ex (\<lambda>j. j \<noteq> i \<and>
         clash (at_work (mounted m) ((fuse_threads m ! i)\<lparr>phase := ph\<rparr>)) (at_work (mounted m) (fuse_threads m ! j)))
       [0..<length (fuse_threads m)]"

text \<open>A thread begins what it does in phase \<open>ph\<close>.\<close>

definition set_out :: "nat \<Rightarrow> phase \<Rightarrow> 'd mount \<Rightarrow> 'd mount" where
  "set_out i ph m = go i (if races i ph m then Crashed DataRace else ph) m"

text \<open>A turn of thread \<open>i\<close>; \<open>None\<close> when it is blocked or at its end.\<close>

definition turn ::
  "splitter \<Rightarrow> ('d, 'r) database \<Rightarrow> (u64 \<Rightarrow> u64 \<Rightarrow> u8 list option) \<Rightarrow> nat \<Rightarrow> 'd mount \<Rightarrow> 'd mount option" where
  "turn splitString db pread i m =
     (if i < length (fuse_threads m)
      then (case phase (fuse_threads m ! i) of
          Waiting \<Rightarrow>
            if m_databaseMutex m = None then Some ((set_out i Resolving m)\<lparr>m_databaseMutex := Some i\<rparr>) else None
        | Resolving \<Rightarrow>
            Some (case findByPath splitString db (path_of (request (fuse_threads m ! i))) (mounted m) of
                Inl f \<Rightarrow> go i (Crashed f) m
              | Inr (entry, fs) \<Rightarrow> (go i (Resolved entry) m)\<lparr>mounted := fs\<rparr>)
        | Resolved entry \<Rightarrow> Some ((go i (Answering entry) m)\<lparr>m_databaseMutex := None\<rparr>)
        | Answering entry \<Rightarrow> Some (set_out i (Working entry) m)
        | Working entry \<Rightarrow>
            Some (case answer_request db pread (request (fuse_threads m ! i)) entry (mounted m) of
                Inl f \<Rightarrow> go i (Crashed f) m
              | Inr (reply, fs) \<Rightarrow> (go i (Replied reply) m)\<lparr>mounted := fs\<rparr>)
        | Replied reply \<Rightarrow> None
        | Crashed f \<Rightarrow> None)
      else None)"

text \<open>A schedule; a thread that is blocked passes.\<close>

fun take_turns ::
  "splitter \<Rightarrow> ('d, 'r) database \<Rightarrow> (u64 \<Rightarrow> u64 \<Rightarrow> u8 list option) \<Rightarrow> nat list \<Rightarrow> 'd mount \<Rightarrow> 'd mount" where
  "take_turns splitString db pread [] m = m"
| "take_turns splitString db pread (i # sched) m =
     take_turns splitString db pread sched
       (case turn splitString db pread i m of None \<Rightarrow> m | Some m' \<Rightarrow> m')"

lemma go_simps [simp]:
  "mounted (go i ph m) = mounted m" "m_databaseMutex (go i ph m) = m_databaseMutex m"
  "length (fuse_threads (go i ph m)) = length (fuse_threads m)"
  "map request (fuse_threads (go i ph m)) = map request (fuse_threads m)"
  by (simp_all add: go_def map_update list_update_same_conv)
    (metis list_update_id map_update)

lemma go_mounted:
  "(go i ph m)\<lparr>m_databaseMutex := x, mounted := mounted m\<rparr> = (go i ph m)\<lparr>m_databaseMutex := x\<rparr>"
  "(go i ph m)\<lparr>m_databaseMutex := m_databaseMutex m, mounted := fs\<rparr> = (go i ph m)\<lparr>mounted := fs\<rparr>"
  "(go i ph m)\<lparr>m_databaseMutex := m_databaseMutex m\<rparr> = go i ph m"
  "(go i ph m)\<lparr>mounted := mounted m\<rparr> = go i ph m"
  by (cases m; simp add: go_def)+

lemma go_nth:
  "j < length (fuse_threads m) \<Longrightarrow> fuse_threads (go i ph m) ! j =
     (if j = i then (fuse_threads m ! i)\<lparr>phase := ph\<rparr> else fuse_threads m ! j)"
  by (simp add: go_def)

lemma set_out_simps [simp]:
  "mounted (set_out i ph m) = mounted m" "m_databaseMutex (set_out i ph m) = m_databaseMutex m"
  "length (fuse_threads (set_out i ph m)) = length (fuse_threads m)"
  by (simp_all add: set_out_def)

text \<open>The five ways a thread goes on.\<close>

lemma turn_cases:
  assumes "turn splitString db pread i m = Some m'"
  obtains (lock) "i < length (fuse_threads m)" "phase (fuse_threads m ! i) = Waiting" "m_databaseMutex m = None"
      "m' = (set_out i Resolving m)\<lparr>m_databaseMutex := Some i\<rparr>"
    | (search) "i < length (fuse_threads m)" "phase (fuse_threads m ! i) = Resolving"
      "m' = (case findByPath splitString db (path_of (request (fuse_threads m ! i))) (mounted m) of
                Inl f \<Rightarrow> go i (Crashed f) m
              | Inr (entry, fs) \<Rightarrow> (go i (Resolved entry) m)\<lparr>mounted := fs\<rparr>)"
    | (unlock) entry where "i < length (fuse_threads m)" "phase (fuse_threads m ! i) = Resolved entry"
      "m' = (go i (Answering entry) m)\<lparr>m_databaseMutex := None\<rparr>"
    | (start_work) entry where "i < length (fuse_threads m)" "phase (fuse_threads m ! i) = Answering entry"
      "m' = set_out i (Working entry) m"
    | (answer) entry where "i < length (fuse_threads m)" "phase (fuse_threads m ! i) = Working entry"
      "m' = (case answer_request db pread (request (fuse_threads m ! i)) entry (mounted m) of
                Inl f \<Rightarrow> go i (Crashed f) m
              | Inr (reply, fs) \<Rightarrow> (go i (Replied reply) m)\<lparr>mounted := fs\<rparr>)"
  using assms by (auto simp: turn_def split: if_splits phase.splits)

section \<open>Races\<close>

text \<open>A thread has run into a data race; the next turn of thread \<open>i\<close> does.\<close>

definition raced :: "'d mount \<Rightarrow> bool" where
  "raced m \<longleftrightarrow> (\<exists>t \<in> set (fuse_threads m). phase t = Crashed DataRace)"

definition turn_races :: "nat \<Rightarrow> 'd mount \<Rightarrow> bool" where
  "turn_races i m \<longleftrightarrow>
     (case phase (fuse_threads m ! i) of
        Waiting \<Rightarrow> races i Resolving m
      | Answering entry \<Rightarrow> races i (Working entry) m
      | _ \<Rightarrow> False)"

lemma raced_go: "i < length (fuse_threads m) \<Longrightarrow> raced (go i (Crashed DataRace) m)"
  unfolding raced_def by (rule bexI [of _ "(fuse_threads m ! i)\<lparr>phase := Crashed DataRace\<rparr>"])
    (simp_all add: go_def set_update_memI)

lemma raced_frame [simp]: "raced (m\<lparr>m_databaseMutex := x\<rparr>) = raced m" "raced (m\<lparr>mounted := fs\<rparr>) = raced m"
  by (simp_all add: raced_def)

lemma raced_go_other:
  assumes "raced m" "i < length (fuse_threads m)" "phase (fuse_threads m ! i) \<noteq> Crashed DataRace"
  shows "raced (go i ph m)"
proof -
  from assms(1) obtain j where j: "j < length (fuse_threads m)" "phase (fuse_threads m ! j) = Crashed DataRace"
    by (auto simp: raced_def in_set_conv_nth)
  with assms(3) have "fuse_threads (go i ph m) ! j = fuse_threads m ! j" by (auto simp: go_nth)
  with j show ?thesis unfolding raced_def by (metis go_simps(3) nth_mem)
qed

text \<open>A race is never undone.\<close>

lemma turn_raced_still: "turn splitString db pread i m = Some m' \<Longrightarrow> raced m \<Longrightarrow> raced m'"
  by (cases rule: turn_cases [of splitString db pread i m m'])
    (auto simp: set_out_def raced_go_other split: sum.split prod.split)

lemma take_turns_raced: "raced m \<Longrightarrow> raced (take_turns splitString db pread sched m)"
proof (induction sched arbitrary: m)
  case (Cons i sched)
  then have "raced (case turn splitString db pread i m of None \<Rightarrow> m | Some m' \<Rightarrow> m')"
    using turn_raced_still by (auto split: option.split)
  with Cons.IH show ?case by simp
qed simp

lemma turn_raced: "turn splitString db pread i m = Some m' \<Longrightarrow> turn_races i m \<Longrightarrow> raced m'"
  by (cases rule: turn_cases [of splitString db pread i m m']) (auto simp: turn_races_def set_out_def raced_go)

lemma set_out_free: "\<not> races i ph m \<Longrightarrow> set_out i ph m = go i ph m"
  by (simp add: set_out_def)

section \<open>The entry a thread was given\<close>

definition resolved :: "catalog \<Rightarrow> cpp_string list \<Rightarrow> 'd filesystem \<Rightarrow> nat option \<Rightarrow> bool" where
  "resolved c parts fs q \<longleftrightarrow>
     (case q of
        None \<Rightarrow> \<forall>k x. \<not> lookup_path c parts k x
      | Some p \<Rightarrow> \<exists>e. heap fs p = Some e \<and> lookup_path c parts (inode e) (abs_entry e))"

lemma resolved_None: "resolved c parts fs None \<longleftrightarrow> (\<forall>k x. \<not> lookup_path c parts k x)"
  by (simp only: resolved_def option.case)

text \<open>Every object keeps what it says; the order of its extents may change.\<close>

definition same_entries :: "'d filesystem \<Rightarrow> 'd filesystem \<Rightarrow> bool" where
  "same_entries fs fs' \<longleftrightarrow> m_database fs' = m_database fs \<and>
     smap_find (m_diskEntries fs) \<subseteq>\<^sub>m smap_find (m_diskEntries fs') \<and>
     (\<forall>p e. heap fs p = Some e \<longrightarrow> (\<exists>e'. heap fs' p = Some e' \<and> inode e' = inode e \<and> abs_entry e' = abs_entry e))"

lemma extends_same_entries: "extends fs fs' \<Longrightarrow> same_entries fs fs'"
  unfolding same_entries_def using extends_heap by (fastforce simp: extends_def)

lemma resolved_same: "same_entries fs fs' \<Longrightarrow> resolved c parts fs q \<Longrightarrow> resolved c parts fs' q"
  by (cases q) (fastforce simp: resolved_def same_entries_def)+

lemma store_sorted_same:
  assumes "heap fs p = Some e"
  shows "same_entries fs (store p (e\<lparr>extents := sort_key logicalAddress (extents e)\<rparr>) fs)"
  using assms by (simp add: same_entries_def abs_entry_def row_of_def abs_extents_def)

section \<open>Which objects are shared\<close>

text \<open>
  \<open>findByName\<close> makes a new object for every entry it finds, so \<open>findByPath\<close> returns an object
  nobody else has, unless the path has no part; then it is the cached root.
\<close>

lemma getEntryFromQuery_fresh:
  "getEntryFromQuery db r fs = (p, fs') \<Longrightarrow> p = next_ptr fs \<and> next_ptr fs' = Suc (next_ptr fs)"
  by (auto simp: getEntryFromQuery_def alloc_def Let_def)

lemma findByName_fresh:
  "findByName db i nam fs = (q, fs') \<Longrightarrow> next_ptr fs \<le> next_ptr fs' \<and> (\<forall>p. q = Some p \<longrightarrow> next_ptr fs \<le> p)"
  by (auto simp: findByName_def Let_def dest!: getEntryFromQuery_fresh split: prod.splits if_splits list.splits)

lemma walk_parts_fresh:
  "walk_parts db parts q fs = Inr (Some p, fs') \<Longrightarrow> q = Some p \<or> next_ptr fs \<le> p"
proof (induction parts arbitrary: q fs)
  case (Cons part parts)
  then obtain p0 e q1 fs1 where w: "q = Some p0" "findByName db (inode (e :: Entry)) part fs = (Some q1, fs1)"
    "walk_parts db parts (Some q1) fs1 = Inr (Some p, fs')"
    by (auto split: option.splits prod.splits simp: and_then_def deref_def)
  from findByName_fresh [OF w(2)] Cons.IH [OF w(3)] show ?case by auto
qed simp

context sql_store
begin

lemma findByPath_private:
  assumes inv: "fs_inv ents exts good fs" and m: "mountable (catalog_of ents exts (m_database fs))"
    and f: "findByPath splitString db path fs = Inr (Some p, fs')"
  shows "next_ptr fs \<le> p \<or> smap_find (m_diskEntries fs') 2 = Some p"
proof -
  obtain r fs1 where find: "findByInode db 2 fs = (r, fs1)" by fastforce
  note spec = findByInode_spec [OF inv find]
  from m spec(3) obtain q e where q: "r = Some q" "at_hand fs1 2 q e" by (cases r) (auto simp: mountable_def)
  have w: "walk_parts db (splitString path 47) (Some q) fs1 = Inr (Some p, fs')"
    using f find q(1) by (simp add: findByPath_def)
  have c: "catalog_of ents exts (m_database fs1) (inode e) = Some (abs_entry e)" "heap fs1 q = Some e"
    using at_hand_settled(2) [OF spec(1) q(2)] q(2) by (simp_all add: at_hand_def)
  from walk_parts_spec [OF spec(1) c(2,1), of "splitString path 47"] w have "extends fs1 fs'" by auto
  then have "smap_find (m_diskEntries fs') 2 = Some q"
    using q(2) by (auto simp: at_hand_def extends_def map_le_def dom_def)
  moreover have "next_ptr fs \<le> next_ptr fs1"
    using find by (auto simp: findByInode_def dest!: getEntryFromQuery_fresh split: option.splits list.splits prod.splits)
  ultimately show ?thesis using walk_parts_fresh [OF w] by auto
qed

lemma findByPath_resolved:
  assumes "fs_inv ents exts good fs" "mountable (catalog_of ents exts (m_database fs))"
  obtains q fs' where "findByPath splitString db path fs = Inr (q, fs')" "fs_inv ents exts good fs'" "extends fs fs'"
    "resolved (catalog_of ents exts (m_database fs)) (splitString path 47) fs' q"
  using assms
proof (cases rule: findByPath_cases [where splitString = splitString and path = path, consumes 2, case_names missing found])
  case (missing fs')
  show thesis by (rule that [OF missing(1-3)]) (unfold resolved_None, intro allI, rule missing(4))
next
  case (found p e fs')
  then show thesis by (intro that) (auto simp: resolved_def)
qed

section \<open>Answers\<close>

text \<open>The second part of an operation, on whatever the other threads have left.\<close>

lemma answer_request_spec:
  assumes inv: "fs_inv ents exts good fs" and c: "catalog_of ents exts (m_database fs) = c"
    and "mountable c" and dev: "image_device pread img"
    and ok: "servable c splitString img req" and q: "resolved c (splitString (path_of req) 47) fs q"
  obtains reply fs' where "answer_request db pread req q fs = Inr (reply, fs')" "fs_inv ents exts good fs'"
    "same_entries fs fs'" "answers c splitString img req reply"
    "(\<forall>path. req \<noteq> Readdir_Request path) \<longrightarrow>
       fs' = fs \<or> (\<exists>p e. q = Some p \<and> heap fs p = Some e \<and>
         fs' = store p (e\<lparr>extents := sort_key logicalAddress (extents e)\<rparr>) fs)"
proof (cases q)
  case None
  then have no: "\<not> (\<exists>k x. lookup_path c (splitString (path_of req) 47) k x)" using q by (simp add: resolved_def)
  show thesis
    using None no inv
    by (cases req) (auto intro!: that extends_same_entries intro: answers.intros)
next
  case (Some p)
  then obtain e where e: "heap fs p = Some e" "lookup_path c (splitString (path_of req) 47) (inode e) (row_of e, abs_extents e)"
    using q by (auto simp: resolved_def abs_entry_def)
  show thesis
  proof (cases req)
    case (Getattr_Request path st)
    then show thesis
      using Some e inv answers.getattr_found [of c splitString path, OF e(2) [unfolded Getattr_Request path_of.simps]]
      by (intro that [of "Getattr_Reply 0 (attr_of (row_of e) st)" fs]) (simp_all add: getattr_at extends_same_entries)
  next
    case (Open_Request path flags)
    then show thesis
      using Some e inv answers.open_found [of c splitString path, OF e(2) [unfolded Open_Request path_of.simps]]
      by (intro that [of "Open_Reply (if flags AND 3 = 0 then 0 else - 13)" fs]) (simp_all add: open_at extends_same_entries)
  next
    case (Readdir_Request path)
    obtain cs fs' where r: "readdir_entry db (Some p) fs = Inr ((0, [46] # [46, 46] # map (\<lambda>c. c_str (row_name (fst c))) cs), fs')"
      "fs_inv ents exts good fs'" "extends fs fs'" "distinct cs"
      "set cs = {x. \<exists>j. c j = Some x \<and> row_parent (fst x) = inode e}"
      by (rule readdir_at [OF inv e(1), unfolded c])
    show thesis
      using answers.readdir_found [of c splitString path, OF e(2) [unfolded Readdir_Request path_of.simps] r(4,5)]
        extends_same_entries [OF r(3)] r(1,2) Some Readdir_Request
      by (intro that [of _ fs']) simp_all
  next
    case (Read_Request path sz offset)
    obtain xs where xs: "\<And>k row exs. lookup_path c (splitString path 47) k (row, exs) \<Longrightarrow>
        mset (map row_of_extent xs) = exs \<and> well_mapped img (unat (row_length row)) xs"
      using servable_extents [OF assms(3) ok [unfolded Read_Request]] by blast
    note l = e(2) [unfolded Read_Request path_of.simps]
    have row: "row_length (row_of e) = entry_length e" by (simp add: row_of_def)
    have b: "unat offset + unat sz < 2 ^ 64" "unat sz < 2 ^ 31" using ok Read_Request by (simp_all add: servable_def)
    obtain fs' where r: "read_entry pread sz offset (Some p) fs =
        Inr ((int (min (unat sz) (unat (entry_length e) - unat offset)),
          map Some (take (unat sz) (drop (unat offset) (file_content img (unat (entry_length e)) xs)))), fs')"
      "fs_inv ents exts good fs'" "fs' = store p (e\<lparr>extents := sort_key logicalAddress (extents e)\<rparr>) fs"
      by (rule read_entry_at [OF inv dev e(1) conjunct1 [OF xs [OF l]] conjunct2 [OF xs [OF l], unfolded row] b])
    show thesis
      using answers.read_found [of c splitString path, OF l conjunct1 [OF xs [OF l]] conjunct2 [OF xs [OF l]], of sz offset]
        store_sorted_same [OF e(1)] r e(1) Some Read_Request row
      by (intro that [of _ fs']) simp_all
  qed
qed

end

section \<open>The invariant\<close>

text \<open>The thread has the mutex; the object a thread was given.\<close>

fun holding :: "phase \<Rightarrow> bool" where
  "holding Resolving = True"
| "holding (Resolved entry) = True"
| "holding _ = False"

fun given :: "phase \<Rightarrow> nat option" where
  "given (Resolved entry) = entry"
| "given (Answering entry) = entry"
| "given (Working entry) = entry"
| "given _ = None"

definition phase_ok :: "catalog \<Rightarrow> splitter \<Rightarrow> u8 list \<Rightarrow> 'd filesystem \<Rightarrow> fuse_thread \<Rightarrow> bool" where
  "phase_ok c splitString img fs t \<longleftrightarrow>
     (case phase t of
        Waiting \<Rightarrow> True
      | Resolving \<Rightarrow> True
      | Resolved q \<Rightarrow> resolved c (splitString (path_of (request t)) 47) fs q
      | Answering q \<Rightarrow> resolved c (splitString (path_of (request t)) 47) fs q
      | Working q \<Rightarrow> resolved c (splitString (path_of (request t)) 47) fs q
      | Replied reply \<Rightarrow> answers c splitString img (request t) reply
      | Crashed f \<Rightarrow> False)"

lemma phase_ok_same: "same_entries fs fs' \<Longrightarrow> phase_ok c splitString img fs t \<Longrightarrow> phase_ok c splitString img fs' t"
  by (auto simp: phase_ok_def resolved_same split: phase.split)

lemma phase_ok_given: "phase_ok c splitString img fs t \<Longrightarrow> given (phase t) = Some p \<Longrightarrow> heap fs p \<noteq> None"
  by (cases "phase t") (auto simp: phase_ok_def resolved_def)

text \<open>Two threads have the same object only when it is the root.\<close>

definition orderly :: "'d mount \<Rightarrow> bool" where
  "orderly m \<longleftrightarrow>
     (\<forall>i. m_databaseMutex m = Some i \<longleftrightarrow> i < length (fuse_threads m) \<and> holding (phase (fuse_threads m ! i))) \<and>
     (\<forall>i j p. i < length (fuse_threads m) \<longrightarrow> j < length (fuse_threads m) \<longrightarrow> i \<noteq> j \<longrightarrow>
        given (phase (fuse_threads m ! i)) = Some p \<longrightarrow> given (phase (fuse_threads m ! j)) = Some p \<longrightarrow>
        smap_find (m_diskEntries (mounted m)) 2 = Some p)"

lemma orderly_mutex:
  "orderly m \<Longrightarrow> m_databaseMutex m = Some i \<longleftrightarrow> i < length (fuse_threads m) \<and> holding (phase (fuse_threads m ! i))"
  unfolding orderly_def by blast

lemma orderly_shared:
  "orderly m \<Longrightarrow> i < length (fuse_threads m) \<Longrightarrow> j < length (fuse_threads m) \<Longrightarrow> i \<noteq> j \<Longrightarrow>
     given (phase (fuse_threads m ! i)) = Some p \<Longrightarrow> given (phase (fuse_threads m ! j)) = Some p \<Longrightarrow>
     smap_find (m_diskEntries (mounted m)) 2 = Some p"
  unfolding orderly_def by blast

context sql_store
begin

definition mount_inv :: "catalog \<Rightarrow> splitter \<Rightarrow> u8 list \<Rightarrow> fuse_request list \<Rightarrow> 'd mount \<Rightarrow> bool" where
  "mount_inv c splitString img reqs m \<longleftrightarrow>
     map request (fuse_threads m) = reqs \<and> fs_inv ents exts good (mounted m) \<and>
     catalog_of ents exts (m_database (mounted m)) = c \<and> orderly m \<and>
     (\<forall>i < length (fuse_threads m). phase_ok c splitString img (mounted m) (fuse_threads m ! i))"

lemma start_inv:
  assumes "fs_inv ents exts good fs" "catalog_of ents exts (m_database fs) = c"
  shows "mount_inv c splitString img reqs (start reqs fs)"
  using assms by (auto simp: mount_inv_def start_def orderly_def phase_ok_def comp_def)

text \<open>One thread has moved, and the others find all objects as they were.\<close>

lemma mount_inv_move:
  assumes inv: "mount_inv c splitString img reqs m" and i: "i < length (fuse_threads m)"
    and fs: "fs_inv ents exts good fs'" "same_entries (mounted m) fs'"
    and ok: "phase_ok c splitString img fs' ((fuse_threads m ! i)\<lparr>phase := ph\<rparr>)"
    and lock: "holding ph \<longleftrightarrow> mutex = Some i" "m_databaseMutex m = mutex \<or> m_databaseMutex m \<in> {None, Some i} \<and> mutex \<in> {None, Some i}"
    and own: "\<And>p. given ph = Some p \<Longrightarrow>
      given (phase (fuse_threads m ! i)) = Some p \<or> heap (mounted m) p = None \<or> smap_find (m_diskEntries fs') 2 = Some p"
  shows "mount_inv c splitString img reqs ((go i ph m)\<lparr>m_databaseMutex := mutex, mounted := fs'\<rparr>)"
proof -
  let ?m = "(go i ph m)\<lparr>m_databaseMutex := mutex, mounted := fs'\<rparr>"
  have th: "fuse_threads ?m ! j = (if j = i then (fuse_threads m ! i)\<lparr>phase := ph\<rparr> else fuse_threads m ! j)"
    if "j < length (fuse_threads m)" for j
    using go_nth [OF that] by simp
  have o: "orderly m" using inv by (simp add: mount_inv_def)
  have there: "heap (mounted m) p \<noteq> None" if "j < length (fuse_threads m)" "given (phase (fuse_threads m ! j)) = Some p" for j p
    using inv that phase_ok_given [of c splitString img "mounted m" "fuse_threads m ! j"] by (simp add: mount_inv_def)
  have root: "smap_find (m_diskEntries fs') 2 = Some p" if "smap_find (m_diskEntries (mounted m)) 2 = Some p" for p
    using fs(2) that by (auto simp: same_entries_def map_le_def dom_def)
  have shared: "smap_find (m_diskEntries fs') 2 = Some p"
    if jk: "j < length (fuse_threads m)" "k < length (fuse_threads m)" "j \<noteq> k"
      "given (phase (fuse_threads ?m ! j)) = Some p" "given (phase (fuse_threads ?m ! k)) = Some p" for j k p
  proof -
    have old: "smap_find (m_diskEntries fs') 2 = Some p"
      if "given (phase (fuse_threads m ! j)) = Some p" "given (phase (fuse_threads m ! k)) = Some p"
      by (rule root [OF orderly_shared [OF o jk(1-3) that]])
    show ?thesis
      using jk old own [of p] there [of j p] there [of k p] by (auto simp: go_nth split: if_splits)
  qed
  have "m_databaseMutex ?m = Some j \<longleftrightarrow> j < length (fuse_threads m) \<and> holding (phase (fuse_threads ?m ! j))" for j
  proof (cases "j = i")
    case True
    then show ?thesis using lock(1) i by (simp add: go_nth)
  next
    case False
    then have "mutex = Some j \<longleftrightarrow> m_databaseMutex m = Some j" using lock(2) by auto
    then show ?thesis using orderly_mutex [OF o, of j] False by (cases "j < length (fuse_threads m)") (simp_all add: go_nth)
  qed
  then have "orderly ?m" using shared by (auto simp: orderly_def)
  moreover have "phase_ok c splitString img fs' (fuse_threads ?m ! j)" if "j < length (fuse_threads m)" for j
    using inv ok that phase_ok_same [OF fs(2)] by (auto simp: go_nth mount_inv_def)
  moreover have "m_database fs' = m_database (mounted m)" using fs(2) by (simp add: same_entries_def)
  ultimately show ?thesis using inv fs(1) by (simp add: mount_inv_def)
qed

lemma turn_inv:
  assumes inv: "mount_inv c splitString img reqs m" and "mountable c" "image_device pread img"
    and ok: "\<forall>req \<in> set reqs. servable c splitString img req"
    and "turn splitString db pread i m = Some m'" and free: "\<not> turn_races i m"
  shows "mount_inv c splitString img reqs m'"
proof -
  have fs: "fs_inv ents exts good (mounted m)" "catalog_of ents exts (m_database (mounted m)) = c" "orderly m"
    "mountable (catalog_of ents exts (m_database (mounted m)))"
    using inv assms(2) by (simp_all add: mount_inv_def)
  have t: "phase_ok c splitString img (mounted m) (fuse_threads m ! i)" "request (fuse_threads m ! i) \<in> set reqs"
    if "i < length (fuse_threads m)"
    using inv that by (auto simp: mount_inv_def)
  from assms(5) show ?thesis
  proof (cases rule: turn_cases)
    case lock
    have "mount_inv c splitString img reqs ((go i Resolving m)\<lparr>m_databaseMutex := Some i, mounted := mounted m\<rparr>)"
      using lock fs by (intro mount_inv_move [OF inv]) (simp_all add: extends_same_entries phase_ok_def)
    moreover have "\<not> races i Resolving m" using free lock(2) by (simp add: turn_races_def)
    ultimately show ?thesis by (simp add: lock(4) set_out_free go_mounted)
  next
    case search
    obtain q fs' where f: "findByPath splitString db (path_of (request (fuse_threads m ! i))) (mounted m) = Inr (q, fs')"
      "fs_inv ents exts good fs'" "extends (mounted m) fs'"
      "resolved c (splitString (path_of (request (fuse_threads m ! i))) 47) fs' q"
      by (rule findByPath_resolved [OF fs(1,4), unfolded fs(2)])
    have own: "heap (mounted m) p = None \<or> smap_find (m_diskEntries fs') 2 = Some p" if "q = Some p" for p
      using findByPath_private [OF fs(1,4) f(1) [unfolded that]] fs(1) by (auto simp: fs_inv_but_def)
    have "m_databaseMutex m = Some i" using search(1,2) by (simp add: orderly_mutex [OF fs(3)])
    then have "mount_inv c splitString img reqs ((go i (Resolved q) m)\<lparr>m_databaseMutex := Some i, mounted := fs'\<rparr>)"
      using search f own by (intro mount_inv_move [OF inv]) (auto simp: extends_same_entries phase_ok_def)
    moreover have "(go i (Resolved q) m)\<lparr>m_databaseMutex := Some i, mounted := fs'\<rparr> = (go i (Resolved q) m)\<lparr>mounted := fs'\<rparr>"
      using go_mounted(2) [where i = i and ph = "Resolved q" and m = m and fs = fs'] \<open>m_databaseMutex m = Some i\<close> by simp
    ultimately show ?thesis by (simp add: search(3) f(1))
  next
    case (unlock q)
    then have "m_databaseMutex m = Some i" by (simp add: orderly_mutex [OF fs(3)])
    then have "mount_inv c splitString img reqs ((go i (Answering q) m)\<lparr>m_databaseMutex := None, mounted := mounted m\<rparr>)"
      using unlock fs t by (intro mount_inv_move [OF inv]) (auto simp: extends_same_entries phase_ok_def)
    then show ?thesis by (simp add: unlock(3) go_mounted)
  next
    case (start_work q)
    then have "m_databaseMutex m \<noteq> Some i" by (simp add: orderly_mutex [OF fs(3)])
    then have "mount_inv c splitString img reqs ((go i (Working q) m)\<lparr>m_databaseMutex := m_databaseMutex m, mounted := mounted m\<rparr>)"
      using start_work fs t by (intro mount_inv_move [OF inv]) (auto simp: extends_same_entries phase_ok_def)
    moreover have "\<not> races i (Working q) m" using free start_work(2) by (simp add: turn_races_def)
    ultimately show ?thesis by (simp add: start_work(3) set_out_free go_mounted)
  next
    case (answer q)
    note t = t [OF answer(1)]
    have "resolved c (splitString (path_of (request (fuse_threads m ! i))) 47) (mounted m) q"
      using t(1) answer(2) by (simp add: phase_ok_def)
    then obtain reply fs' where r: "answer_request db pread (request (fuse_threads m ! i)) q (mounted m) = Inr (reply, fs')"
      "fs_inv ents exts good fs'" "same_entries (mounted m) fs'" "answers c splitString img (request (fuse_threads m ! i)) reply"
      by (rule answer_request_spec [OF fs(1,2) assms(2,3) ok [rule_format, OF t(2)]])
    have "m_databaseMutex m \<noteq> Some i" using answer(2) by (simp add: orderly_mutex [OF fs(3)])
    then have "mount_inv c splitString img reqs ((go i (Replied reply) m)\<lparr>m_databaseMutex := m_databaseMutex m, mounted := fs'\<rparr>)"
      using answer r by (intro mount_inv_move [OF inv]) (auto simp: phase_ok_def)
    then show ?thesis using answer(3) r(1) by (simp add: go_mounted)
  qed
qed

lemma take_turns_inv:
  assumes "mount_inv c splitString img reqs m" and "mountable c" "image_device pread img"
    and "\<forall>req \<in> set reqs. servable c splitString img req"
  shows "raced (take_turns splitString db pread sched m) \<or>
    mount_inv c splitString img reqs (take_turns splitString db pread sched m)"
  using assms(1)
proof (induction sched arbitrary: m)
  case (Cons i sched)
  show ?case
  proof (cases "turn splitString db pread i m")
    case (Some m')
    show ?thesis
    proof (cases "turn_races i m")
      case True
      with turn_raced [OF Some] take_turns_raced [of m' splitString db pread sched] Some show ?thesis by simp
    next
      case False
      from Cons.IH [OF turn_inv [OF Cons.prems assms(2-4) Some False]] Some show ?thesis by simp
    qed
  qed (use Cons in simp)
qed simp

lemma mount_inv_not_raced: "mount_inv c splitString img reqs m \<Longrightarrow> \<not> raced m"
proof
  assume inv: "mount_inv c splitString img reqs m" and "raced m"
  from this(2) obtain j where j: "j < length (fuse_threads m)" "phase (fuse_threads m ! j) = Crashed DataRace"
    by (auto simp: raced_def in_set_conv_nth)
  with inv have "phase_ok c splitString img (mounted m) (fuse_threads m ! j)" by (simp add: mount_inv_def)
  with j(2) show False by (simp add: phase_ok_def)
qed

text \<open>
  Without a request to list a directory, and with a root that has no extents, no turn races: two searches
  exclude each other, and two threads at work on the same extents would have to share an object.
\<close>

lemma root_has_no_extents:
  assumes "fs_inv ents exts good fs" "catalog_of ents exts (m_database fs) 2 = Some (r, {#})"
    and "smap_find (m_diskEntries fs) 2 = Some p" "heap fs p = Some e"
  shows "extents e = []"
proof -
  obtain e' where "heap fs p = Some e'" "catalog_of ents exts (m_database fs) 2 = Some (abs_entry e')"
    by (rule fs_inv_settled [OF assms(1,3)]) simp_all
  then have "abs_entry e = (r, {#})" using assms(2,4) by simp
  then show ?thesis by (simp add: abs_entry_def abs_extents_def)
qed

lemma turn_quiet:
  assumes inv: "mount_inv c splitString img reqs m" and "i < length (fuse_threads m)"
    and free: "turn splitString db pread i m \<noteq> None"
    and list: "\<forall>path. Readdir_Request path \<notin> set reqs" and root: "c 2 = Some (r, {#})"
  shows "\<not> turn_races i m"
proof
  assume race: "turn_races i m"
  have fs: "fs_inv ents exts good (mounted m)" "catalog_of ents exts (m_database (mounted m)) = c" "orderly m"
    "map request (fuse_threads m) = reqs" using inv by (simp_all add: mount_inv_def)
  have no_list: "request (fuse_threads m ! j) \<noteq> Readdir_Request path" if "j < length (fuse_threads m)" for j path
    using list fs(4) nth_mem [OF that] by (metis image_eqI set_map)
  from race consider "phase (fuse_threads m ! i) = Waiting" "races i Resolving m"
    | q where "phase (fuse_threads m ! i) = Answering q" "races i (Working q) m"
    by (auto simp: turn_races_def split: phase.splits)
  then show False
  proof cases
    case 1
    then obtain j w where j: "j < length (fuse_threads m)" "(Disk_Entries, w) \<in> set (at_work (mounted m) (fuse_threads m ! j))"
      by (auto simp: races_def clash_def list_ex_iff split: fuse_request.splits)
    then have "phase (fuse_threads m ! j) = Resolving"
      using no_list [OF j(1)] by (auto split: phase.splits option.splits fuse_request.splits)
    with j(1) have "m_databaseMutex m = Some j" by (simp add: orderly_mutex [OF fs(3)])
    with free 1(1) show False by (simp add: turn_def split: if_splits)
  next
    case (2 q)
    then obtain j d w w' where j: "j < length (fuse_threads m)" "j \<noteq> i"
      "(d, w) \<in> set (at_work (mounted m) ((fuse_threads m ! i)\<lparr>phase := Working q\<rparr>))"
      "(d, w') \<in> set (at_work (mounted m) (fuse_threads m ! j))" "w \<or> w'"
      by (auto simp: races_def clash_def list_ex_iff)
    from j(3) no_list [OF assms(2)] obtain p where p: "q = Some p" "d = Extents_Of p"
      "w = (case heap (mounted m) p of None \<Rightarrow> False | Some e \<Rightarrow> extents e \<noteq> [])"
      by (auto split: option.splits fuse_request.splits)
    from j(4) p(2) no_list [OF j(1)] have k: "phase (fuse_threads m ! j) = Working (Some p)"
      "w' = (case heap (mounted m) p of None \<Rightarrow> False | Some e \<Rightarrow> extents e \<noteq> [])"
      by (auto split: phase.splits option.splits fuse_request.splits)
    have "smap_find (m_diskEntries (mounted m)) 2 = Some p"
      by (rule orderly_shared [OF fs(3) assms(2) j(1) j(2) [symmetric]]) (simp_all add: 2(1) p(1) k(1))
    moreover obtain e where "heap (mounted m) p = Some e" "extents e \<noteq> []"
      using j(5) p(3) k(2) by (auto split: option.splits)
    ultimately show False using root_has_no_extents [OF fs(1)] fs(2) root by metis
  qed
qed

lemma take_turns_quiet:
  assumes "mount_inv c splitString img reqs m" and "mountable c" "image_device pread img"
    and "\<forall>req \<in> set reqs. servable c splitString img req"
    and "\<forall>path. Readdir_Request path \<notin> set reqs" and "c 2 = Some (r, {#})"
  shows "mount_inv c splitString img reqs (take_turns splitString db pread sched m)"
  using assms(1)
proof (induction sched arbitrary: m)
  case (Cons i sched)
  show ?case
  proof (cases "turn splitString db pread i m")
    case (Some m')
    then have "i < length (fuse_threads m)" "turn splitString db pread i m \<noteq> None"
      by (simp_all add: turn_def split: if_splits)
    from Cons.IH [OF turn_inv [OF Cons.prems assms(2-4) Some turn_quiet [OF Cons.prems this assms(5,6)]]] Some
    show ?thesis by simp
  qed (use Cons in simp)
qed simp

text \<open>
  What a turn changes. The holder of the mutex only adds to the file system. A thread without it
  changes no more than the order of the extents of an object of its own, unless it lists a directory.
\<close>

lemma turn_with_mutex:
  assumes inv: "mount_inv c splitString img reqs m" and "mountable c"
    and "turn splitString db pread i m = Some m'" and "m_databaseMutex m = Some i"
  shows "extends (mounted m) (mounted m')"
proof -
  have fs: "fs_inv ents exts good (mounted m)" "orderly m" "mountable (catalog_of ents exts (m_database (mounted m)))"
    using inv assms(2) by (simp_all add: mount_inv_def)
  have h: "holding (phase (fuse_threads m ! i))" using assms(4) by (simp add: orderly_mutex [OF fs(2)])
  from assms(3) show ?thesis
  proof (cases rule: turn_cases)
    case search
    obtain q fs' where "findByPath splitString db (path_of (request (fuse_threads m ! i))) (mounted m) = Inr (q, fs')"
      "extends (mounted m) fs'" by (rule findByPath_resolved [OF fs(1,3)])
    with search(3) show ?thesis by simp
  qed (use h in simp_all)
qed

lemma turn_without_mutex:
  assumes inv: "mount_inv c splitString img reqs m" and "mountable c" "image_device pread img"
    and ok: "\<forall>req \<in> set reqs. servable c splitString img req"
    and "turn splitString db pread i m = Some m'" and "m_databaseMutex m \<noteq> Some i"
    and list: "\<forall>path. Readdir_Request path \<notin> set reqs" and root: "c 2 = Some (r, {#})"
  shows "m_diskEntries (mounted m') = m_diskEntries (mounted m) \<and> next_ptr (mounted m') = next_ptr (mounted m) \<and>
    m_database (mounted m') = m_database (mounted m) \<and>
    (\<forall>p. heap (mounted m') p \<noteq> heap (mounted m) p \<longrightarrow> given (phase (fuse_threads m ! i)) = Some p \<and>
       smap_find (m_diskEntries (mounted m)) 2 \<noteq> Some p \<and>
       (\<forall>j < length (fuse_threads m). j \<noteq> i \<longrightarrow> given (phase (fuse_threads m ! j)) \<noteq> Some p))"
proof -
  have fs: "fs_inv ents exts good (mounted m)" "catalog_of ents exts (m_database (mounted m)) = c" "orderly m"
    using inv by (simp_all add: mount_inv_def)
  from assms(5) show ?thesis
  proof (cases rule: turn_cases)
    case lock
    then show ?thesis by simp
  next
    case search
    with assms(6) show ?thesis by (simp add: orderly_mutex [OF fs(3)])
  next
    case unlock
    then show ?thesis by simp
  next
    case start_work
    then show ?thesis by simp
  next
    case (answer q)
    let ?req = "request (fuse_threads m ! i)"
    have t: "phase_ok c splitString img (mounted m) (fuse_threads m ! i)" "?req \<in> set reqs"
      using inv answer(1) by (auto simp: mount_inv_def)
    have "resolved c (splitString (path_of ?req) 47) (mounted m) q" using t(1) answer(2) by (simp add: phase_ok_def)
    then obtain reply fs' where r: "answer_request db pread ?req q (mounted m) = Inr (reply, fs')"
      "(\<forall>path. ?req \<noteq> Readdir_Request path) \<longrightarrow>
         fs' = mounted m \<or> (\<exists>p e. q = Some p \<and> heap (mounted m) p = Some e \<and>
           fs' = store p (e\<lparr>extents := sort_key logicalAddress (extents e)\<rparr>) (mounted m))"
      by (rule answer_request_spec [OF fs(1,2) assms(2,3) ok [rule_format, OF t(2)]])
    have m': "mounted m' = fs'" using answer(3) r(1) by simp
    have "?req \<noteq> Readdir_Request path" for path using list t(2) by metis
    with r(2) consider "fs' = mounted m"
      | p e where "q = Some p" "heap (mounted m) p = Some e"
        "fs' = store p (e\<lparr>extents := sort_key logicalAddress (extents e)\<rparr>) (mounted m)" by blast
    then show ?thesis
    proof cases
      case 1
      then show ?thesis by (simp add: m')
    next
      case (2 p e)
      show ?thesis
      proof (cases "smap_find (m_diskEntries (mounted m)) 2 = Some p")
        case True
        then have "extents e = []" using root_has_no_extents [OF fs(1) _ True 2(2)] fs(2) root by simp
        then have "e\<lparr>extents := sort_key logicalAddress (extents e)\<rparr> = e" by (cases e) simp
        then have "heap fs' = heap (mounted m)" using 2(2,3) by (simp add: fun_upd_idem)
        then show ?thesis using 2(3) by (simp add: m')
      next
        case False
        then have "given (phase (fuse_threads m ! j)) \<noteq> Some p" if "j < length (fuse_threads m)" "j \<noteq> i" for j
          using orderly_shared [OF fs(3) answer(1) that(1), of p] that(2) answer(2) 2(1) False by auto
        then show ?thesis using 2(1,3) False answer(2) by (simp add: m')
      qed
    qed
  qed
qed

end

section \<open>Progress\<close>

fun turns_left :: "phase \<Rightarrow> nat" where
  "turns_left Waiting = 5"
| "turns_left Resolving = 4"
| "turns_left (Resolved entry) = 3"
| "turns_left (Answering entry) = 2"
| "turns_left (Working entry) = 1"
| "turns_left (Replied reply) = 0"
| "turns_left (Crashed f) = 0"

definition work :: "'d mount \<Rightarrow> nat" where
  "work m = sum_list (map (\<lambda>t. turns_left (phase t)) (fuse_threads m))"

lemma work_go:
  assumes "i < length (fuse_threads m)" "turns_left ph < turns_left (phase (fuse_threads m ! i))"
  shows "work (go i ph m) < work m"
proof -
  let ?ns = "map (\<lambda>t. turns_left (phase t)) (fuse_threads m)"
  have "sum_list (?ns[i := turns_left ph]) < sum_list ?ns"
    using assms elem_le_sum_list [of i ?ns] by (simp add: sum_list_update)
  then show ?thesis by (simp add: work_def go_def map_update)
qed

lemma work_frame [simp]: "work (m\<lparr>m_databaseMutex := x\<rparr>) = work m" "work (m\<lparr>mounted := fs\<rparr>) = work m"
  by (simp_all add: work_def)

lemma work_set_out:
  assumes "i < length (fuse_threads m)" "turns_left ph < turns_left (phase (fuse_threads m ! i))"
  shows "work (set_out i ph m) < work m"
  using assms by (auto simp: set_out_def intro: work_go)

lemma turn_works:
  assumes "turn splitString db pread i m = Some m'"
  shows "work m' < work m"
  using assms
  by (cases rule: turn_cases) (auto simp: work_go work_set_out split: sum.split prod.split)

lemma work_zero: "work m = 0 \<longleftrightarrow> (\<forall>t \<in> set (fuse_threads m). turns_left (phase t) = 0)"
  by (auto simp: work_def)

text \<open>No deadlock: while a thread is at work, one of them can go on.\<close>

lemma some_turn:
  assumes "orderly m" "0 < work m"
  shows "\<exists>i < length (fuse_threads m). turn splitString db pread i m \<noteq> None"
proof (cases "m_databaseMutex m")
  case None
  obtain t where "t \<in> set (fuse_threads m)" "turns_left (phase t) \<noteq> 0" using assms(2) work_zero [of m] by auto
  then obtain i where i: "i < length (fuse_threads m)" "turns_left (phase (fuse_threads m ! i)) \<noteq> 0"
    by (metis in_set_conv_nth)
  then have "turn splitString db pread i m \<noteq> None" using None by (auto simp: turn_def split: phase.split)
  with i(1) show ?thesis by blast
next
  case (Some i)
  then have i: "i < length (fuse_threads m)" "holding (phase (fuse_threads m ! i))" by (simp_all add: orderly_mutex [OF assms(1)])
  then have "turn splitString db pread i m \<noteq> None" by (auto simp: turn_def split: phase.split)
  with i(1) show ?thesis by blast
qed

lemma take_turns_work: "work (take_turns splitString db pread sched m) \<le> work m"
proof (induction sched arbitrary: m)
  case (Cons i sched)
  have "work (case turn splitString db pread i m of None \<Rightarrow> m | Some m' \<Rightarrow> m') \<le> work m"
    using turn_works [of splitString db pread i m] by (auto split: option.split intro: less_imp_le)
  with Cons.IH show ?case by (simp, meson le_trans)
qed simp

text \<open>A round in which a thread comes that can go on at its start.\<close>

lemma round_works:
  "i \<in> set sched \<Longrightarrow> turn splitString db pread i m \<noteq> None \<Longrightarrow> work (take_turns splitString db pread sched m) < work m"
proof (induction sched)
  case (Cons j sched)
  show ?case
  proof (cases "turn splitString db pread j m")
    case None
    with Cons.prems have "i \<in> set sched" by auto
    with Cons.IH Cons.prems(2) None show ?thesis by simp
  next
    case (Some m')
    then show ?thesis
      using turn_works [OF Some] take_turns_work [of splitString db pread sched m'] by simp
  qed
qed simp

lemma take_turns_append:
  "take_turns splitString db pread (xs @ ys) m = take_turns splitString db pread ys (take_turns splitString db pread xs m)"
  by (induction xs arbitrary: m) simp_all

lemma work_start: "work (start reqs fs) = 5 * length reqs"
  by (induction reqs) (simp_all add: work_def start_def)

context sql_store
begin

lemma rounds_work:
  assumes "mount_inv c splitString img reqs m" and "mountable c" "image_device pread img"
    and "\<forall>req \<in> set reqs. servable c splitString img req"
    and "\<forall>sched \<in> set rounds. {..<length reqs} \<subseteq> set sched"
  shows "raced (take_turns splitString db pread (concat rounds) m) \<or>
    work (take_turns splitString db pread (concat rounds) m) \<le> work m - length rounds"
  using assms(1,5)
proof (induction rounds arbitrary: m)
  case (Cons sched rounds)
  let ?m = "take_turns splitString db pread sched m"
  have "length (fuse_threads m) = length reqs" "orderly m"
    using Cons.prems(1) by (auto simp: mount_inv_def)
  moreover have "{..<length reqs} \<subseteq> set sched" using Cons.prems(2) by simp
  ultimately have less: "work m = 0 \<or> work ?m < work m"
    using some_turn [of m splitString db pread] round_works [of _ sched splitString db pread m] by fastforce
  have le: "work ?m \<le> work m" by (rule take_turns_work)
  from take_turns_inv [OF Cons.prems(1) assms(2-4)] show ?case
  proof
    assume "raced ?m"
    then show ?thesis by (simp add: take_turns_append take_turns_raced)
  next
    assume "mount_inv c splitString img reqs ?m"
    then have "raced (take_turns splitString db pread (concat rounds) ?m) \<or>
        work (take_turns splitString db pread (concat rounds) ?m) \<le> work ?m - length rounds"
      using Cons.prems(2) by (intro Cons.IH) simp_all
    with less le show ?thesis by (auto simp: take_turns_append)
  qed
qed simp

lemma all_replied:
  assumes "mount_inv c splitString img reqs m" "work m = 0"
  obtains replies where "map phase (fuse_threads m) = map Replied replies"
    "list_all2 (answers c splitString img) reqs replies"
proof -
  have "\<exists>reply. phase t = Replied reply \<and> answers c splitString img (request t) reply" if "t \<in> set (fuse_threads m)" for t
  proof -
    have "turns_left (phase t) = 0" using that assms(2) by (simp add: work_zero)
    moreover have "phase_ok c splitString img (mounted m) t"
      using that assms(1) by (auto simp: mount_inv_def in_set_conv_nth)
    ultimately show ?thesis by (cases "phase t") (simp_all add: phase_ok_def)
  qed
  then obtain f where f: "\<And>t. t \<in> set (fuse_threads m) \<Longrightarrow> phase t = Replied (f t) \<and> answers c splitString img (request t) (f t)"
    by metis
  have "map phase (fuse_threads m) = map Replied (map f (fuse_threads m))" using f by simp
  moreover have "list_all2 (answers c splitString img) (map request (fuse_threads m)) (map f (fuse_threads m))"
    using f by (simp add: list_all2_map1 list_all2_map2 list.rel_refl_strong)
  moreover have "map request (fuse_threads m) = reqs" using assms(1) by (simp add: mount_inv_def)
  ultimately show thesis by (intro that [of "map f (fuse_threads m)"]) simp_all
qed

end

end
