(* ===== verification/Thread_Theorems.thy ===== *)
theory Thread_Theorems
  imports Fuse_Threads
begin

text \<open>
  What concurrent requests do to each other: they are all answered, those that list no directory
  keep to their own data, and listing a directory does not.
\<close>

section \<open>A directory is listed without the mutex\<close>

lemma getEntryFromQuery_adds:
  assumes "getEntryFromQuery db r fs = (p, fs')"
  shows "\<exists>e. heap fs' = (heap fs)(next_ptr fs \<mapsto> e) \<and> p = next_ptr fs \<and> next_ptr fs' = Suc (next_ptr fs) \<and>
    m_diskEntries fs' = smap_insert (inode e) p (m_diskEntries fs)"
  using assms
  by (intro exI [of _ "the (heap fs' (next_ptr fs))"]) (auto simp: getEntryFromQuery_def alloc_def Let_def)

lemma entries_cached:
  assumes "entries_from_query db rs fs = (ps, fs')"
  shows "next_ptr fs \<le> next_ptr fs' \<and> (\<forall>i p. smap_find (m_diskEntries fs) i = Some p \<longrightarrow> smap_find (m_diskEntries fs') i = Some p) \<and>
    (\<forall>p < next_ptr fs. heap fs' p = heap fs p) \<and>
    (\<forall>p \<in> set ps. \<exists>e. heap fs' p = Some e \<and> smap_find (m_diskEntries fs') (inode e) \<noteq> None)"
  using assms
proof (induction rs arbitrary: fs ps)
  case (Cons r rs)
  obtain p fs1 where p: "getEntryFromQuery db r fs = (p, fs1)" by fastforce
  obtain ps1 fs2 where q: "entries_from_query db rs fs1 = (ps1, fs2)" by (cases "entries_from_query db rs fs1")
  with Cons.prems p have ps: "entries_from_query db rs fs1 = (ps1, fs')" "ps = p # ps1" by simp_all
  from getEntryFromQuery_adds [OF p] obtain e where e: "heap fs1 = (heap fs)(next_ptr fs \<mapsto> e)" "p = next_ptr fs" "next_ptr fs1 = Suc (next_ptr fs)"
    "m_diskEntries fs1 = smap_insert (inode e) p (m_diskEntries fs)"
    by (elim exE conjE)
  note rest = Cons.IH [OF ps(1)]
  have kept: "smap_find (m_diskEntries fs1) i = Some q" if "smap_find (m_diskEntries fs) i = Some q" for i q
    using that by (auto simp: e(4) cmap.find_insert)
  have "smap_find (m_diskEntries fs1) (inode e) \<noteq> None" by (simp add: e(4) cmap.find_insert split: option.split)
  then have "smap_find (m_diskEntries fs') (inode e) \<noteq> None" using rest by auto
  moreover have "heap fs' p = Some e" using rest e(1-3) by simp
  moreover have "heap fs' q = heap fs q" if "q < next_ptr fs" for q using rest e(1,3) that by simp
  ultimately show ?case using rest kept e(3) by (simp add: ps(2))
qed simp

context sql_store
begin

lemma children_cached:
  assumes inv: "fs_inv ents exts good fs" and find: "findByParentInode db i fs = (ps, fs')"
    and "catalog_of ents exts (m_database fs) k = Some x" "row_parent (fst x) = i"
  shows "smap_find (m_diskEntries fs') k \<noteq> None"
proof -
  from findByParentInode_spec(3) [OF assms(1,2)] obtain Rs where Rs: "list_all2 (loaded fs') ps Rs"
    "set Rs = {r. ents (m_database fs) (row_inode r) = Some r \<and> row_parent r = i}" by blast
  obtain r where r: "ents (m_database fs) k = Some r" "x = (r, exts (m_database fs) k)"
    using assms(3) by (auto simp: catalog_of_def split: option.splits)
  then have "row_inode r = k" using key [OF fs_inv_good [OF inv]] by simp
  then have "r \<in> set Rs" using Rs(2) r assms(4) by simp
  then obtain n where n: "n < length Rs" "Rs ! n = r" by (auto simp: in_set_conv_nth)
  then have l: "loaded fs' (ps ! n) r" "ps ! n \<in> set ps" using Rs(1) by (auto simp: list_all2_conv_all_nth)
  obtain ok rs where "ps_query db sql_by_parent [SqlInt i] (m_database fs) = (ok, rs)" by fastforce
  with find l(2) have "entries_from_query db rs fs = (ps, fs')" by (auto simp: findByParentInode_def split: if_splits)
  from entries_cached [OF this] l(2) obtain e where
    e: "heap fs' (ps ! n) = Some e" "smap_find (m_diskEntries fs') (inode e) \<noteq> None" by blast
  have "inode e = row_inode r" using l(1) e(1) by (auto simp: loaded_def)
  with e(2) \<open>row_inode r = k\<close> show ?thesis by simp
qed

end

text \<open>The two turns of a thread that lists a directory.\<close>

lemma readdir_races:
  assumes "i < length (fuse_threads m)" "fuse_threads m ! i = \<lparr>request = Readdir_Request path, phase = Answering (Some p)\<rparr>"
    and "j \<noteq> i" "j < length (fuse_threads m)" "phase (fuse_threads m ! j) = Resolving"
  shows "phase (fuse_threads (set_out i (Working (Some p)) m) ! i) = Crashed DataRace"
proof -
  have "clash (at_work (mounted m) ((fuse_threads m ! i)\<lparr>phase := Working (Some p)\<rparr>)) (at_work (mounted m) (fuse_threads m ! j))"
    using assms(2,5) by (simp add: clash_def)
  with assms(3,4) have "races i (Working (Some p)) m"
    unfolding races_def list_ex_iff by (intro bexI [of _ j]) (simp_all del: at_work.simps)
  then show ?thesis using assms(1) by (simp add: set_out_def go_nth)
qed

lemma started_free:
  assumes "i < length (fuse_threads m)" "phase (fuse_threads (set_out i ph m) ! i) \<noteq> Crashed DataRace"
  shows "\<not> races i ph m"
proof
  assume "races i ph m"
  then show False using assms by (simp add: set_out_def go_nth)
qed

lemma working_entry:
  assumes "i < length (fuse_threads m)" "fuse_threads m ! i = \<lparr>request = req, phase = Answering q\<rparr>"
  shows "fuse_threads (go i (Working q) m) ! i = \<lparr>request = req, phase = Working q\<rparr>"
  using assms by (simp add: go_nth)

lemma readdir_turn:
  assumes "fuse_threads (go i (Working (Some p)) m) ! i = \<lparr>request = Readdir_Request path, phase = Working (Some p)\<rparr>"
    and "i < length (fuse_threads m)" and "readdir_entry db (Some p) (mounted m) = Inr ((n, ns), fs')"
  shows "turn splitString db pread i (go i (Working (Some p)) m) =
      Some ((go i (Replied (Readdir_Reply n ns)) (go i (Working (Some p)) m))\<lparr>mounted := fs'\<rparr>)"
  using assms(2,3) unfolding turn_def by (simp add: assms(1))

lemma working_goes_on:
  "i < length (fuse_threads m) \<Longrightarrow> fuse_threads m ! i = \<lparr>request = req, phase = Working q\<rparr> \<Longrightarrow>
     turn splitString db pread i m \<noteq> None"
  by (simp add: turn_def)

lemma readdir_goes_on:
  assumes "i < length (fuse_threads m)" "fuse_threads m ! i = \<lparr>request = Readdir_Request path, phase = Answering (Some p)\<rparr>"
    and "phase (fuse_threads (set_out i (Working (Some p)) m) ! i) \<noteq> Crashed DataRace"
    and "readdir_entry db (Some p) (mounted m) = Inr ((n, ns), fs')"
  obtains m'' where "turn splitString db pread i (set_out i (Working (Some p)) m) = Some m''"
    "m_databaseMutex m'' = m_databaseMutex m" "mounted m'' = fs'"
proof (rule that)
  have w: "set_out i (Working (Some p)) m = go i (Working (Some p)) m"
    by (rule set_out_free [OF started_free [OF assms(1,3)]])
  show "turn splitString db pread i (set_out i (Working (Some p)) m) =
      Some ((go i (Replied (Readdir_Reply n ns)) (go i (Working (Some p)) m))\<lparr>mounted := fs'\<rparr>)"
    unfolding w by (rule readdir_turn [OF working_entry [OF assms(1,2)] assms(1,4)])
qed simp_all

section \<open>Properties\<close>

lemma mutex_free:
  assumes "orderly m" "map phase (fuse_threads m) = map Replied replies"
  shows "m_databaseMutex m = None"
proof (cases "m_databaseMutex m")
  case (Some i)
  then have i: "i < length (fuse_threads m)" "holding (phase (fuse_threads m ! i))"
    by (simp_all add: orderly_mutex [OF assms(1)])
  then have "phase (fuse_threads m ! i) = map Replied replies ! i" using assms(2) by (metis nth_map)
  moreover have "i < length replies" using i(1) assms(2) by (metis length_map)
  ultimately show ?thesis using i(2) by simp
qed simp

text \<open>
  C17. Requests at the same time. On a catalog with a root and unique names (\<open>mountable\<close>), with requests that are
  \<open>servable\<close>, take any schedule that gives each of the \<open>n\<close> threads a turn in each of \<open>5 n\<close> rounds, in any
  order and with any number of turns. It ends in one of two ways: a thread runs into a data race, or all
  requests have come to their end, none has faulted or stays blocked, every reply is one the catalog and the image
  allow for its request alone, the mutex is free and the catalog is the one at the start. Data races
  come from \<open>readdir\<close>, which uses the cache without the mutex, and from a root with extents, an object several reads may share: when no
  directory is listed and the root has no extents, no schedule has one, and all requests are answered.
\<close>
theorem concurrent_requests_answered:
  assumes "sql_store db ents exts good" and "fs_inv ents exts good fs"
    and "mountable (catalog_of ents exts (m_database fs))" and "image_device pread img"
    and "\<forall>req \<in> set reqs. servable (catalog_of ents exts (m_database fs)) splitString img req"
    and "\<forall>sched \<in> set rounds. {..<length reqs} \<subseteq> set sched" and "5 * length reqs \<le> length rounds"
  shows "\<exists>m. take_turns splitString db pread (concat rounds) (start reqs fs) = m \<and>
    (raced m \<or> (\<exists>replies. map phase (fuse_threads m) = map Replied replies \<and>
       list_all2 (answers (catalog_of ents exts (m_database fs)) splitString img) reqs replies \<and>
       m_databaseMutex m = None \<and> catalog_of ents exts (m_database (mounted m)) = catalog_of ents exts (m_database fs))) \<and>
    ((\<forall>path. Readdir_Request path \<notin> set reqs) \<and> (\<exists>r. catalog_of ents exts (m_database fs) 2 = Some (r, {#})) \<longrightarrow> \<not> raced m)"
proof -
  let ?c = "catalog_of ents exts (m_database fs)"
  let ?m = "take_turns splitString db pread (concat rounds) (start reqs fs)"
  note start = sql_store.start_inv [OF assms(1,2) refl, of splitString img reqs]
  have quiet: "\<not> raced ?m" if "\<forall>path. Readdir_Request path \<notin> set reqs" "?c 2 = Some (r, {#})" for r
    using sql_store.take_turns_quiet [OF assms(1) start assms(3,4,5) that]
    by (rule sql_store.mount_inv_not_raced [OF assms(1)])
  have "\<exists>replies. map phase (fuse_threads ?m) = map Replied replies \<and>
      list_all2 (answers ?c splitString img) reqs replies \<and> m_databaseMutex ?m = None \<and>
      catalog_of ents exts (m_database (mounted ?m)) = ?c" if "\<not> raced ?m"
  proof -
    have inv: "sql_store.mount_inv ents exts good ?c splitString img reqs ?m"
      using sql_store.take_turns_inv [OF assms(1) start assms(3,4,5), of "concat rounds"] that by blast
    have "work ?m = 0"
      using sql_store.rounds_work [OF assms(1) start assms(3,4,5,6)] that assms(7) by (auto simp: work_start)
    then obtain replies where r: "map phase (fuse_threads ?m) = map Replied replies" "list_all2 (answers ?c splitString img) reqs replies"
      using sql_store.all_replied [OF assms(1) inv] by blast
    have m: "orderly ?m" "catalog_of ents exts (m_database (mounted ?m)) = ?c"
      using inv by (simp_all add: sql_store.mount_inv_def [OF assms(1)])
    with r mutex_free [OF m(1) r(1)] show ?thesis by blast
  qed
  with quiet show ?thesis by blast
qed

theorem concurrent_requests_answered_witness:
  "map phase (fuse_threads (take_turns ex_split mem_db (image_pread ex_mapped_image) (concat (replicate 10 [1, 0, 1]))
      (start [Read_Request [47, 97] 9 1, Open_Request [47, 98] 0] ex_fs))) =
     [Replied (Read_Reply 4 (map Some [2, 3, 4, 5])), Replied (Open_Reply (- 2))]"
proof -
  let ?reqs = "[Read_Request [47, 97] 9 1, Open_Request [47, 98] 0]"
  let ?m = "take_turns ex_split mem_db (image_pread ex_mapped_image) (concat (replicate 10 [1, 0, 1])) (start ?reqs ex_fs)"
  have ok: "\<forall>req \<in> set ?reqs. servable (catalog_of mem_ents mem_exts (m_database ex_fs)) ex_split ex_mapped_image req"
    using ex_servable by (simp add: servable_def)
  have rounds: "\<forall>sched \<in> set (replicate 10 [1, 0, 1]). {..<length ?reqs} \<subseteq> set sched"
    by (simp add: lessThan_Suc)
  have n: "5 * length ?reqs \<le> length (replicate 10 [1 :: nat, 0, 1])" by simp
  have root: "\<exists>r. catalog_of mem_ents mem_exts (m_database ex_fs) 2 = Some (r, {#})" by (simp add: ex_catalog)
  from concurrent_requests_answered [OF mem.sql_store_axioms ex_fs_inv ex_mountable image.image_device_axioms ok rounds n] root
  obtain replies where r: "map phase (fuse_threads ?m) = map Replied replies"
    "list_all2 (answers (catalog_of mem_ents mem_exts (m_database ex_fs)) ex_split ex_mapped_image) ?reqs replies" by auto
  then have "replies = [Read_Reply 4 (map Some [2, 3, 4, 5]), Open_Reply (- 2)]"
    using ex_reply_read ex_reply_open by (auto simp: list_all2_Cons1)
  with r(1) show ?thesis by simp
qed

text \<open>
  C18. Threads keep out of each other's way. On a catalog with a root and unique names (\<open>mountable\<close>), whose root has no
  extents, with requests that are \<open>servable\<close> and list no directory, there is no data race, and
  at every point of every schedule at most one thread is inside \<open>findByPath\<close>; the thread that has the
  mutex adds objects and cache entries and changes no object there is; every other thread leaves the
  cache, the allocation and the database alone and changes at most the object it was given, which is
  neither the root nor given to another thread. So no two threads touch the same data unless both
  only read it. No schedule ends in a deadlock. (A read that is not servable writes outside its buffer,
  \<open>read_overflows_on_hole\<close>, and may change anything.)
\<close>
theorem threads_do_not_interfere:
  assumes "sql_store db ents exts good" and "fs_inv ents exts good fs"
    and "mountable (catalog_of ents exts (m_database fs))" and "image_device pread img"
    and "\<forall>req \<in> set reqs. servable (catalog_of ents exts (m_database fs)) splitString img req"
    and "\<forall>path. Readdir_Request path \<notin> set reqs" and "catalog_of ents exts (m_database fs) 2 = Some (r, {#})"
    and m: "m = take_turns splitString db pread sched (start reqs fs)"
  shows "\<not> raced m \<and> (\<forall>i j. i < length reqs \<and> j < length reqs \<and> holding (phase (fuse_threads m ! i)) \<and>
       holding (phase (fuse_threads m ! j)) \<longrightarrow> i = j) \<and>
    (\<forall>i m'. turn splitString db pread i m = Some m' \<longrightarrow>
       (if m_databaseMutex m = Some i then extends (mounted m) (mounted m')
        else m_diskEntries (mounted m') = m_diskEntries (mounted m) \<and> next_ptr (mounted m') = next_ptr (mounted m) \<and>
          m_database (mounted m') = m_database (mounted m) \<and>
          (\<forall>p. heap (mounted m') p \<noteq> heap (mounted m) p \<longrightarrow> given (phase (fuse_threads m ! i)) = Some p \<and>
             smap_find (m_diskEntries (mounted m)) 2 \<noteq> Some p \<and>
             (\<forall>j < length reqs. j \<noteq> i \<longrightarrow> given (phase (fuse_threads m ! j)) \<noteq> Some p)))) \<and>
    (0 < work m \<longrightarrow> (\<exists>i < length reqs. turn splitString db pread i m \<noteq> None))"
proof -
  note start = sql_store.start_inv [OF assms(1,2) refl, of splitString img reqs]
  have inv: "sql_store.mount_inv ents exts good (catalog_of ents exts (m_database fs)) splitString img reqs m"
    unfolding m by (rule sql_store.take_turns_quiet [OF assms(1) start assms(3-7)])
  then have o: "orderly m" and len: "length (fuse_threads m) = length reqs"
    by (auto simp: sql_store.mount_inv_def [OF assms(1)])
  have one: "i = j" if "i < length reqs" "j < length reqs" "holding (phase (fuse_threads m ! i))"
    "holding (phase (fuse_threads m ! j))" for i j
    using that orderly_mutex [OF o, of i] orderly_mutex [OF o, of j] len by simp
  show ?thesis
    using sql_store.mount_inv_not_raced [OF assms(1) inv] one some_turn [OF o, of splitString db pread]
      sql_store.turn_with_mutex [OF assms(1) inv assms(3)]
      sql_store.turn_without_mutex [OF assms(1) inv assms(3,4,5) _ _ assms(6,7)]
    by (simp add: len)
qed

text \<open>Two threads after a few turns: one has the mutex, the other reads what it was given.\<close>

theorem threads_do_not_interfere_witness:
  "let m = take_turns ex_split mem_db (image_pread ex_mapped_image) [1, 1, 1, 1, 0]
       (start [Open_Request [47, 98] 0, Read_Request [47, 97] 9 1] ex_fs)
   in \<exists>m'. m_databaseMutex m = Some 0 \<and> turn ex_split mem_db (image_pread ex_mapped_image) 1 m = Some m' \<and>
     m_diskEntries (mounted m') = m_diskEntries (mounted m)"
proof -
  let ?reqs = "[Open_Request [47, 98] 0, Read_Request [47, 97] 9 1]"
  let ?turns = "\<lambda>s. take_turns ex_split mem_db (image_pread ex_mapped_image) s (start ?reqs ex_fs)"
  have ok: "\<forall>req \<in> set ?reqs. servable (catalog_of mem_ents mem_exts (m_database ex_fs)) ex_split ex_mapped_image req"
    using ex_servable by (simp add: servable_def)
  have none: "\<forall>path. Readdir_Request path \<notin> set ?reqs" by simp
  have root: "catalog_of mem_ents mem_exts (m_database ex_fs) 2 = Some (ex_root, {#})" by (simp add: ex_catalog)
  note safe = threads_do_not_interfere [OF mem.sql_store_axioms ex_fs_inv ex_mountable image.image_device_axioms ok none root refl]
  obtain q fs1 where f: "findByPath ex_split mem_db [47, 97] ex_fs = Inr (q, fs1)"
    by (rule mem.findByPath_resolved [OF ex_fs_inv ex_mountable])
  have m: "m_databaseMutex (?turns [1, 1, 1, 1, 0]) = Some 0"
    "fuse_threads (?turns [1, 1, 1, 1, 0]) ! 1 = \<lparr>request = Read_Request [47, 97] 9 1, phase = Working q\<rparr>"
    "1 < length (fuse_threads (?turns [1, 1, 1, 1, 0]))"
    by (cases q; simp add: start_def turn_def go_def set_out_def races_def clash_def f)+
  have "turn ex_split mem_db (image_pread ex_mapped_image) 1 (?turns [1, 1, 1, 1, 0]) \<noteq> None"
    by (rule working_goes_on [OF m(3,2)])
  then obtain m' where t: "turn ex_split mem_db (image_pread ex_mapped_image) 1 (?turns [1, 1, 1, 1, 0]) = Some m'" by blast
  have "m_diskEntries (mounted m') = m_diskEntries (mounted (?turns [1, 1, 1, 1, 0]))"
    using conjunct1 [OF conjunct2 [OF conjunct2 [OF safe [of "[1, 1, 1, 1, 0]"]]], rule_format, OF t]
    by (simp only: m(1) option.inject zero_neq_one if_False)
  with m(1) t show ?thesis unfolding Let_def by blast
qed

text \<open>
  C38. Listing a directory ignores the mutex. In a mounted file system in which thread \<open>j\<close> has the mutex,
  thread \<open>i\<close>, which has resolved the path of a directory to be listed, is not kept waiting: it begins to use
  the cache. When thread \<open>j\<close> is searching, this is a data race: \<open>std::map\<close> does not allow a search beside an
  insertion. When there is no race at this moment, the next turn of thread \<open>i\<close>
  enters every child of the directory that is not cached into the cache, and thread \<open>j\<close> has the mutex all the time.
\<close>
theorem readdir_ignores_mutex:
  assumes "sql_store db ents exts good" and "fs_inv ents exts good (mounted m)"
    and "m_databaseMutex m = Some j" and "j \<noteq> i" and "i < length (fuse_threads m)"
    and "fuse_threads m ! i = \<lparr>request = Readdir_Request path, phase = Answering (Some p)\<rparr>"
    and "heap (mounted m) p = Some dir" and "catalog_of ents exts (m_database (mounted m)) k = Some x"
    and "row_parent (fst x) = inode dir" and "smap_find (m_diskEntries (mounted m)) k = None"
  shows "\<exists>m'. turn splitString db pread i m = Some m' \<and> m_databaseMutex m' = Some j \<and>
    (j < length (fuse_threads m) \<and> phase (fuse_threads m ! j) = Resolving \<longrightarrow>
       phase (fuse_threads m' ! i) = Crashed DataRace) \<and>
    (phase (fuse_threads m' ! i) \<noteq> Crashed DataRace \<longrightarrow>
       (\<exists>m''. turn splitString db pread i m' = Some m'' \<and> m_databaseMutex m'' = Some j \<and>
          smap_find (m_diskEntries (mounted m'')) k \<noteq> None))"
proof -
  obtain cs :: "catalog_entry list" and fs' where r: "readdir_entry db (Some p) (mounted m) =
      Inr ((0, [46] # [46, 46] # map (\<lambda>c. c_str (row_name (fst c))) cs), fs')"
    by (rule sql_store.readdir_at [OF assms(1,2,7)])
  obtain ps fs1 where ch: "findByParentInode db (inode dir) (mounted m) = (ps, fs1)" by fastforce
  have "fs1 = fs'"
    using r ch assms(7) by (cases "child_names fs1 ps") (auto simp: readdir_entry_def deref_def)
  with sql_store.children_cached [OF assms(1,2) ch assms(8,9)] have cached: "smap_find (m_diskEntries fs') k \<noteq> None" by simp
  let ?m = "set_out i (Working (Some p)) m"
  have one: "turn splitString db pread i m = Some ?m" using assms(5,6) by (simp add: turn_def)
  have race: "phase (fuse_threads ?m ! i) = Crashed DataRace"
    if "j < length (fuse_threads m)" "phase (fuse_threads m ! j) = Resolving"
    by (rule readdir_races [OF assms(5) assms(6) assms(4) that])
  have "\<exists>m''. turn splitString db pread i ?m = Some m'' \<and> m_databaseMutex m'' = Some j \<and>
      smap_find (m_diskEntries (mounted m'')) k \<noteq> None" if "phase (fuse_threads ?m ! i) \<noteq> Crashed DataRace"
    by (rule readdir_goes_on [where splitString = splitString and pread = pread, OF assms(5,6) that r]) (use cached assms(3) in auto)
  note two = this
  have held: "m_databaseMutex ?m = Some j" using assms(3) by simp
  show ?thesis
    by (rule exI [of _ ?m], intro conjI impI one held) (erule conjE, erule (1) race, erule two)
qed

theorem readdir_ignores_mutex_witness:
  "let turns = (\<lambda>sched. take_turns ex_split mem_db (image_pread ex_mapped_image) sched
       (start [Open_Request [47] 0, Readdir_Request [47]] ex_fs));
     t = turn ex_split mem_db (image_pread ex_mapped_image) 1
   in (\<exists>m. t (turns [1, 1, 1, 0]) = Some m \<and> m_databaseMutex m = Some 0 \<and> phase (fuse_threads m ! 1) = Crashed DataRace) \<and>
     smap_find (m_diskEntries (mounted (turns [1, 1, 1, 0, 0]))) 16 = None \<and>
     (\<exists>m m'. t (turns [1, 1, 1, 0, 0]) = Some m \<and> t m = Some m' \<and> m_databaseMutex m' = Some 0 \<and>
        smap_find (m_diskEntries (mounted m')) 16 \<noteq> None)"
proof -
  let ?turns = "\<lambda>sched. take_turns ex_split mem_db (image_pread ex_mapped_image) sched
      (start [Open_Request [47] 0, Readdir_Request [47]] ex_fs)"
  obtain q fs1 where find: "findByInode mem_db 2 ex_fs = (q, fs1)" by fastforce
  note spec = mem.findByInode_spec [OF ex_fs_inv find]
  from spec(3) obtain p dir where p: "q = Some p" "heap fs1 p = Some dir" "inode dir = 2" "smap_find (m_diskEntries fs1) 2 = Some p"
    by (cases q) (auto simp: ex_catalog at_hand_def)
  have f: "findByPath ex_split mem_db [47] ex_fs = Inr (Some p, fs1)" using find p(1) by (simp add: findByPath_def)
  have f1: "findByPath ex_split mem_db [47] fs1 = Inr (Some p, fs1)" using p(4) by (simp add: findByPath_def findByInode_def)
  have d: "m_database fs1 = ex_tables" using spec(2) by (simp add: extends_def)
  have nil: "smap_find ([] :: (u64 \<times> nat) list) i = None" for i by (simp add: smap_find_def)
  have n: "smap_find (m_diskEntries fs1) 16 = None"
    using find p(1)
    by (auto simp: findByInode_def mem_defs ex_tables_def ex_root_def insert_binding_def getEntryFromQuery_def
        alloc_def Let_def cmap.find_insert nil split: list.splits)
  define M N where "M = ?turns [1, 1, 1, 0]" and "N = ?turns [1, 1, 1, 0, 0]"
  have m: "m_databaseMutex m = Some 0" "1 < length (fuse_threads m)" "mounted m = fs1"
    "fuse_threads m ! 1 = \<lparr>request = Readdir_Request [47], phase = Answering (Some p)\<rparr>" if "m = M \<or> m = N" for m
    using that by (auto simp: M_def N_def start_def turn_def go_def set_out_def races_def clash_def f f1)
  have ph: "0 < length (fuse_threads M)" "phase (fuse_threads M ! 0) = Resolving"
    "phase (fuse_threads (the (turn ex_split mem_db (image_pread ex_mapped_image) 1 N)) ! 1) = Working (Some p)"
    by (simp_all add: M_def N_def start_def turn_def go_def set_out_def races_def clash_def f f1)
  have x: "catalog_of mem_ents mem_exts (m_database fs1) 16 = Some (ex_file, {#(0, 40, 4096)#})"
    "row_parent (fst (ex_file, {#(0 :: u64, 40 :: u64, 4096 :: u64)#})) = inode dir"
    by (simp_all add: d ex_catalog ex_file_def p(3))
  have ignores: "\<exists>m'. turn ex_split mem_db (image_pread ex_mapped_image) 1 m = Some m' \<and> m_databaseMutex m' = Some 0 \<and>
      (0 < length (fuse_threads m) \<and> phase (fuse_threads m ! 0) = Resolving \<longrightarrow> phase (fuse_threads m' ! 1) = Crashed DataRace) \<and>
      (phase (fuse_threads m' ! 1) \<noteq> Crashed DataRace \<longrightarrow>
        (\<exists>m''. turn ex_split mem_db (image_pread ex_mapped_image) 1 m' = Some m'' \<and> m_databaseMutex m'' = Some 0 \<and>
          smap_find (m_diskEntries (mounted m'')) 16 \<noteq> None))" if that: "m = M \<or> m = N" for m
  proof (rule readdir_ignores_mutex [OF mem.sql_store_axioms])
    show "fs_inv mem_ents mem_exts mem_good (mounted m)" "heap (mounted m) p = Some dir"
      "smap_find (m_diskEntries (mounted m)) 16 = None" unfolding m(3) [OF that] using spec(1) p(2) n by simp_all
    show "catalog_of mem_ents mem_exts (m_database (mounted m)) 16 = Some (ex_file, {#(0, 40, 4096)#})"
      unfolding m(3) [OF that] by (rule x(1))
    show "row_parent (fst (ex_file, {#(0 :: u64, 40 :: u64, 4096 :: u64)#})) = inode dir" by (rule x(2))
  qed (use m [OF that] in simp_all)
  have "\<exists>m'. turn ex_split mem_db (image_pread ex_mapped_image) 1 M = Some m' \<and> m_databaseMutex m' = Some 0 \<and>
      phase (fuse_threads m' ! 1) = Crashed DataRace" using ignores [of M] ph(1,2) by blast
  moreover have "\<exists>m' m''. turn ex_split mem_db (image_pread ex_mapped_image) 1 N = Some m' \<and>
      turn ex_split mem_db (image_pread ex_mapped_image) 1 m' = Some m'' \<and> m_databaseMutex m'' = Some 0 \<and>
      smap_find (m_diskEntries (mounted m'')) 16 \<noteq> None" using ignores [of N] ph(3) by auto
  moreover have "smap_find (m_diskEntries (mounted N)) 16 = None" using n by (simp add: m(3))
  ultimately show ?thesis unfolding Let_def M_def N_def by blast
qed

end
