(* ===== verification/Scan_Liveness.thy ===== *)
theory Scan_Liveness
  imports Disk_Theorems
begin

text \<open>
  That \<open>DiskScanner::scan\<close> returns. The scanner and the signal handler make an infinite sequence
  of events; \<open>trace\<close> is the state after the first \<open>n\<close> of them. What is assumed of the sequence is
  fairness (the scanning thread is scheduled again and again) and a reason to end: the disk ends
  at some time, reads fail from some time on, or there is a signal after the call.
\<close>

section \<open>Traces\<close>

primrec trace ::
  "('d, 'r) database \<Rightarrow> (nat \<Rightarrow> scan_event) \<Rightarrow> scan_pc \<times> 'd disk_scanner \<Rightarrow> nat
     \<Rightarrow> (scan_pc \<times> 'd disk_scanner) res" where
  "trace db es s 0 = Inr s"
| "trace db es s (Suc n) = and_then (trace db es s n) (disk_step db (es n))"

text \<open>A read that ends the loop.\<close>

definition at_end :: "scan_event \<Rightarrow> bool" where
  "at_end ev \<longleftrightarrow> (\<forall>r. ev = Iterate r \<longrightarrow> r = Read_Error \<or> (\<exists>rest. r = Read_Bytes [] rest))"

definition is_iterate :: "scan_event \<Rightarrow> bool" where
  "is_iterate ev \<longleftrightarrow> (\<exists>r. ev = Iterate r)"

text \<open>A fair sequence of events in which the scan that is called at time \<open>k\<close> has a reason to end.\<close>

definition fair_run :: "nat \<Rightarrow> (nat \<Rightarrow> scan_event) \<Rightarrow> bool" where
  "fair_run k es \<longleftrightarrow> es k = Call_Scan \<and> (\<forall>m. \<exists>n\<ge>m. is_iterate (es n)) \<and>
     ((\<exists>m>k. es m = Call_Stop) \<or> (\<exists>m. \<forall>n\<ge>m. at_end (es n)))"

section \<open>What a step keeps\<close>

lemma scan_body_running: "scan_body db r pos ds = Inr (go_on, pos', ds') \<Longrightarrow> m_running ds' = m_running ds"
  by (auto simp: scan_body_def Let_def and_then_eq_Inr split: read_result.splits if_splits)

text \<open>Once the scan has been called it stays called, and a stop is not taken back.\<close>

lemma disk_step_called:
  assumes "disk_step db ev s = Inr t" "fst s \<noteq> Not_Called"
  shows "fst t \<noteq> Not_Called" and "\<not> m_running (snd s) \<Longrightarrow> \<not> m_running (snd t)"
  using assms
  by (induction db ev s rule: disk_step.induct)
    (auto simp: stop_def and_then_eq_Inr dest: scan_body_running split: if_splits)

lemma disk_step_returned: "disk_step db ev s = Inr t \<Longrightarrow> fst s = Returned b \<Longrightarrow> fst t = Returned b"
  by (induction db ev s rule: disk_step.induct) (auto simp: stop_def)

lemma disk_step_call: "disk_step db Call_Scan s = Inr t \<Longrightarrow> fst t \<noteq> Not_Called"
  by (cases "(db, Call_Scan, s)" rule: disk_step.cases) auto

lemma disk_step_stop: "disk_step db Call_Stop s = Inr t \<Longrightarrow> \<not> m_running (snd t)"
  by (cases "(db, Call_Stop, s)" rule: disk_step.cases) (auto simp: stop_def)

text \<open>An iteration that finds the flag cleared, or the end of the disk, is the last.\<close>

lemma disk_step_last:
  assumes "disk_step db ev s = Inr t" "is_iterate ev" "fst s \<noteq> Not_Called"
    and "\<not> m_running (snd s) \<or> at_end ev"
  shows "\<exists>b. fst t = Returned b"
proof (cases "fst s")
  case (At_Loop pos)
  then obtain ds where s: "s = (At_Loop pos, ds)" by (cases s) simp
  with assms have "fst t = Returned False"
    by (auto simp: is_iterate_def at_end_def scan_body_def split: if_splits)
  then show ?thesis by blast
next
  case (Returned b)
  with assms(1) disk_step_returned show ?thesis by blast
qed (use assms in simp)

section \<open>Along a trace\<close>

text \<open>The states of a trace: each comes out of the one before by the event of its time.\<close>

definition states ::
  "('d, 'r) database \<Rightarrow> (nat \<Rightarrow> scan_event) \<Rightarrow> (nat \<Rightarrow> scan_pc \<times> 'd disk_scanner) \<Rightarrow> bool" where
  "states db es s \<longleftrightarrow> (\<forall>n. disk_step db (es n) (s n) = Inr (s (Suc n)))"

lemma statesD: "states db es s \<Longrightarrow> disk_step db (es n) (s n) = Inr (s (Suc n))"
  by (simp add: states_def)

lemma called_stays:
  assumes "states db es s" "k \<le> n" "fst (s k) \<noteq> Not_Called"
  shows "fst (s n) \<noteq> Not_Called"
  using assms(2,3) by (induction rule: dec_induct) (use disk_step_called(1) [OF statesD [OF assms(1)]] in blast)+

lemma stopped_stays:
  assumes "states db es s" "k \<le> n" "fst (s k) \<noteq> Not_Called" "\<not> m_running (snd (s k))"
  shows "\<not> m_running (snd (s n))"
  using assms(2)
proof (induction rule: dec_induct)
  case (step n)
  with disk_step_called(2) [OF statesD [OF assms(1)] called_stays [OF assms(1) step.hyps(1) assms(3)]]
  show ?case by blast
qed (rule assms(4))

lemma returned_stays:
  assumes "states db es s" "k \<le> n" "fst (s k) = Returned b"
  shows "fst (s n) = Returned b"
  using assms(2,3) by (induction rule: dec_induct) (use disk_step_returned [OF statesD [OF assms(1)]] in blast)+

text \<open>After some time every iteration is a last one; by fairness there is one.\<close>

lemma last_iterations:
  assumes "states db es s" "fair_run k es"
  shows "\<exists>m. \<forall>n\<ge>m. \<not> m_running (snd (s n)) \<or> at_end (es n)"
proof (cases "\<exists>m>k. es m = Call_Stop")
  case True
  then obtain m where m: "k < m" "es m = Call_Stop" by blast
  have "fst (s (Suc k)) \<noteq> Not_Called"
    using disk_step_call statesD [OF assms(1), of k] assms(2) by (metis fair_run_def)
  then have called: "fst (s (Suc m)) \<noteq> Not_Called"
    by (rule called_stays [OF assms(1), rotated]) (use m(1) in simp)
  have "\<not> m_running (snd (s (Suc m)))"
    using disk_step_stop statesD [OF assms(1), of m] m(2) by metis
  then show ?thesis using stopped_stays [OF assms(1) _ called] by blast
next
  case False
  with assms(2) show ?thesis by (auto simp: fair_run_def)
qed

lemma states_return:
  assumes "states db es s" "fair_run k es"
  obtains b N where "\<And>n. N \<le> n \<Longrightarrow> fst (s n) = Returned b"
proof -
  from last_iterations [OF assms] obtain m where m: "\<And>n. m \<le> n \<Longrightarrow> \<not> m_running (snd (s n)) \<or> at_end (es n)"
    by blast
  obtain n where n: "max m (Suc k) \<le> n" "is_iterate (es n)"
    using assms(2) unfolding fair_run_def by blast
  have "fst (s (Suc k)) \<noteq> Not_Called"
    using disk_step_call statesD [OF assms(1), of k] assms(2) by (metis fair_run_def)
  then have "fst (s n) \<noteq> Not_Called" by (rule called_stays [OF assms(1), rotated]) (use n(1) in simp)
  moreover have "\<not> m_running (snd (s n)) \<or> at_end (es n)" using m n(1) by simp
  ultimately obtain b where "fst (s (Suc n)) = Returned b"
    using disk_step_last [OF statesD [OF assms(1)] n(2)] by blast
  then show thesis using returned_stays [OF assms(1)] that by blast
qed

context sql_store
begin

lemma trace_safe:
  assumes "disk_inv ents exts good s" "\<forall>n. clean_event (es n)"
  shows "\<exists>t. trace db es s n = Inr t \<and> disk_inv ents exts good t"
proof (induction n)
  case (Suc n)
  then obtain t where t: "trace db es s n = Inr t" "disk_inv ents exts good t" by blast
  from disk_step_safe [OF t(2)] assms(2) obtain u where "disk_step db (es n) t = Inr u" "disk_inv ents exts good u"
    by blast
  with t(1) show ?case by simp
qed (simp add: assms(1))

text \<open>The traces of the model are such sequences of states.\<close>

lemma trace_states:
  assumes "disk_inv ents exts good s" "\<forall>n. clean_event (es n)"
  obtains ss where "states db es ss" "\<And>n. trace db es s n = Inr (ss n)" "\<And>n. disk_inv ents exts good (ss n)"
proof -
  from trace_safe [OF assms] obtain ss where ss: "\<And>n. trace db es s n = Inr (ss n) \<and> disk_inv ents exts good (ss n)"
    by metis
  have "disk_step db (es n) (ss n) = Inr (ss (Suc n))" for n
    using ss [of n] ss [of "Suc n"] by simp
  then show thesis using ss by (intro that [of ss]) (auto simp: states_def)
qed

lemma trace_returns:
  assumes "disk_inv ents exts good s" "\<forall>n. clean_event (es n)" "fair_run k es"
  obtains N where "\<And>n. N \<le> n \<Longrightarrow> \<exists>ds. trace db es s n = Inr (Returned False, ds) \<and>
    fs_inv ents exts good (m_fileSystem ds)"
proof -
  obtain ss where ss: "states db es ss" "\<And>n. trace db es s n = Inr (ss n)"
    "\<And>n. disk_inv ents exts good (ss n)"
    by (rule trace_states [OF assms(1,2)]) blast
  obtain b N where N: "\<And>n. N \<le> n \<Longrightarrow> fst (ss n) = Returned b"
    by (rule states_return [OF ss(1) assms(3)]) blast
  show thesis
  proof (rule that)
    fix n assume "N \<le> n"
    with N have f: "fst (ss n) = Returned b" by blast
    with ss(3) [of n] have "b = False" "fs_inv ents exts good (m_fileSystem (snd (ss n)))"
      by (simp_all add: disk_inv_def)
    with f ss(2) [of n] show "\<exists>ds. trace db es s n = Inr (Returned False, ds) \<and>
        fs_inv ents exts good (m_fileSystem ds)"
      by (metis prod.collapse)
  qed
qed

end

section \<open>Properties\<close>

text \<open>
  C19. The scan returns. From the opened state, if the scan is called, the scanning thread runs
  again and again, every block read is one the scanner understands, and at some time the disk
  ends, reads begin to fail, or a signal comes after the call, then no step faults and \<open>scan\<close>
  returns, with the value false and a file system that agrees with its database.
\<close>
theorem scan_returns:
  assumes "sql_store db ents exts good" and "db_inv ents exts good d" and "m_scanners ds0 = []"
    and "\<forall>n. clean_event (es n)" and "fair_run k es"
  shows "\<exists>N. \<forall>n\<ge>N. \<exists>ds. trace db es (Not_Called, snd (disk_open db d fd ds0)) n = Inr (Returned False, ds) \<and>
    fs_inv ents exts good (m_fileSystem ds)"
  using sql_store.trace_returns [OF assms(1) sql_store.disk_open_inv [OF assms(1-3)] assms(4,5)] by metis

theorem scan_returns_witness:
  "\<exists>N. \<forall>n\<ge>N. \<exists>ds.
     trace mem_db (\<lambda>n. if n = 0 then Call_Scan else if n = 5 then Call_Stop else Iterate (Read_Bytes ex_block []))
       (Not_Called, snd (disk_open mem_db ex_tables 3 ex_disk)) n = Inr (Returned False, ds)"
proof -
  let ?es = "\<lambda>n :: nat. if n = 0 then Call_Scan else if n = 5 then Call_Stop else Iterate (Read_Bytes ex_block [])"
  have s: "m_scanners ex_disk = []" by (simp add: ex_disk_def)
  have clean: "\<forall>n. clean_event (?es n)" using ex_block_clean by auto
  have "\<exists>n\<ge>m. is_iterate (?es n)" for m
    by (rule exI [of _ "m + 6"]) (simp add: is_iterate_def)
  then have "fair_run 0 ?es" by (auto simp: fair_run_def intro!: exI [of _ 5])
  from scan_returns [OF mem.sql_store_axioms ex_db_inv s clean this] show ?thesis by blast
qed

end
