(* ===== verification/Hexdump.thy ===== *)
theory Hexdump
  imports Byte_Memory
begin

text \<open>
  \<open>hexdump\<close> of \<open>src/libsbb/utils.cpp\<close>: rows of up to 16 bytes, each the address of its first byte,
  the bytes in hexadecimal and the bytes as characters. What is printed is the result, a list of
  bytes. The pointer \<open>pos\<close> is its numeric value \<open>addr\<close>, which is printed, and the bytes \<open>mem\<close> of the
  array it points to; a read outside the array is a fault, and so is the overflow of the \<open>int\<close> \<open>i\<close>.
  The lemmas show that what is printed determines the bytes.
\<close>

section \<open>The formats of printf\<close>

text \<open>The digits of \<open>%x\<close>, \<open>%02x\<close> and \<open>%08llx\<close>: lower-case, padded with zeros on the left.\<close>

definition hex_digit :: "nat \<Rightarrow> u8" where
  "hex_digit n = (if n < 10 then 48 + of_nat n else 87 + of_nat n)"

fun hex_digits :: "nat \<Rightarrow> cpp_string" where
  "hex_digits n = (if n < 16 then [hex_digit n] else hex_digits (n div 16) @ [hex_digit (n mod 16)])"

declare hex_digits.simps [simp del]

definition pad_zero :: "nat \<Rightarrow> cpp_string \<Rightarrow> cpp_string" where
  "pad_zero w s = replicate (w - length s) 48 @ s"

text \<open>
  \<open>isprint\<close> in the \<open>C\<close> locale. Its argument is a \<open>char\<close>, which is signed: the bytes from 128 are
  negative, for which the standard promises nothing and the C libraries in use answer no.
\<close>

definition isprint :: "u8 \<Rightarrow> bool" where
  "isprint c \<longleftrightarrow> 32 \<le> c \<and> c \<le> 126"

section \<open>The code\<close>

text \<open>The two loops over a row; \<open>k\<close> is what \<open>j\<close> lacks of 16 and \<open>p\<close> is \<open>i + j\<close>.\<close>

fun hex_columns :: "u8 list \<Rightarrow> int \<Rightarrow> nat \<Rightarrow> int \<Rightarrow> cpp_string res" where
  "hex_columns mem len 0 p = Inr []"
| "hex_columns mem len (Suc k) p =
     (if p < len
      then and_then (rd8 mem p) (\<lambda>b.
           and_then (hex_columns mem len k (p + 1)) (\<lambda>out.
             Inr (pad_zero 2 (hex_digits (unat b)) @ [32] @ out)))
      else Inr [])"

fun text_columns :: "u8 list \<Rightarrow> int \<Rightarrow> nat \<Rightarrow> int \<Rightarrow> cpp_string res" where
  "text_columns mem len 0 p = Inr []"
| "text_columns mem len (Suc k) p =
     (if p < len
      then and_then (rd8 mem p) (\<lambda>c.
           and_then (text_columns mem len k (p + 1)) (\<lambda>out.
             Inr ((if isprint c then c else 46) # out)))
      else Inr [])"

definition hex_row :: "u64 \<Rightarrow> u8 list \<Rightarrow> int \<Rightarrow> int \<Rightarrow> cpp_string res" where
  "hex_row addr mem len i =
     and_then (hex_columns mem len 16 i) (\<lambda>hex.
     and_then (text_columns mem len 16 i) (\<lambda>txt.
       Inr (pad_zero 8 (hex_digits (unat (addr + of_int i))) @ [58, 32] @ hex @ txt @ [10])))"

function hex_rows :: "u64 \<Rightarrow> u8 list \<Rightarrow> int \<Rightarrow> int \<Rightarrow> cpp_string res" where
  "hex_rows addr mem len i =
     (if i < len
      then and_then (hex_row addr mem len i) (\<lambda>row.
           if i + 16 < 2 ^ 31
           then and_then (hex_rows addr mem len (i + 16)) (\<lambda>rows. Inr (row @ rows))
           else Inl SignedOverflow)
      else Inr [])"
  by pat_completeness auto
termination by (relation "measure (\<lambda>(addr, mem, len, i). nat (len - i))") auto

declare hex_rows.simps [simp del]

definition hexdump :: "u64 \<Rightarrow> u8 list \<Rightarrow> int \<Rightarrow> cpp_string res" where
  "hexdump addr mem len = hex_rows addr mem len 0"

section \<open>Reading a dump back\<close>

definition digit_value :: "u8 \<Rightarrow> nat" where
  "digit_value c = (if c < 58 then unat c - 48 else unat c - 87)"

text \<open>
  A row of \<open>n\<close> bytes has, after the address and its separator, three characters per byte and then
  one per byte, so its length tells how many bytes it shows.
\<close>

fun row_bytes :: "nat \<Rightarrow> cpp_string \<Rightarrow> u8 list" where
  "row_bytes (Suc n) (a # b # s # cs) = of_nat (16 * digit_value a + digit_value b) # row_bytes n cs"
| "row_bytes _ _ = []"

definition read_row :: "cpp_string \<Rightarrow> u8 list" where
  "read_row row = (let rest = drop 2 (dropWhile (\<lambda>c. c \<noteq> 58) row) in row_bytes (length rest div 4) rest)"

fun rows_of :: "cpp_string \<Rightarrow> cpp_string \<Rightarrow> cpp_string list" where
  "rows_of row [] = []"
| "rows_of row (c # cs) = (if c = 10 then row # rows_of [] cs else rows_of (row @ [c]) cs)"

definition undump :: "cpp_string \<Rightarrow> u8 list" where
  "undump out = concat (map read_row (rows_of [] out))"

section \<open>Lemmas\<close>

lemma hex_digit_table:
  "list_all (\<lambda>n. digit_value (hex_digit n) = n \<and> hex_digit n \<noteq> 10 \<and> hex_digit n \<noteq> 58) [0..<16]"
  by (simp add: upt_conv_Cons digit_value_def hex_digit_def)

lemma hex_digit_value: "n < 16 \<Longrightarrow> digit_value (hex_digit n) = n \<and> hex_digit n \<noteq> 10 \<and> hex_digit n \<noteq> 58"
  using hex_digit_table by (simp add: list_all_iff)

lemma hex_digit_char: "n < 16 \<Longrightarrow> hex_digit n \<notin> {10, 58}"
  using hex_digit_value by simp

lemma hex_digits_chars: "set (hex_digits n) \<inter> {10, 58} = {}"
proof (induction n rule: hex_digits.induct)
  case (1 n)
  then show ?case using hex_digit_char [of n] hex_digit_char [of "n mod 16"]
    by (subst hex_digits.simps) auto
qed

lemma pad_zero_chars: "set s \<inter> {10, 58} = {} \<Longrightarrow> set (pad_zero w s) \<inter> {10, 58} = {}"
  by (auto simp: pad_zero_def)

text \<open>A byte is printed as its two digits.\<close>

lemma hex_byte: "pad_zero 2 (hex_digits (unat (b :: u8))) = [hex_digit (unat b div 16), hex_digit (unat b mod 16)]"
proof -
  have "unat b < 256" using unat_bound [of b] by simp
  then have "unat b div 16 < 16" by linarith
  then show ?thesis
    by (subst hex_digits.simps, subst hex_digits.simps) (simp add: pad_zero_def hex_digit_def)
qed

lemma rd8_nth: "p < length mem \<Longrightarrow> rd8 mem (int p) = Inr (mem ! p)"
  by (simp add: rd8_def rd_bytes_def take_Suc_conv_app_nth drop_Suc flip: One_nat_def)
    (simp add: take_Suc hd_drop_conv_nth)

definition hex_text :: "u8 list \<Rightarrow> cpp_string" where
  "hex_text bs = concat (map (\<lambda>b. [hex_digit (unat b div 16), hex_digit (unat b mod 16), 32]) bs)"

definition char_text :: "u8 list \<Rightarrow> cpp_string" where
  "char_text bs = map (\<lambda>c. if isprint c then c else 46) bs"

lemma hex_columns_ok:
  "n \<le> length mem \<Longrightarrow> hex_columns mem (int n) k (int p) = Inr (hex_text (take k (drop p (take n mem))))"
proof (induction k arbitrary: p)
  case (Suc k)
  show ?case
  proof (cases "p < n")
    case True
    then have "drop p (take n mem) = mem ! p # drop (Suc p) (take n mem)"
      using Suc.prems by (metis Cons_nth_drop_Suc length_take min.absorb2 nth_take)
    moreover have e: "int p + 1 = int (Suc p)" by simp
    ultimately show ?thesis
      using True Suc.IH [OF Suc.prems, of "Suc p"] Suc.prems
      by (simp add: rd8_nth hex_byte hex_text_def e del: of_nat_Suc)
  qed (simp add: hex_text_def)
qed (simp add: hex_text_def)

lemma text_columns_ok:
  "n \<le> length mem \<Longrightarrow> text_columns mem (int n) k (int p) = Inr (char_text (take k (drop p (take n mem))))"
proof (induction k arbitrary: p)
  case (Suc k)
  show ?case
  proof (cases "p < n")
    case True
    then have "drop p (take n mem) = mem ! p # drop (Suc p) (take n mem)"
      using Suc.prems by (metis Cons_nth_drop_Suc length_take min.absorb2 nth_take)
    moreover have e: "int p + 1 = int (Suc p)" by simp
    ultimately show ?thesis
      using True Suc.IH [OF Suc.prems, of "Suc p"] Suc.prems
      by (simp add: rd8_nth char_text_def e del: of_nat_Suc)
  qed (simp add: char_text_def)
qed (simp add: char_text_def)

text \<open>A row without its end of line.\<close>

definition row_text :: "u64 \<Rightarrow> u8 list \<Rightarrow> cpp_string" where
  "row_text a bs = pad_zero 8 (hex_digits (unat a)) @ [58, 32] @ hex_text bs @ char_text bs"

lemma hex_row_ok:
  "n \<le> length mem \<Longrightarrow> hex_row addr mem (int n) (int p) =
     Inr (row_text (addr + of_nat p) (take 16 (drop p (take n mem))) @ [10])"
  by (simp add: hex_row_def row_text_def hex_columns_ok text_columns_ok)

lemma row_text_no_newline: "10 \<notin> set (row_text a bs)"
proof -
  have "10 \<notin> set (hex_text bs)"
    using hex_digit_char [of "unat b div 16" for b :: u8] hex_digit_char [of "unat b mod 16" for b :: u8]
      unat_bound [of b for b :: u8] by (auto simp: hex_text_def less_mult_imp_div_less)
  moreover have "10 \<notin> set (char_text bs)" by (auto simp: char_text_def isprint_def)
  ultimately show ?thesis
    using pad_zero_chars [OF hex_digits_chars] by (auto simp: row_text_def)
qed

lemma row_bytes_hex: "row_bytes (length bs) (hex_text bs @ rest) = bs"
proof (induction bs)
  case (Cons b bs)
  have "unat b < 256" using unat_bound [of b] by simp
  then have "unat b div 16 < 16" by linarith
  then have "digit_value (hex_digit (unat b div 16)) = unat b div 16" by (simp add: hex_digit_value)
  moreover have "digit_value (hex_digit (unat b mod 16)) = unat b mod 16" by (simp add: hex_digit_value)
  ultimately show ?case using Cons.IH by (simp add: hex_text_def)
qed (simp add: hex_text_def)

lemma read_row_text: "read_row (row_text a bs) = bs"
proof -
  have "dropWhile (\<lambda>c. c \<noteq> 58) (row_text a bs) = [58, 32] @ hex_text bs @ char_text bs"
    unfolding row_text_def using pad_zero_chars [OF hex_digits_chars, of 8 "unat a"]
    by (subst dropWhile_append2) auto
  moreover have "length (hex_text bs @ char_text bs) = 4 * length bs"
    by (induction bs) (simp_all add: hex_text_def char_text_def)
  ultimately show ?thesis by (simp add: read_row_def Let_def row_bytes_hex)
qed

lemma rows_of_row: "10 \<notin> set s \<Longrightarrow> rows_of acc (s @ 10 # rest) = (acc @ s) # rows_of [] rest"
  by (induction s arbitrary: acc) auto

lemma undump_row: "undump (row_text a bs @ 10 # rest) = bs @ undump rest"
  using rows_of_row [OF row_text_no_newline, of "[]"] by (simp add: undump_def read_row_text)

lemma undump_Nil [simp]: "undump [] = []"
  by (simp add: undump_def)

lemma rows_of_append: "rows_of acc (s @ 10 # u) = rows_of acc (s @ [10]) @ rows_of [] u"
  by (induction s arbitrary: acc) auto

lemma undump_append_rows:
  assumes "undump out = bs" "out = [] \<or> last out = 10"
  shows "undump (out @ out') = bs @ undump out'"
proof (cases out rule: rev_cases)
  case (snoc s c)
  with assms(2) have "out = s @ [10]" by simp
  then show ?thesis using assms(1) rows_of_append [of "[]" s out'] by (simp add: undump_def)
qed (use assms in simp)

text \<open>
  The rows of a dump, from offset \<open>p\<close>: no access leaves the array, nothing overflows, and reading
  the rows back gives the bytes.
\<close>

lemma hex_rows_ok:
  assumes "n \<le> length mem" "n < 2 ^ 31 - 15"
  shows "\<exists>out. hex_rows addr mem (int n) (int p) = Inr out \<and> undump out = drop p (take n mem) \<and>
    (out = [] \<or> last out = 10)"
proof (induction "n - p" arbitrary: p rule: less_induct)
  case less
  show ?case
  proof (cases "p < n")
    case True
    then have "n - (p + 16) < n - p" by simp
    from less [OF this] obtain out where
      out: "hex_rows addr mem (int n) (int (p + 16)) = Inr out" "undump out = drop (p + 16) (take n mem)"
        "out = [] \<or> last out = 10" by (elim exE conjE)
    have "int p + 16 < 2 ^ 31" using True assms(2) by simp
    moreover have e: "int p + 16 = int (p + 16)" by simp
    moreover have "take 16 (drop p (take n mem)) @ drop (p + 16) (take n mem) = drop p (take n mem)"
      by (metis append_take_drop_id drop_drop add.commute)
    ultimately show ?thesis
      using True out hex_row_ok [OF assms(1), of addr p]
      by (subst hex_rows.simps) (auto simp: undump_row e simp del: of_nat_add of_nat_numeral)
  next
    case False
    then show ?thesis by (subst hex_rows.simps) simp
  qed
qed

lemma hexdump_all:
  assumes "length bs < 2 ^ 31 - 15"
  obtains out where "hexdump addr bs (int (length bs)) = Inr out" "undump out = bs" "out = [] \<or> last out = 10"
proof -
  from hex_rows_ok [OF order_refl assms, of addr 0] obtain out where
    "hex_rows addr bs (int (length bs)) (int 0) = Inr out" "undump out = drop 0 (take (length bs) bs)"
    "out = [] \<or> last out = 10" by blast
  then show thesis by (intro that) (simp_all add: hexdump_def)
qed

text \<open>
  C25. Round trip of a dump. A dump of at most \<open>2 ^ 31 - 16\<close> bytes that the array has does not fault,
  and the bytes can be read back from what is printed.
\<close>
theorem hexdump_round_trip:
  assumes "n \<le> length mem" and "n < 2 ^ 31 - 15"
  shows "\<exists>out. hexdump addr mem (int n) = Inr out \<and> undump out = take n mem"
  using hex_rows_ok [OF assms, of addr 0] by (auto simp: hexdump_def)

theorem hexdump_round_trip_witness:
  "\<exists>out. hexdump 0x1000 [72, 105, 10, 0] 3 = Inr out \<and> undump out = [72, 105, 10]"
  using hexdump_round_trip [of 3 "[72, 105, 10, 0]" "0x1000"] by simp

end
