(* ===== verification/Dump_File.thy ===== *)
theory Dump_File
  imports File_Read APFS_Scanner Hexdump
begin

text \<open>
  \<open>APFSScanner::dumpFile\<close> of \<open>src/libsbb/apfsscanner.cpp\<close>: the extents of a file are read one after
  the other through the descriptor of the disk and printed with \<open>hexdump\<close>. The descriptor is the
  state of the device, on which \<open>lseek\<close> and \<open>read\<close> of the system work (the locale \<open>seek_device\<close>
  states what the code relies on). The addresses of the buffers, which are printed, are those
  \<open>new\<close> returns: a parameter.
\<close>

section \<open>The code\<close>

definition disk_offset :: "scanner \<Rightarrow> EntryExtent \<Rightarrow> u64" where
  "disk_offset sc x = m_fsOffset sc + physicalBlock x * ucast (m_currentBlockSize sc)"

text \<open>
  The loop. A negative \<open>readLen\<close> is refused by \<open>new uint8_t[readLen]\<close>; \<open>k\<close> counts the buffers.
\<close>

fun dump_extents ::
  "(u64 \<Rightarrow> 'v \<Rightarrow> 'v) \<Rightarrow> (u64 \<Rightarrow> 'v \<Rightarrow> u8 list option \<times> 'v) \<Rightarrow> (nat \<Rightarrow> u64) \<Rightarrow> scanner \<Rightarrow> nat
     \<Rightarrow> EntryExtent list \<Rightarrow> u64 \<Rightarrow> 'v \<Rightarrow> (cpp_string \<times> 'v) res" where
  "dump_extents lseek read_fd addr sc k [] remaining v = Inr ([], v)"
| "dump_extents lseek read_fd addr sc k (x # xs) remaining v =
     (let readLen = (ucast (if extent_length x < remaining then extent_length x else remaining) :: u32);
          v = lseek (disk_offset sc x) v
      in if sint readLen < 0 then Inl BadAlloc
         else (case read_fd (scast readLen) v of
             (None, v) \<Rightarrow> Inr ([], v)
           | (Some bs, v) \<Rightarrow>
               if bs = [] then Inr ([], v)
               else and_then (hexdump (addr k) bs (sint (of_nat (length bs) :: u32))) (\<lambda>out.
                    and_then (dump_extents lseek read_fd addr sc (Suc k) xs
                        (remaining - of_nat (length bs)) v) (\<lambda>(outs, v).
                      Inr (out @ outs, v)))))"

definition dumpFile ::
  "('d, 'r) database \<Rightarrow> (u64 \<Rightarrow> 'v \<Rightarrow> 'v) \<Rightarrow> (u64 \<Rightarrow> 'v \<Rightarrow> u8 list option \<times> 'v) \<Rightarrow> (nat \<Rightarrow> u64)
     \<Rightarrow> scanner \<Rightarrow> u64 \<Rightarrow> 'd filesystem \<times> 'v \<Rightarrow> (cpp_string \<times> 'd filesystem \<times> 'v) res" where
  "dumpFile db lseek read_fd addr sc i s =
     (let (fs, v) = s
      in case findByInode db i fs of
           (None, fs) \<Rightarrow> Inr ([], fs, v)
         | (Some p, fs) \<Rightarrow>
             and_then (deref fs p) (\<lambda>e.
               let xs = sort_key logicalAddress (extents e);
                   fs = store p (e\<lparr>extents := xs\<rparr>) fs
               in and_then (dump_extents lseek read_fd addr sc 0 xs (entry_length e) v) (\<lambda>(out, v).
                    Inr (out, fs, v))))"

section \<open>Devices with a position\<close>

locale seek_device =
  fixes lseek :: "u64 \<Rightarrow> 'v \<Rightarrow> 'v" and read_fd :: "u64 \<Rightarrow> 'v \<Rightarrow> u8 list option \<times> 'v" and img :: "u8 list"
  assumes seek_read: "unat off + unat n \<le> length img \<Longrightarrow> unat off < 2 ^ 63 \<Longrightarrow> unat n < 2 ^ 63 \<Longrightarrow>
    \<exists>v'. read_fd n (lseek off v) = (Some (take (unat n) (drop (unat off) img)), v')"

text \<open>The descriptor of a regular file: its position.\<close>

definition file_lseek :: "u64 \<Rightarrow> nat \<Rightarrow> nat" where
  "file_lseek off pos = (if unat off < 2 ^ 63 then unat off else pos)"

definition file_read :: "u8 list \<Rightarrow> u64 \<Rightarrow> nat \<Rightarrow> u8 list option \<times> nat" where
  "file_read img n pos =
     (if 2 ^ 63 \<le> unat n then (None, pos)
      else let bs = take (unat n) (drop pos img) in (Some bs, pos + length bs))"

interpretation seek_file: seek_device file_lseek "file_read img" img for img
  by unfold_locales (auto simp: file_lseek_def file_read_def)

section \<open>What is printed\<close>

text \<open>
  On a container that starts where \<open>FileSystem::read\<close> takes it to start, with blocks of 4096
  bytes, both routines look for an extent at the same place.
\<close>

definition standard_container :: "scanner \<Rightarrow> bool" where
  "standard_container sc \<longleftrightarrow> m_fsOffset sc = 0xc805000 \<and> m_currentBlockSize sc = 4096"

lemma disk_offset_standard: "standard_container sc \<Longrightarrow> disk_offset sc x = image_offset x"
  by (simp add: disk_offset_def image_offset_def standard_container_def)

text \<open>An extent \<open>hexdump\<close> can print at once.\<close>

definition dumpable :: "EntryExtent list \<Rightarrow> bool" where
  "dumpable xs \<longleftrightarrow> (\<forall>x \<in> set xs. unat (extent_length x) < 2 ^ 31 - 15)"

context seek_device
begin

lemma dump_extent:
  assumes "standard_container sc" "readable img x" "unat (extent_length x) < 2 ^ 31 - 15" "0 < m"
  shows "\<exists>out v'. dump_extents lseek read_fd addr sc k (x # xs) m v =
      and_then (dump_extents lseek read_fd addr sc (Suc k) xs
          (m - of_nat (length (take (unat m) (extent_bytes img x)))) v') (\<lambda>(outs, v). Inr (out @ outs, v)) \<and>
    undump out = take (unat m) (extent_bytes img x) \<and> (out = [] \<or> last out = 10)"
proof -
  let ?n = "if extent_length x < m then extent_length x else m"
  let ?bs = "take (unat m) (extent_bytes img x)"
  have n: "unat ?n = min (unat (extent_length x)) (unat m)" by (auto simp: word_less_nat_alt)
  have x: "0 < unat (extent_length x)" "unat (image_offset x) < 2 ^ 63"
    "unat (image_offset x) + unat (extent_length x) \<le> length img"
    using assms(2) by (simp_all add: readable_def)
  have small: "unat ?n < 2 ^ 31 - 15" using n assms(3) by linarith
  then have "unat ?n < 2 ^ 31" by linarith
  note narrow = narrow_small [OF this] and sint = sint_small [OF this]
  have len: "length ?bs = unat ?n"
    using length_extent_bytes [OF assms(2)] n by (simp add: min.commute)
  have bs: "take (unat ?n) (drop (unat (image_offset x)) img) = ?bs"
    unfolding extent_bytes_def n by (simp add: min.commute)
  have "unat (image_offset x) + unat ?n \<le> length img" using x(3) n by linarith
  moreover have "unat ?n < 2 ^ 63" using small by (rule order_less_trans) simp
  ultimately have "\<exists>v'. read_fd ?n (lseek (image_offset x) v) = (Some ?bs, v')"
    unfolding bs [symmetric] by (rule seek_read [OF _ x(2)])
  then obtain v' where v': "read_fd ?n (lseek (image_offset x) v) = (Some ?bs, v')" by blast
  have ne: "?bs \<noteq> []" using len n x(1) assms(4) by (auto simp: word_less_nat_alt)
  have eq: "of_nat (length ?bs) = (ucast ?n :: u32)" unfolding len by (rule of_nat_unat)
  then have l: "sint (of_nat (length ?bs) :: u32) = int (length ?bs)" using sint len by simp
  obtain out where out: "hexdump (addr k) ?bs (int (length ?bs)) = Inr out" "undump out = ?bs"
    "out = [] \<or> last out = 10"
    by (rule hexdump_all [of ?bs "addr k"]) (use len small in simp)
  have "0 \<le> sint (ucast ?n :: u32)" using sint by simp
  with v' ne l out narrow disk_offset_standard [OF assms(1), of x] show ?thesis
    by (intro exI [of _ out] exI [of _ v']) (simp add: Let_def)
qed

lemma dump_extents_contiguous:
  assumes "standard_container sc" "contiguous a xs" "a \<le> unat n"
    "unat n \<le> a + (\<Sum>x\<leftarrow>xs. unat (extent_length x))"
    "\<forall>x \<in> set xs. readable img x \<and> unat (logicalAddress x) < unat n" "dumpable xs"
  shows "\<exists>out v'. dump_extents lseek read_fd addr sc k xs (n - of_nat a) v = Inr (out, v') \<and>
    undump out = take (unat n - a) (concat (map (extent_bytes img) xs)) \<and> (out = [] \<or> last out = 10)"
  using assms(2-6)
proof (induction xs arbitrary: a k v)
  case (Cons x xs)
  let ?m = "n - of_nat a :: u64" and ?bs = "take (unat n - a) (extent_bytes img x)"
  have x: "readable img x" "a < unat n" "unat (extent_length x) < 2 ^ 31 - 15"
    using Cons.prems(1,4,5) by (auto simp: dumpable_def)
  have len: "length (extent_bytes img x) = unat (extent_length x)" by (rule length_extent_bytes [OF x(1)])
  have "unat (of_nat a :: u64) = a" using x(2) unat_u64_bound [of n] by (intro of_nat_inverse) simp_all
  then have m: "unat ?m = unat n - a" using x(2) by (subst unat_sub) (simp_all add: word_le_nat_alt)
  then have "0 < ?m" using x(2) by (simp add: word_less_nat_alt)
  from dump_extent [OF assms(1) x(1,3) this, of addr k xs v] obtain out v' where
    out: "dump_extents lseek read_fd addr sc k (x # xs) ?m v =
      and_then (dump_extents lseek read_fd addr sc (Suc k) xs (?m - of_nat (length ?bs)) v')
        (\<lambda>(outs, v). Inr (out @ outs, v))"
      "undump out = ?bs" "out = [] \<or> last out = 10" unfolding m by blast
  have step: "?m - of_nat (length ?bs) = n - of_nat (a + length ?bs)" by simp
  have "\<exists>outs v''. dump_extents lseek read_fd addr sc (Suc k) xs (n - of_nat (a + length ?bs)) v' = Inr (outs, v'') \<and>
      undump outs = take (unat n - (a + length ?bs)) (concat (map (extent_bytes img) xs)) \<and>
      (outs = [] \<or> last outs = 10)"
  proof (cases "unat (extent_length x) \<le> unat n - a")
    case True
    then show ?thesis
      using Cons.prems x(2) len by (intro Cons.IH) (auto simp: dumpable_def)
  next
    case False
    have "xs = []"
    proof (cases xs)
      case (Cons y ys)
      with Cons.prems(1,4) False show ?thesis by auto
    qed simp
    then show ?thesis using len False by simp
  qed
  then obtain outs v'' where outs:
    "dump_extents lseek read_fd addr sc (Suc k) xs (n - of_nat (a + length ?bs)) v' = Inr (outs, v'')"
    "undump outs = take (unat n - (a + length ?bs)) (concat (map (extent_bytes img) xs))"
    "outs = [] \<or> last outs = 10" by blast
  have l: "out @ outs = [] \<or> last (out @ outs) = 10" using out(3) outs(3) by (cases outs) auto
  have "undump (out @ outs) = ?bs @ undump outs" using out(2,3) by (rule undump_append_rows)
  also have "?bs @ undump outs = take (unat n - a) (concat (map (extent_bytes img) (x # xs)))"
    using outs(2) len by (cases "unat (extent_length x) \<le> unat n - a") simp_all
  finally have u: "undump (out @ outs) = take (unat n - a) (concat (map (extent_bytes img) (x # xs)))" .
  have "dump_extents lseek read_fd addr sc k (x # xs) ?m v = Inr (out @ outs, v'')"
    unfolding out(1) step outs(1) by simp
  with u l show ?case by blast
qed simp

end

section \<open>Properties\<close>

text \<open>
  C22. Printing a file. For a file of the catalog whose extents lie without a hole in the image,
  on a container that starts where \<open>FileSystem::read\<close> takes it to start, \<open>dumpFile\<close> does not fault,
  and the bytes that can be read back from what it prints are the content of the file, which is
  what \<open>FileSystem::read\<close> returns. For an inode the catalog does not have it prints nothing.
\<close>
theorem dumpFile_prints_content:
  assumes "sql_store db ents exts good" and "fs_inv ents exts good fs"
    and "seek_device lseek read_fd img" and "image_device pread img" and "standard_container sc"
    and "mset (map row_of_extent xs) = exs" and "well_mapped img (unat (row_length row)) xs" and "dumpable xs"
  shows "(catalog_of ents exts (m_database fs) i = None \<longrightarrow>
      (\<exists>fs'. dumpFile db lseek read_fd addr sc i (fs, v) = Inr ([], fs', v))) \<and>
    (catalog_of ents exts (m_database fs) i = Some (row, exs) \<longrightarrow>
      (\<exists>out p n fs' v' fs''. dumpFile db lseek read_fd addr sc i (fs, v) = Inr (out, fs', v') \<and>
         undump out = file_content img (unat (row_length row)) xs \<and>
         smap_find (m_diskEntries fs') i = Some p \<and>
         read pread p 0 (row_length row) fs' = Inr ((n, map Some (undump out)), fs'')))"
proof (intro conjI impI)
  obtain q fs1 where find: "findByInode db i fs = (q, fs1)" by fastforce
  note spec = sql_store.findByInode_spec [OF assms(1,2) find]
  have d: "m_database fs1 = m_database fs" using spec(2) by (simp add: extends_def)
  {
    assume "catalog_of ents exts (m_database fs) i = None"
    with spec(3) at_hand_settled(2) [OF spec(1)] d find
    show "\<exists>fs'. dumpFile db lseek read_fd addr sc i (fs, v) = Inr ([], fs', v)"
      by (cases q) (auto simp: dumpFile_def)
  }
  assume some: "catalog_of ents exts (m_database fs) i = Some (row, exs)"
  show "\<exists>out p n fs' v' fs''. dumpFile db lseek read_fd addr sc i (fs, v) = Inr (out, fs', v') \<and>
         undump out = file_content img (unat (row_length row)) xs \<and>
         smap_find (m_diskEntries fs') i = Some p \<and>
         read pread p 0 (row_length row) fs' = Inr ((n, map Some (undump out)), fs'')"
  proof -
    from spec(3) some obtain p e where q: "q = Some p" and e: "at_hand fs1 i p e" by (cases q) auto
    then have p: "heap fs1 p = Some e" "smap_find (m_diskEntries fs1) i = Some p"
      by (simp_all add: at_hand_def)
    have "abs_entry e = (row, exs)" using at_hand_settled(2) [OF spec(1) e] some d by simp
    note len = stored_file(1) [OF this assms(6,7)] and xs = stored_file(2) [OF this assms(6,7)]
    let ?n = "row_length row" and ?c = "file_content img (unat (row_length row)) xs"
    let ?fs = "store p (e\<lparr>extents := xs\<rparr>) fs1"
    from assms(7) have w: "contiguous 0 xs" "0 \<le> unat ?n" "unat ?n \<le> 0 + (\<Sum>x\<leftarrow>xs. unat (extent_length x))"
      "\<forall>x \<in> set xs. readable img x \<and> unat (logicalAddress x) < unat ?n" by (simp_all add: well_mapped_def)
    from seek_device.dump_extents_contiguous [OF assms(3,5) w assms(8), of addr 0 v]
    obtain out v' where out: "dump_extents lseek read_fd addr sc 0 xs ?n v = Inr (out, v')"
      "undump out = ?c" by (auto simp: file_content_def)
    have dump: "dumpFile db lseek read_fd addr sc i (fs, v) = Inr (out, ?fs, v')"
      using find q p(1) xs len out(1) by (simp add: dumpFile_def deref_def Let_def)
    have e': "heap ?fs p = Some (e\<lparr>extents := xs\<rparr>)" by simp
    have "sort_key logicalAddress xs = xs" using xs by (metis sort_key_id_if_sorted sorted_sort_key)
    then have w': "well_mapped img (unat (entry_length (e\<lparr>extents := xs\<rparr>)))
        (sort_key logicalAddress (extents (e\<lparr>extents := xs\<rparr>)))"
      using assms(7) len by simp
    have "unat (0 :: u64) + unat ?n < 2 ^ 64" using unat_u64_bound [of ?n] by simp
    from read_range [OF assms(4) e' w' this] obtain n fs'' where
      "read pread p 0 ?n ?fs = Inr ((n, map Some ?c), fs'')"
      using length_file_content [OF assms(7)] len \<open>sort_key logicalAddress xs = xs\<close> by auto
    then show ?thesis using dump out(2) p(2) by (intro exI conjI) (assumption | simp)+
  qed
qed

theorem dumpFile_prints_content_witness:
  "\<exists>out fs' v'. dumpFile mem_db file_lseek (file_read ex_mapped_image) (\<lambda>k. 0x1000)
       (new_scanner\<lparr>m_fsOffset := 0xc805000\<rparr>) 16 (ex_fs, 0) = Inr (out, fs', v') \<and>
     undump out = [1, 2, 3, 4, 5]"
proof -
  have len: "unat (row_length ex_file) = 5" by (simp add: ex_file_def)
  have c: "catalog_of mem_ents mem_exts (m_database ex_fs) 16 = Some (ex_file, {#(0, 40, 4096)#})"
    by (simp add: ex_catalog)
  have x: "mset (map row_of_extent [ex_mapped]) = {#(0, 40, 4096)#}"
    by (simp add: row_of_extent_def ex_mapped_def)
  have w: "well_mapped ex_mapped_image (unat (row_length ex_file)) [ex_mapped]"
    using ex_mapped_well by (simp only: len)
  have d: "dumpable [ex_mapped]" by (simp add: dumpable_def ex_mapped_def)
  have s: "standard_container (new_scanner\<lparr>m_fsOffset := 0xc805000\<rparr>)"
    by (simp add: standard_container_def new_scanner_def)
  from dumpFile_prints_content [OF mem.sql_store_axioms ex_fs_inv
      seek_file.seek_device_axioms [of ex_mapped_image] image.image_device_axioms [of ex_mapped_image] s x w d,
      THEN conjunct2, THEN mp, OF c, of "\<lambda>k. 0x1000" 0]
  show ?thesis unfolding len ex_mapped_content by blast
qed

end
