(* ===== verification/Byte_Order.thy ===== *)
theory Byte_Order
  imports Byte_Memory
begin

text \<open>
  The integer types of \<open>include/endian.h\<close>, for both settings of the header. The setting for a little-endian
  host (\<open>APFS_LITTLE_ENDIAN\<close>, which the file defines itself) is the one that is compiled: the \<open>le\<close> types are the native integers and
  the \<open>be\<close> types are classes that swap on every access. The file undefines \<open>APFS_BIG_ENDIAN\<close>, so its second
  half, where it is the other way round, is not compiled by any configuration there is; it is modelled
  as it is written, for a host the header means to support. \<open>disk_integer\<close> states what both are for: a value written to such an object is in memory
  in the byte order the type is named after, whatever the host. The functions \<open>bswap_16\<close>,
  \<open>bswap_32\<close> and \<open>bswap_64\<close> come with the system and reverse the bytes of a word. The signed
  overloads convert to unsigned and back, and keep the bits.
\<close>

section \<open>Swapping\<close>

definition bswap_16 :: "u16 \<Rightarrow> u16" where "bswap_16 x = le_word (rev (le_bytes 2 x))"
definition bswap_32 :: "u32 \<Rightarrow> u32" where "bswap_32 x = le_word (rev (le_bytes 4 x))"
definition bswap_64 :: "u64 \<Rightarrow> u64" where "bswap_64 x = le_word (rev (le_bytes 8 x))"

lemma bswap_le_word:
  "length bs = 2 \<Longrightarrow> bswap_16 (le_word bs) = le_word (rev bs)"
  "length cs = 4 \<Longrightarrow> bswap_32 (le_word cs) = le_word (rev cs)"
  "length ds = 8 \<Longrightarrow> bswap_64 (le_word ds) = le_word (rev ds)"
  using le_bytes_le_word [of bs, where 'a = 16] le_bytes_le_word [of cs, where 'a = 32]
    le_bytes_le_word [of ds, where 'a = 64]
  by (simp_all add: bswap_16_def bswap_32_def bswap_64_def)

lemma le_bytes_bswap:
  "le_bytes 2 (bswap_16 v) = rev (le_bytes 2 v)"
  "le_bytes 4 (bswap_32 w) = rev (le_bytes 4 w)"
  "le_bytes 8 (bswap_64 x) = rev (le_bytes 8 x)"
  using le_bytes_le_word [of "rev (le_bytes 2 v)", where 'a = 16]
    le_bytes_le_word [of "rev (le_bytes 4 w)", where 'a = 32]
    le_bytes_le_word [of "rev (le_bytes 8 x)", where 'a = 64]
  by (simp_all add: bswap_16_def bswap_32_def bswap_64_def)

lemma bswap_bswap [simp]: "bswap_16 (bswap_16 v) = v" "bswap_32 (bswap_32 w) = w" "bswap_64 (bswap_64 x) = x"
  using bswap_le_word(1) [of "rev (le_bytes 2 v)"] bswap_le_word(2) [of "rev (le_bytes 4 w)"]
    bswap_le_word(3) [of "rev (le_bytes 8 x)"]
  by (simp_all add: bswap_16_def bswap_32_def bswap_64_def le_word_le_bytes)

section \<open>A little-endian host\<close>

definition LE_bswap_le :: "'a::len word \<Rightarrow> 'a word" where "LE_bswap_le x = x"

definition LE_bswap_be_16 :: "u16 \<Rightarrow> u16" where "LE_bswap_be_16 x = bswap_16 x"
definition LE_bswap_be_32 :: "u32 \<Rightarrow> u32" where "LE_bswap_be_32 x = bswap_32 x"
definition LE_bswap_be_64 :: "u64 \<Rightarrow> u64" where "LE_bswap_be_64 x = bswap_64 x"
definition LE_bswap_be_s16 :: "int \<Rightarrow> int" where "LE_bswap_be_s16 x = sint (bswap_16 (word_of_int x))"
definition LE_bswap_be_s32 :: "int \<Rightarrow> int" where "LE_bswap_be_s32 x = sint (bswap_32 (word_of_int x))"
definition LE_bswap_be_s64 :: "int \<Rightarrow> int" where "LE_bswap_be_s64 x = sint (bswap_64 (word_of_int x))"

record be_uint16_t =
  be_val16 :: u16

definition be16_assign :: "u16 \<Rightarrow> be_uint16_t" where "be16_assign v = \<lparr>be_val16 = bswap_16 v\<rparr>"
definition be16_get :: "be_uint16_t \<Rightarrow> u16" where "be16_get r = bswap_16 (be_val16 r)"

record be_uint32_t =
  be_val32 :: u32

definition be32_assign :: "u32 \<Rightarrow> be_uint32_t" where "be32_assign v = \<lparr>be_val32 = bswap_32 v\<rparr>"
definition be32_get :: "be_uint32_t \<Rightarrow> u32" where "be32_get r = bswap_32 (be_val32 r)"

record be_uint64_t =
  be_val64 :: u64

definition be64_assign :: "u64 \<Rightarrow> be_uint64_t" where "be64_assign v = \<lparr>be_val64 = bswap_64 v\<rparr>"
definition be64_get :: "be_uint64_t \<Rightarrow> u64" where "be64_get r = bswap_64 (be_val64 r)"

section \<open>A big-endian host\<close>

definition BE_bswap_le_16 :: "u16 \<Rightarrow> u16" where "BE_bswap_le_16 x = bswap_16 x"
definition BE_bswap_le_32 :: "u32 \<Rightarrow> u32" where "BE_bswap_le_32 x = bswap_32 x"
definition BE_bswap_le_64 :: "u64 \<Rightarrow> u64" where "BE_bswap_le_64 x = bswap_64 x"
definition BE_bswap_le_s16 :: "int \<Rightarrow> int" where "BE_bswap_le_s16 x = sint (bswap_16 (word_of_int x))"
definition BE_bswap_le_s32 :: "int \<Rightarrow> int" where "BE_bswap_le_s32 x = sint (bswap_32 (word_of_int x))"
definition BE_bswap_le_s64 :: "int \<Rightarrow> int" where "BE_bswap_le_s64 x = sint (bswap_64 (word_of_int x))"

definition BE_bswap_be :: "'a::len word \<Rightarrow> 'a word" where "BE_bswap_be x = x"

record le_uint16_t =
  le_val16 :: u16

definition le16_assign :: "u16 \<Rightarrow> le_uint16_t" where "le16_assign v = \<lparr>le_val16 = bswap_16 v\<rparr>"
definition le16_get :: "le_uint16_t \<Rightarrow> u16" where "le16_get r = bswap_16 (le_val16 r)"

record le_uint32_t =
  le_val32 :: u32

definition le32_assign :: "u32 \<Rightarrow> le_uint32_t" where "le32_assign v = \<lparr>le_val32 = bswap_32 v\<rparr>"
definition le32_get :: "le_uint32_t \<Rightarrow> u32" where "le32_get r = bswap_32 (le_val32 r)"

record le_uint64_t =
  le_val64 :: u64

definition le64_assign :: "u64 \<Rightarrow> le_uint64_t" where "le64_assign v = \<lparr>le_val64 = bswap_64 v\<rparr>"
definition le64_get :: "le_uint64_t \<Rightarrow> u64" where "le64_get r = bswap_64 (le_val64 r)"

record le_int64_t =
  le_sval64 :: u64

definition le64s_assign :: "u64 \<Rightarrow> le_int64_t" where "le64s_assign v = \<lparr>le_sval64 = bswap_64 v\<rparr>"
definition le64s_get :: "le_int64_t \<Rightarrow> u64" where "le64s_get r = bswap_64 (le_sval64 r)"

section \<open>The signed overloads\<close>

text \<open>They have the bits of the unsigned ones and undo themselves on the values of their type.\<close>

lemma signed_bits:
  "word_of_int (LE_bswap_be_s16 x) = LE_bswap_be_16 (word_of_int x)"
  "word_of_int (LE_bswap_be_s32 x) = LE_bswap_be_32 (word_of_int x)"
  "word_of_int (LE_bswap_be_s64 x) = LE_bswap_be_64 (word_of_int x)"
  "word_of_int (BE_bswap_le_s16 x) = BE_bswap_le_16 (word_of_int x)"
  "word_of_int (BE_bswap_le_s32 x) = BE_bswap_le_32 (word_of_int x)"
  "word_of_int (BE_bswap_le_s64 x) = BE_bswap_le_64 (word_of_int x)"
  by (simp_all add: LE_bswap_be_s16_def LE_bswap_be_s32_def LE_bswap_be_s64_def BE_bswap_le_s16_def
      BE_bswap_le_s32_def BE_bswap_le_s64_def LE_bswap_be_16_def LE_bswap_be_32_def LE_bswap_be_64_def
      BE_bswap_le_16_def BE_bswap_le_32_def BE_bswap_le_64_def)

lemma signed_value: "- (2 ^ (LENGTH('a::len) - 1)) \<le> x \<Longrightarrow> x < 2 ^ (LENGTH('a) - 1) \<Longrightarrow> sint (word_of_int x :: 'a word) = x"
  by (simp add: signed_of_int signed_take_bit_int_eq_self)

lemma signed_bswap_bswap:
  "- (2 ^ 15) \<le> x \<Longrightarrow> x < 2 ^ 15 \<Longrightarrow> LE_bswap_be_s16 (LE_bswap_be_s16 x) = x \<and> BE_bswap_le_s16 (BE_bswap_le_s16 x) = x"
  "- (2 ^ 31) \<le> y \<Longrightarrow> y < 2 ^ 31 \<Longrightarrow> LE_bswap_be_s32 (LE_bswap_be_s32 y) = y \<and> BE_bswap_le_s32 (BE_bswap_le_s32 y) = y"
  "- (2 ^ 63) \<le> z \<Longrightarrow> z < 2 ^ 63 \<Longrightarrow> LE_bswap_be_s64 (LE_bswap_be_s64 z) = z \<and> BE_bswap_le_s64 (BE_bswap_le_s64 z) = z"
  using signed_value [of x, where 'a = 16] signed_value [of y, where 'a = 32] signed_value [of z, where 'a = 64]
  by (simp_all add: LE_bswap_be_s16_def LE_bswap_be_s32_def LE_bswap_be_s64_def BE_bswap_le_s16_def
      BE_bswap_le_s32_def BE_bswap_le_s64_def)

section \<open>Objects in memory\<close>

text \<open>How a host loads and stores a native integer: least or most significant byte first.\<close>

datatype host = Little_Endian_Host | Big_Endian_Host

definition native_load :: "host \<Rightarrow> u8 list \<Rightarrow> 'a::len word" where
  "native_load h bs = (case h of Little_Endian_Host \<Rightarrow> le_word bs | Big_Endian_Host \<Rightarrow> le_word (rev bs))"

definition native_store :: "host \<Rightarrow> nat \<Rightarrow> 'a::len word \<Rightarrow> u8 list" where
  "native_store h n w = (case h of Little_Endian_Host \<Rightarrow> le_bytes n w | Big_Endian_Host \<Rightarrow> rev (le_bytes n w))"

lemmas native_simps [simp] = native_load_def native_store_def

text \<open>The numbers that bytes stand for in the two orders.\<close>

fun le_value :: "u8 list \<Rightarrow> nat" where
  "le_value [] = 0"
| "le_value (b # bs) = unat b + 256 * le_value bs"

definition be_value :: "u8 list \<Rightarrow> nat" where
  "be_value bs = foldl (\<lambda>v b. 256 * v + unat b) 0 bs"

lemma be_value_rev: "be_value bs = le_value (rev bs)"
proof -
  have "foldl (\<lambda>v b. 256 * v + unat b) 0 (rev cs) = le_value cs" for cs :: "u8 list"
    by (induction cs) simp_all
  from this [of "rev bs"] show ?thesis by (simp add: be_value_def)
qed

lemma unat_le_word: "8 * length bs \<le> LENGTH('a::len) \<Longrightarrow> unat (le_word bs :: 'a word) = le_value bs"
proof (induction bs)
  case (Cons b bs)
  let ?w = "le_word bs :: 'a word"
  have l: "8 \<le> LENGTH('a)" "8 * length bs \<le> LENGTH('a) - 8" using Cons.prems by simp_all
  have w: "take_bit (LENGTH('a) - 8) ?w = ?w"
    using l(2) by (intro bit_word_eqI) (auto simp: bit_take_bit_iff bit_le_word)
  have "(ucast b :: 'a word) AND push_bit 8 ?w = 0"
    by (rule bit_word_eqI) (auto simp: bit_and_iff bit_ucast_iff bit_push_bit_iff dest: bit_imp_le_length)
  then have "le_word (b # bs) = (ucast b :: 'a word) + push_bit 8 ?w" by (simp add: disjunctive_add_eq_or)
  moreover have "unat (ucast b :: 'a word) = unat b"
    using l(1) unat_bound [of b] power_increasing [of 8 "LENGTH('a)" "2 :: nat"]
    by (simp add: unsigned_ucast_eq take_bit_nat_eq_self)
  moreover have "unat (push_bit 8 ?w) = 256 * unat ?w"
  proof -
    have "unat ?w < 2 ^ (LENGTH('a) - 8)"
      using w by (metis unsigned_take_bit_eq take_bit_nat_less_exp)
    then have "256 * unat ?w < 2 ^ LENGTH('a)" using l(1) power_add [of "2 :: nat" 8 "LENGTH('a) - 8"] by simp
    moreover have "unat (push_bit 8 ?w) = take_bit LENGTH('a) (256 * unat ?w)"
      by (simp only: unsigned_push_bit_eq) (simp add: push_bit_eq_mult mult.commute)
    ultimately show ?thesis by (simp add: take_bit_nat_eq_self)
  qed
  moreover have "unat b + 256 * unat ?w < 2 ^ LENGTH('a)"
  proof -
    have "Suc (unat ?w) \<le> 2 ^ (LENGTH('a) - 8)"
      using w by (metis unsigned_take_bit_eq take_bit_nat_less_exp Suc_leI)
    then have "256 * Suc (unat ?w) \<le> 2 ^ LENGTH('a)" using l(1) power_add [of "2 :: nat" 8 "LENGTH('a) - 8"] by simp
    then show ?thesis using unat_bound [of b] by simp
  qed
  moreover have "unat ?w = le_value bs" using Cons by simp
  ultimately show ?case by (simp add: unat_word_ariths)
qed simp

text \<open>
  What a type is to hold: the value of the bytes it lies over, and, once assigned, bytes with the assigned value.
\<close>

definition holds_value ::
  "(u8 list \<Rightarrow> nat) \<Rightarrow> nat \<Rightarrow> (u8 list \<Rightarrow> 'r) \<Rightarrow> ('r \<Rightarrow> 'a::len word) \<Rightarrow> ('a word \<Rightarrow> 'r) \<Rightarrow> ('r \<Rightarrow> u8 list) \<Rightarrow> bool" where
  "holds_value val n load get assign stored \<longleftrightarrow>
     (\<forall>bs. length bs = n \<longrightarrow> unat (get (load bs)) = val bs) \<and>
     (\<forall>v. length (stored (assign v)) = n \<and> val (stored (assign v)) = unat v)"

text \<open>
  An integer type of \<open>n\<close> bytes whose objects hold the value in the byte order \<open>order\<close>, taken from
  the little-endian one.
\<close>

locale disk_integer =
  fixes assign :: "'a::len word \<Rightarrow> 'r" and get :: "'r \<Rightarrow> 'a word"
    and load :: "u8 list \<Rightarrow> 'r" and stored :: "'r \<Rightarrow> u8 list"
    and n :: nat and order :: "u8 list \<Rightarrow> u8 list"
  assumes width: "LENGTH('a) = 8 * n"
    and order_length: "length (order bs) = length bs" and order_order: "order (order bs) = bs"
    and get_load: "length bs = n \<Longrightarrow> get (load bs) = le_word (order bs)"
    and stored_assign: "stored (assign v) = order (le_bytes n v)"
begin

lemma read_back: "get (load (stored (assign v))) = v"
  using le_word_le_bytes [where n = n and w = v] width
  by (simp add: stored_assign get_load order_length order_order)

lemma holds: "holds_value (\<lambda>bs. le_value (order bs)) n load get assign stored"
  using width unat_le_word [where 'a = 'a] le_word_le_bytes [where 'a = 'a and n = n]
  by (simp add: holds_value_def get_load stored_assign order_length order_order) (metis length_le_bytes order_refl)

lemma write_back: "length bs = n \<Longrightarrow> stored (assign (get (load bs))) = bs"
  using le_bytes_le_word [where bs = "order bs" and 'a = 'a] width
  by (simp add: stored_assign get_load order_length order_order)

end

text \<open>The little-endian types, native on a little-endian host and classes on a big-endian one.\<close>

interpretation le16_native: disk_integer "\<lambda>v :: u16. v" "\<lambda>v. v" "native_load Little_Endian_Host"
  "native_store Little_Endian_Host 2" 2 "\<lambda>bs. bs"
  by unfold_locales simp_all

interpretation le32_native: disk_integer "\<lambda>v :: u32. v" "\<lambda>v. v" "native_load Little_Endian_Host"
  "native_store Little_Endian_Host 4" 4 "\<lambda>bs. bs"
  by unfold_locales simp_all

interpretation le64_native: disk_integer "\<lambda>v :: u64. v" "\<lambda>v. v" "native_load Little_Endian_Host"
  "native_store Little_Endian_Host 8" 8 "\<lambda>bs. bs"
  by unfold_locales simp_all

interpretation le16_class: disk_integer le16_assign le16_get "\<lambda>bs. \<lparr>le_val16 = native_load Big_Endian_Host bs\<rparr>"
  "\<lambda>r. native_store Big_Endian_Host 2 (le_val16 r)" 2 "\<lambda>bs. bs"
  by unfold_locales (simp_all add: le16_assign_def le16_get_def bswap_le_word le_bytes_bswap)

interpretation le32_class: disk_integer le32_assign le32_get "\<lambda>bs. \<lparr>le_val32 = native_load Big_Endian_Host bs\<rparr>"
  "\<lambda>r. native_store Big_Endian_Host 4 (le_val32 r)" 4 "\<lambda>bs. bs"
  by unfold_locales (simp_all add: le32_assign_def le32_get_def bswap_le_word le_bytes_bswap)

interpretation le64_class: disk_integer le64_assign le64_get "\<lambda>bs. \<lparr>le_val64 = native_load Big_Endian_Host bs\<rparr>"
  "\<lambda>r. native_store Big_Endian_Host 8 (le_val64 r)" 8 "\<lambda>bs. bs"
  by unfold_locales (simp_all add: le64_assign_def le64_get_def bswap_le_word le_bytes_bswap)

interpretation le64s_class: disk_integer le64s_assign le64s_get "\<lambda>bs. \<lparr>le_sval64 = native_load Big_Endian_Host bs\<rparr>"
  "\<lambda>r. native_store Big_Endian_Host 8 (le_sval64 r)" 8 "\<lambda>bs. bs"
  by unfold_locales (simp_all add: le64s_assign_def le64s_get_def bswap_le_word le_bytes_bswap)

text \<open>The big-endian types, classes on a little-endian host and native on a big-endian one.\<close>

interpretation be16_native: disk_integer "\<lambda>v :: u16. v" "\<lambda>v. v" "native_load Big_Endian_Host"
  "native_store Big_Endian_Host 2" 2 rev
  by unfold_locales simp_all

interpretation be32_native: disk_integer "\<lambda>v :: u32. v" "\<lambda>v. v" "native_load Big_Endian_Host"
  "native_store Big_Endian_Host 4" 4 rev
  by unfold_locales simp_all

interpretation be64_native: disk_integer "\<lambda>v :: u64. v" "\<lambda>v. v" "native_load Big_Endian_Host"
  "native_store Big_Endian_Host 8" 8 rev
  by unfold_locales simp_all

interpretation be16_class: disk_integer be16_assign be16_get "\<lambda>bs. \<lparr>be_val16 = native_load Little_Endian_Host bs\<rparr>"
  "\<lambda>r. native_store Little_Endian_Host 2 (be_val16 r)" 2 rev
  by unfold_locales (simp_all add: be16_assign_def be16_get_def bswap_le_word le_bytes_bswap)

interpretation be32_class: disk_integer be32_assign be32_get "\<lambda>bs. \<lparr>be_val32 = native_load Little_Endian_Host bs\<rparr>"
  "\<lambda>r. native_store Little_Endian_Host 4 (be_val32 r)" 4 rev
  by unfold_locales (simp_all add: be32_assign_def be32_get_def bswap_le_word le_bytes_bswap)

interpretation be64_class: disk_integer be64_assign be64_get "\<lambda>bs. \<lparr>be_val64 = native_load Little_Endian_Host bs\<rparr>"
  "\<lambda>r. native_store Little_Endian_Host 8 (be_val64 r)" 8 rev
  by unfold_locales (simp_all add: be64_assign_def be64_get_def bswap_le_word le_bytes_bswap)

section \<open>Properties\<close>

text \<open>
  C28. Byte order. On a little-endian host, and on a big-endian one under the setting the header has for it,
  every type holds what its name says: an object of 2, 4 or 8 bytes that lies over bytes of the disk
  reads as the number these bytes stand for, least significant byte first for the little-endian types (the signed one
  with the bits of its value) and most significant first for the big-endian types, and a value that is
  assigned lies in memory as bytes that stand for it in this order. On the host of its own order a type is the native integer.
\<close>
theorem disk_integers_portable:
  "holds_value le_value 2 (native_load Little_Endian_Host) (\<lambda>v :: u16. v) (\<lambda>v. v) (native_store Little_Endian_Host 2) \<and>
   holds_value le_value 4 (native_load Little_Endian_Host) (\<lambda>v :: u32. v) (\<lambda>v. v) (native_store Little_Endian_Host 4) \<and>
   holds_value le_value 8 (native_load Little_Endian_Host) (\<lambda>v :: u64. v) (\<lambda>v. v) (native_store Little_Endian_Host 8) \<and>
   holds_value be_value 2 (\<lambda>bs. \<lparr>be_val16 = native_load Little_Endian_Host bs\<rparr>) be16_get be16_assign
     (\<lambda>r. native_store Little_Endian_Host 2 (be_val16 r)) \<and>
   holds_value be_value 4 (\<lambda>bs. \<lparr>be_val32 = native_load Little_Endian_Host bs\<rparr>) be32_get be32_assign
     (\<lambda>r. native_store Little_Endian_Host 4 (be_val32 r)) \<and>
   holds_value be_value 8 (\<lambda>bs. \<lparr>be_val64 = native_load Little_Endian_Host bs\<rparr>) be64_get be64_assign
     (\<lambda>r. native_store Little_Endian_Host 8 (be_val64 r)) \<and>
   holds_value le_value 2 (\<lambda>bs. \<lparr>le_val16 = native_load Big_Endian_Host bs\<rparr>) le16_get le16_assign
     (\<lambda>r. native_store Big_Endian_Host 2 (le_val16 r)) \<and>
   holds_value le_value 4 (\<lambda>bs. \<lparr>le_val32 = native_load Big_Endian_Host bs\<rparr>) le32_get le32_assign
     (\<lambda>r. native_store Big_Endian_Host 4 (le_val32 r)) \<and>
   holds_value le_value 8 (\<lambda>bs. \<lparr>le_val64 = native_load Big_Endian_Host bs\<rparr>) le64_get le64_assign
     (\<lambda>r. native_store Big_Endian_Host 8 (le_val64 r)) \<and>
   holds_value le_value 8 (\<lambda>bs. \<lparr>le_sval64 = native_load Big_Endian_Host bs\<rparr>) le64s_get le64s_assign
     (\<lambda>r. native_store Big_Endian_Host 8 (le_sval64 r)) \<and>
   holds_value be_value 2 (native_load Big_Endian_Host) (\<lambda>v :: u16. v) (\<lambda>v. v) (native_store Big_Endian_Host 2) \<and>
   holds_value be_value 4 (native_load Big_Endian_Host) (\<lambda>v :: u32. v) (\<lambda>v. v) (native_store Big_Endian_Host 4) \<and>
   holds_value be_value 8 (native_load Big_Endian_Host) (\<lambda>v :: u64. v) (\<lambda>v. v) (native_store Big_Endian_Host 8)"
  unfolding be_value_rev [abs_def]
  by (intro conjI le16_native.holds le32_native.holds le64_native.holds be16_class.holds be32_class.holds
      be64_class.holds le16_class.holds le32_class.holds le64_class.holds le64s_class.holds
      be16_native.holds be32_native.holds be64_native.holds)

end
