(* ===== verification/Spec2Isabelle.thy ===== *)
theory Spec2Isabelle
  imports Newest_Served Thread_Theorems Scan_Liveness Dump_File Byte_Order Format_Theorems
begin

text \<open>
  A verification library for superbadblock, which recovers the files of a damaged APFS disk.

  \<^bold>\<open>The program.\<close> \<open>filehunter\<close> (\<open>src/filehunter/main.cpp\<close>) reads an image block by block
  (\<open>DiskScanner\<close>, \<open>src/libsbb/diskscanner.cpp\<close>) and hands every block to \<open>APFSScanner\<close>
  (\<open>src/libsbb/apfsscanner.cpp\<close>), which looks for B-tree nodes with a valid checksum (\<open>fletcher64\<close>,
  \<open>src/libsbb/utils.cpp\<close>) and turns their records into entries of \<open>FileSystem\<close>
  (\<open>src/libsbb/filesystem.cpp\<close>). \<open>FileSystem\<close> keeps the entries in a database and caches them as
  objects. \<open>sbbfuse\<close> (\<open>src/sbbfuse/main.cpp\<close>) mounts such a database: it resolves paths in it and
  reads the files out of the image. The layouts on disk are those of \<open>include/apfs.h\<close>, the byte
  order that of \<open>include/endian.h\<close>.

  \<^bold>\<open>How it is modelled.\<close> Every function of the code is a HOL function on an explicit state.
  Machine integers are words of their width, and a narrowing or a change of sign is written out. A
  fault of the code (a null or dangling pointer, an access outside an array, the overflow of a signed
  integer, an allocation of negative size, a data race) is the left value of the sum type \<open>res\<close> (\<open>SBB_Prelude\<close>),
  so that a function that returns \<open>Inr\<close> has none. An object on the heap is an address in an explicit
  store, so that two pointers alias in the model when they do in the code; a pointer into a block is
  an offset, followed where the code follows it. The tree \<open>dumpTree\<close> prints and the lines \<open>hexdump\<close> and
  \<open>dumpFile\<close> print are results; the messages about progress and errors that \<open>addEntry\<close>, \<open>updateEntry\<close>, \<open>scan\<close>
  and the operations of \<open>sbbfuse\<close> print on the way are left out, as is the log.

  \<^bold>\<open>The theories\<close>, in the order of the imports.
  \<^item> \<open>SBB_Prelude\<close>: types, faults, the error monad, \<open>for_each\<close>. \<open>Std_Map\<close>: \<open>std::map\<close>, an ordered
    association list with unique keys. \<open>Byte_Memory\<close>: little-endian loads and C strings.
  \<^item> \<open>Checksum\<close>: \<open>fletcher64\<close>, against the reference sums modulo \<open>2^32 - 1\<close>; no addition of its loop
    wraps; a change of one word is seen unless it exchanges the two encodings of zero.
    \<open>Hexdump\<close>: \<open>hexdump\<close>, and that its output can be read back.
  \<^item> \<open>APFS_Types\<close>, \<open>APFS_Objects\<close>, \<open>APFS_Volume\<close>, \<open>APFS_Records\<close>, \<open>APFS_Trees\<close>, \<open>APFS_Space\<close>,
    \<open>APFS_Crypto\<close>: every structure and every constant of \<open>apfs.h\<close>, a structure as the list of its
    fields and their types, packed as the header asks for; the size of every structure is a lemma.
    \<open>APFS_Format\<close>: the offsets the scanner uses; \<open>Format_Theorems\<close>: the sizes of all structures
    and what the packing does to them.
    \<open>Byte_Order\<close>: the integer types of \<open>endian.h\<close>, instances of the locale \<open>disk_integer\<close>: those for a
    little-endian host, which are compiled, and those of the branch for a big-endian one, which the header switches off
    by undefining \<open>APFS_BIG_ENDIAN\<close>.
  \<^item> \<open>Entry_Database\<close>: the SQL statements of the code and what they are bound to, as calls of a
    \<open>database\<close> record, and the contract \<open>sql_store\<close>, a locale that says what the statements do to
    the table of entries (a map from inodes to rows) and to the extents (a multiset for each
    inode). \<open>mem_db\<close>, tables kept as lists, is an interpretation.
  \<^item> \<open>File_System\<close>: \<open>FileSystem\<close> with its cache, from \<open>init\<close> to \<open>dumpTree\<close>. \<open>File_System_Inv\<close>: the
    abstract state, a \<open>catalog\<close> from inodes to a row and its extents, the invariant \<open>fs_inv\<close> (every
    cached object agrees with the database) and the effect of each operation on the catalog, under
    the contract. \<open>Dump_Tree\<close>: what \<open>dumpTree\<close> prints and when it ends. \<open>File_System_Theorems\<close>:
    the properties. \<open>File_Read\<close>: \<open>FileSystem::read\<close>, with the contracts \<open>pread_device\<close> and
    \<open>image_device\<close> for the disk.
  \<^item> \<open>APFS_Scanner\<close>: \<open>APFSScanner\<close> (blocks, nodes, the three kinds of records). \<open>Scanner_Spec\<close>: the
    effect of a node as a function of the records it holds and the catalog (\<open>spec_node\<close>), and the
    proof that the code refines it. \<open>Scanner_Theorems\<close>: the order of transactions, damaged blocks, and
    where the code goes wrong. \<open>Dump_File\<close>: \<open>dumpFile\<close>, with the contract \<open>seek_device\<close>.
    \<open>Scanner_Example\<close> and \<open>Scan_Example\<close>: blocks for closed examples.
  \<^item> \<open>Disk_Scanner\<close>: \<open>open\<close>, \<open>scan\<close> and \<open>stop\<close>. A scan and the signal handler interleave, so the scan is
    a state machine with the events \<open>Call_Scan\<close>, \<open>Iterate r\<close> (\<open>r\<close> is what \<open>read\<close> returns) and
    \<open>Call_Stop\<close>; the interface of \<open>include/scanner.h\<close> is the locale \<open>block_scanner\<close>, which the APFS
    scanner provides. \<open>Disk_Theorems\<close>: invariant, safety and result of a scan. \<open>Scan_Liveness\<close>: under
    fair scheduling every scan with a reason to end returns.
  \<^item> \<open>Filehunter\<close>: \<open>main\<close> and the signal handler of \<open>filehunter\<close>, for any order of events.
    \<open>Sbb_Fuse\<close>: \<open>getattr\<close>, \<open>readdir\<close>, \<open>open\<close> and \<open>read\<close> of \<open>sbbfuse\<close>, each as a call of \<open>findByPath\<close> and what
    it does with the entry; \<open>Fuse_Session\<close>: their table and \<open>main\<close>, for any sequence of requests.
    \<open>Fuse_Threads\<close>: requests at the same time, threads that take turns under any schedule and share the
    file system and the mutex of \<open>findByPath\<close>, with the invariant they keep. A search and an answer begin in one
    turn and end in another, \<open>at_work\<close> says which shared data a thread uses in between, and a thread
    that begins to use data another is at work on, one of them to change it, is in a data race.
    \<open>Thread_Theorems\<close>: what threads do to each other.
  \<^item> \<open>Node_Encoding\<close>: a writer of leaf nodes, and that the scanner reads back every list of records
    that fits. \<open>Volume\<close>: a volume as a set of objects, its catalog, and that the effects of its nodes
    add up to it (the locale \<open>piece_by_piece\<close> carries what holds of a piece to nodes). \<open>Recovery\<close>: the two
    programs one after the other on an image of a volume. \<open>Newest_Records\<close>: one entry followed through
    a sequence of nodes with any contents. \<open>Newest_Volume\<close>: a volume that has been changed, whose newest
    records lie in nodes of different transactions among older ones. \<open>Newest_Served\<close>: what \<open>sbbfuse\<close>
    answers on it, said of the volume.

  \<^bold>\<open>What is proved.\<close> Bottom up: the checksum is Fletcher's; a node in bounds has the effect of its
  records; a scan has the effect of its blocks, keeps the invariant under any interleaving with the signal handler, does not
  fault and returns; a path leads where the catalog says; a read gives the bytes of the file. Together:
  \<open>filehunter\<close> recovers exactly the catalog of a volume whose nodes lie on the image, and \<open>sbbfuse\<close>
  answers requests on the result as the volume determines. On a disk with a past the newest
  records win, object by object, and the paths of the volume are served with what they say, as long as no
  deleted file shares a name with a live one and no record is met after a newer one of the same object
  that it should complete. What is said of a scan holds for blocks the scanner understands (\<open>clean_block\<close>),
  what is said of a mounted image for a catalog with a root and unique names (\<open>mountable\<close>) and for reads of files without
  holes (\<open>servable\<close>); the properties of kind error show that these conditions are needed. Concurrent requests are
  answered like sequential ones under every schedule without a data race, and without a directory that is
  listed, on a root without extents, there is none. The
  properties of kind error say where the code does not do what it should: files with holes, extents in
  another node than their inode, offsets outside the block, a disk that cannot be opened, a catalog
  with a cycle, a name that is older than the inode record, a deleted file with the name of a live one, a
  directory listed without the mutex.

  \<^bold>\<open>Bounds and fuel.\<close> Only \<open>dumpTree\<close> has fuel, one unit for each nested call. It is enough when it
  exceeds the rank of the root in some ranking of the entries that can be reached from it in which children rank below their parents
  (\<open>dumpTree_terminates\<close>), and when it exceeds the number of entries and the root is on no cycle
  (\<open>runs_out_finite\<close>); no fuel is enough for a cycle (\<open>dumpTree_diverges_on_cycle\<close>), where the code
  recurses for ever. The loops over blocks and requests consume the list of events they are given.
  A request takes five turns, so \<open>5 n\<close> rounds are enough for \<open>n\<close> requests.
  Blocks have 4096 bytes in \<open>DiskScanner\<close> and any size in the scanner; an encoded node has less than
  65536 bytes, what its 16-bit offsets can address.

  \<^bold>\<open>Not modelled.\<close> libgeek (\<open>Database\<close>, \<open>splitString\<close>, \<open>Logger\<close>, \<open>Thread\<close>), SQLite, libfuse and the
  system calls are not under \<open>src/\<close> and are parameters. What a data race does to the cache is undefined in
  C++ and has no model beyond the fault.
  Memory that is leaked or exhausted, the log, the trace under
  \<open>APFS_DEBUG\<close>, \<open>sbb_init\<close>, which returns a null pointer, and the member functions that only destroy or return a
  member have no definition of their own. Of \<open>endian.h\<close> the macros that rename functions of the system and the part
  under \<open>#if 0\<close> are left out.
\<close>

end
